(* ===== verification/Kafgres_Prelude.thy ===== *)
theory Kafgres_Prelude
  imports Main "HOL-Library.Word"
begin

text \<open>
  Shared vocabulary of the kafgres development: the machine integers and byte strings the
  broker works on, Rust's \<open>Result\<close> with its \<open>?\<close> operator, the readers that consume a
  cursor, big-endian integers as the \<open>bytes\<close> crate reads and writes them, and the collections
  of simplification rules the component theories extend.

  Conventions used everywhere:
  \<^item> a \<open>w\<close>-bit integer is a \<open>w word\<close>; whether it is signed is decided where it is read
    (\<open>sint\<close> for Rust's \<open>iN\<close>, \<open>uint\<close>/\<open>unat\<close> for \<open>uN\<close>), and \<open>+\<close>, \<open>-\<close> wrap as they do in a
    release build of the extension;
  \<^item> \<open>usize\<close> is \<open>nat\<close>: it only counts bytes or elements that are held in memory;
  \<^item> \<open>Result<T, E>\<close> is \<open>'e + 'a\<close> with \<open>Inl\<close> for \<open>Err\<close>; a function that takes \<open>&mut\<close> a cursor
    and may fail returns the new cursor with the value. On the error path the cursor is not
    returned: every caller leaves with \<open>?\<close> and never reads it again.
\<close>

unbundle bit_operations_syntax

type_synonym u8 = "8 word"
type_synonym i8 = "8 word"
type_synonym i16 = "16 word"
type_synonym u16 = "16 word"
type_synonym i32 = "32 word"
type_synonym u32 = "32 word"
type_synonym i64 = "64 word"
type_synonym u64 = "64 word"
type_synonym bytes = "8 word list"

named_theorems reader_simps \<open>unfolding of the reader combinators\<close>
named_theorems wire_defs \<open>definitions of the wire primitives\<close>

subsection \<open>Results and readers\<close>

definition rbind :: "'e + 'a \<Rightarrow> ('a \<Rightarrow> 'e + 'b) \<Rightarrow> 'e + 'b" where
  "rbind r f = (case r of Inl e \<Rightarrow> Inl e | Inr x \<Rightarrow> f x)"

lemma rbind_simps [simp]:
  "rbind (Inl e) f = Inl e"
  "rbind (Inr x) f = f x"
  by (simp_all add: rbind_def)

lemma rbind_eq_Inr: "rbind r f = Inr y \<longleftrightarrow> (\<exists>x. r = Inr x \<and> f x = Inr y)"
  by (cases r) auto

lemma rbind_eq_Inl: "rbind r f = Inl e \<longleftrightarrow> r = Inl e \<or> (\<exists>x. r = Inr x \<and> f x = Inl e)"
  by (cases r) auto

definition preturn :: "'a \<Rightarrow> 's \<Rightarrow> 'e + ('a \<times> 's)" where
  [reader_simps]: "preturn x s = Inr (x, s)"

definition pfail :: "'e \<Rightarrow> 's \<Rightarrow> 'e + ('a \<times> 's)" where
  [reader_simps]: "pfail e s = Inl e"

definition pbind :: "('s \<Rightarrow> 'e + ('a \<times> 's)) \<Rightarrow> ('a \<Rightarrow> 's \<Rightarrow> 'e + ('b \<times> 's)) \<Rightarrow> 's \<Rightarrow> 'e + ('b \<times> 's)" where
  "pbind p f s = (case p s of Inl e \<Rightarrow> Inl e | Inr (x, s') \<Rightarrow> f x s')"

lemma pbind_Inr [simp]: "p s = Inr (x, s') \<Longrightarrow> pbind p f s = f x s'"
  by (simp add: pbind_def)

lemma pbind_Inl [simp]: "p s = Inl e \<Longrightarrow> pbind p f s = Inl e"
  by (simp add: pbind_def)

lemma pbind_return [simp]: "pbind (preturn x) f s = f x s"
  by (simp add: pbind_def preturn_def)

lemma pbind_fail [simp]: "pbind (pfail e) f s = Inl e"
  by (simp add: pbind_def pfail_def)

lemma pbind_eq_Inr:
  "pbind p f s = Inr (y, s'') \<longleftrightarrow> (\<exists>x s'. p s = Inr (x, s') \<and> f x s' = Inr (y, s''))"
  by (auto simp: pbind_def split: sum.splits)

lemma pbind_eq_Inl:
  "pbind p f s = Inl e \<longleftrightarrow> p s = Inl e \<or> (\<exists>x s'. p s = Inr (x, s') \<and> f x s' = Inl e)"
  by (auto simp: pbind_def split: sum.splits)

text \<open>Every reader of the development moves its cursor to a suffix of where it was.\<close>

definition consumes :: "(bytes \<Rightarrow> 'e + ('a \<times> bytes)) \<Rightarrow> bool" where
  "consumes p \<longleftrightarrow> (\<forall>s x s'. p s = Inr (x, s') \<longrightarrow> (\<exists>w. s = w @ s'))"

lemma consumesI: "(\<And>s x s'. p s = Inr (x, s') \<Longrightarrow> \<exists>w. s = w @ s') \<Longrightarrow> consumes p"
  by (auto simp: consumes_def)

lemma consumesD: "consumes p \<Longrightarrow> p s = Inr (x, s') \<Longrightarrow> \<exists>w. s = w @ s'"
  unfolding consumes_def by blast

lemma consumes_preturn [intro!]: "consumes (preturn x)"
  by (auto simp: consumes_def preturn_def)

lemma consumes_pfail [intro!]: "consumes (pfail e)"
  by (auto simp: consumes_def pfail_def)

lemma consumes_pbind [intro]:
  assumes "consumes p" and "\<And>x. consumes (f x)"
  shows "consumes (pbind p f)"
proof (rule consumesI)
  fix s y s''
  assume "pbind p f s = Inr (y, s'')"
  then obtain x s' where "p s = Inr (x, s')" and "f x s' = Inr (y, s'')"
    by (auto simp: pbind_eq_Inr)
  then obtain w v where "s = w @ s'" and "s' = v @ s''"
    using assms consumesD by metis
  then show "\<exists>w. s = w @ s''" by auto
qed

subsection \<open>Big-endian integers\<close>

definition be_bytes :: "nat \<Rightarrow> 'a::len word \<Rightarrow> bytes" where
  "be_bytes n w = map (\<lambda>i. ucast (drop_bit (8 * i) w)) (rev [0..<n])"

definition from_be :: "bytes \<Rightarrow> 'a::len word" where
  "from_be bs = foldl (\<lambda>acc b. push_bit 8 acc OR ucast b) 0 bs"

lemma length_be_bytes [simp]: "length (be_bytes n w) = n"
  by (simp add: be_bytes_def)

lemma be_bytes_Suc: "be_bytes (Suc n) w = ucast (drop_bit (8 * n) w) # be_bytes n w"
  by (simp add: be_bytes_def)

lemma from_be_be_bytes_foldl:
  "foldl (\<lambda>acc b. push_bit 8 acc OR ucast b) a (be_bytes n w)
     = push_bit (8 * n) a OR take_bit (8 * n) (w :: 'a::len word)"
proof (induction n arbitrary: a)
  case 0
  show ?case by (simp add: be_bytes_def)
next
  case (Suc n)
  have "bit (push_bit (8 * n) (push_bit 8 a OR ucast (ucast (drop_bit (8 * n) w) :: u8))
             OR take_bit (8 * n) w) k
        = bit (push_bit (8 * Suc n) a OR take_bit (8 * Suc n) w) k" if "k < LENGTH('a)" for k
    using that
    by (cases "k < 8 * n"; cases "k < 8 + 8 * n")
      (auto simp: bit_simps algebra_simps not_less)
  then show ?case
    by (simp add: be_bytes_Suc Suc bit_word_eqI)
qed

lemma from_be_be_bytes [simp]: "8 * n = LENGTH('a) \<Longrightarrow> from_be (be_bytes n w) = (w :: 'a::len word)"
  by (simp add: from_be_def from_be_be_bytes_foldl take_bit_word_eq_self)

lemmas be_lengths = be_bytes_def upt_rec

subsection \<open>LEB128\<close>

text \<open>The reference encoding every varint writer of the broker produces: seven bits per byte,
  least significant group first, the high bit set on every byte but the last.\<close>

fun leb128 :: "nat \<Rightarrow> bytes" where
  "leb128 n =
     (if n < 128 then [word_of_nat n]
      else (word_of_nat (n mod 128) OR 0x80) # leb128 (n div 128))"
declare leb128.simps [simp del]

lemma unat_drop_7: "unat (drop_bit 7 (v :: 'a::len word)) = unat v div 128"
  by (simp add: unat_drop_bit_eq drop_bit_eq_div [where 'a=nat] del: drop_bit_eq_div)

lemma leb128_length_pos: "0 < length (leb128 n)"
  by (subst leb128.simps) simp

lemma leb128_length: "n < 128 ^ k \<Longrightarrow> 0 < k \<Longrightarrow> length (leb128 n) \<le> k"
proof (induction n arbitrary: k rule: leb128.induct)
  case (1 n)
  show ?case
  proof (cases "n < 128")
    case True
    then show ?thesis using "1.prems" by (simp add: leb128.simps[of n])
  next
    case False
    then obtain j where k: "k = Suc j" "0 < j"
      using "1.prems" by (cases k; cases "k = 1") auto
    have "n div 128 < 128 ^ j"
      using "1.prems"(1) k by (simp add: less_mult_imp_div_less mult.commute)
    then have "length (leb128 (n div 128)) \<le> j"
      using "1.IH" False k by blast
    then show ?thesis using False k by (simp add: leb128.simps[of n])
  qed
qed

lemma word_of_nat_leb_step:
  "word_of_nat n = (word_of_nat (n mod 128) OR push_bit 7 (word_of_nat (n div 128)) :: 'a::len word)"
proof (rule bit_word_eqI)
  fix k assume "k < LENGTH('a)"
  have m: "n mod 128 = take_bit 7 n" by (simp add: take_bit_eq_mod)
  have d: "n div 128 = drop_bit 7 n" by (simp add: drop_bit_eq_div)
  show "bit (word_of_nat n :: 'a word) k =
      bit (word_of_nat (n mod 128) OR push_bit 7 (word_of_nat (n div 128)) :: 'a word) k"
    unfolding m d using \<open>k < LENGTH('a)\<close>
    by (auto simp: bit_simps not_less)
qed

lemma leb_bytes:
  assumes "n < 128"
  shows "(word_of_nat n :: u8) AND 0x7f = word_of_nat n"
    and "(word_of_nat n :: u8) AND 0x80 = 0"
    and "(word_of_nat n OR 0x80 :: u8) AND 0x7f = word_of_nat n"
    and "(word_of_nat n OR 0x80 :: u8) AND 0x80 \<noteq> 0"
proof -
  have "\<forall>n \<in> set [0..<128]. (word_of_nat n :: u8) AND 0x7f = word_of_nat n
     \<and> (word_of_nat n :: u8) AND 0x80 = 0
     \<and> (word_of_nat n OR 0x80 :: u8) AND 0x7f = word_of_nat n
     \<and> (word_of_nat n OR 0x80 :: u8) AND 0x80 \<noteq> 0"
    by code_simp
  with assms show "(word_of_nat n :: u8) AND 0x7f = word_of_nat n"
    and "(word_of_nat n :: u8) AND 0x80 = 0"
    and "(word_of_nat n OR 0x80 :: u8) AND 0x7f = word_of_nat n"
    and "(word_of_nat n OR 0x80 :: u8) AND 0x80 \<noteq> 0"
    by auto
qed

lemma u8_and_7f: "(word_of_nat n :: u8) AND 0x7f = word_of_nat (n mod 128)"
proof -
  have "(word_of_nat n :: u8) AND mask 7 = take_bit 7 (word_of_nat n)"
    by (simp add: take_bit_eq_mask)
  also have "\<dots> = word_of_nat (take_bit 7 n)"
    by (metis of_nat_take_bit)
  finally show ?thesis
    by (simp add: mask_eq_exp_minus_1 take_bit_eq_mod)
qed

text \<open>The two spellings of a continuation byte, \<open>((v & 0x7f) | 0x80) as u8\<close> and
  \<open>(v as u8) | 0x80\<close>, are the reference's.\<close>

lemma leb_cont_masked:
  "ucast ((v AND 0x7f) OR 0x80) = (word_of_nat (unat v mod 128) OR 0x80 :: u8)" for v :: u32
  by (simp add: unsigned_or_eq unsigned_and_eq flip: u8_and_7f)

lemma leb_cont_or: "ucast v OR 0x80 = (word_of_nat (unat v mod 128) OR 0x80 :: u8)"
proof -
  have all_ones: "(0x7f OR 0x80 :: u8) = - 1"
    by simp
  have "w OR 0x80 = (w AND 0x7f) OR 0x80" for w :: u8
    by (simp only: bit.disj_conj_distrib2 all_ones and.right_neutral)
  then have "ucast v OR 0x80 = ((word_of_nat (unat v) :: u8) AND 0x7f) OR 0x80"
    by simp
  then show ?thesis
    by (simp only: u8_and_7f)
qed

lemma ucast_word_of_nat_8: "n < 256 \<Longrightarrow> ucast (word_of_nat n :: u8) = word_of_nat n"
  by (simp add: unsigned_of_nat take_bit_nat_eq_self)

subsection \<open>Lists\<close>

text \<open>\<open>patch off v bs\<close> is \<open>bs[off..off + v.len()].copy_from_slice(v)\<close>.\<close>

definition patch :: "nat \<Rightarrow> 'a list \<Rightarrow> 'a list \<Rightarrow> 'a list" where
  "patch off v bs = take off bs @ v @ drop (off + length v) bs"

text \<open>\<open>sub_range off n bs\<close> is \<open>bs[off..off + n]\<close>.\<close>

definition sub_range :: "nat \<Rightarrow> nat \<Rightarrow> 'a list \<Rightarrow> 'a list" where
  "sub_range off n bs = take n (drop off bs)"

lemma length_patch [simp]: "off + length v \<le> length bs \<Longrightarrow> length (patch off v bs) = length bs"
  by (simp add: patch_def)

lemma length_sub_range [simp]: "off + n \<le> length bs \<Longrightarrow> length (sub_range off n bs) = n"
  by (simp add: sub_range_def)

lemma sub_range_patch_same:
  "off + length v \<le> length bs \<Longrightarrow> sub_range off (length v) (patch off v bs) = v"
  by (simp add: sub_range_def patch_def)

lemma sub_range_patch_before:
  "i + n \<le> off \<Longrightarrow> off + length v \<le> length bs \<Longrightarrow> sub_range i n (patch off v bs) = sub_range i n bs"
  by (simp add: sub_range_def patch_def take_drop add.commute)

lemma drop_patch_after:
  "off + length v \<le> i \<Longrightarrow> off + length v \<le> length bs \<Longrightarrow> drop i (patch off v bs) = drop i bs"
  by (simp add: patch_def)

lemma sub_range_patch_after:
  "off + length v \<le> i \<Longrightarrow> off + length v \<le> length bs \<Longrightarrow> sub_range i n (patch off v bs) = sub_range i n bs"
  by (simp add: sub_range_def drop_patch_after)

end
