(* ===== verification/Errors.thy ===== *)
theory Errors
  imports Kafgres_Prelude
begin

text \<open>
  The failure vocabulary of the broker (\<open>src/codec/src/errors.rs\<close>): codec failures, the Kafka
  error codes clients act on, which of them the Java client retries, and the mapping from the
  first to the second. An \<open>ErrorCode\<close> constructor \<open>X\<close> of the source is \<open>E_X\<close> here.
\<close>

datatype codec_error =
    Truncated nat nat
  | InvalidLength int
  | UnexpectedNull string
  | InvalidUtf8
  | TagOutOfOrder u32 u32
  | MalformedVarint
  | UnsupportedVersion i16 i16
  | UnknownApiKey i16

datatype (plugins only: code) error_code =
    E_UnknownServerError
  | E_None
  | E_OffsetOutOfRange
  | E_CorruptMessage
  | E_UnknownTopicOrPartition
  | E_InvalidFetchSize
  | E_LeaderNotAvailable
  | E_NotLeaderOrFollower
  | E_RequestTimedOut
  | E_MessageTooLarge
  | E_OffsetMetadataTooLarge
  | E_NetworkException
  | E_CoordinatorLoadInProgress
  | E_CoordinatorNotAvailable
  | E_NotCoordinator
  | E_InvalidTopicException
  | E_RecordListTooLarge
  | E_NotEnoughReplicas
  | E_NotEnoughReplicasAfterAppend
  | E_InvalidRequiredAcks
  | E_IllegalGeneration
  | E_InconsistentGroupProtocol
  | E_InvalidGroupId
  | E_UnknownMemberId
  | E_InvalidSessionTimeout
  | E_RebalanceInProgress
  | E_InvalidCommitOffsetSize
  | E_TopicAuthorizationFailed
  | E_GroupAuthorizationFailed
  | E_ClusterAuthorizationFailed
  | E_InvalidTimestamp
  | E_UnsupportedSaslMechanism
  | E_IllegalSaslState
  | E_UnsupportedVersion
  | E_TopicAlreadyExists
  | E_InvalidPartitions
  | E_InvalidReplicationFactor
  | E_InvalidReplicaAssignment
  | E_InvalidConfig
  | E_NotController
  | E_InvalidRequest
  | E_UnsupportedForMessageFormat
  | E_PolicyViolation
  | E_OutOfOrderSequenceNumber
  | E_DuplicateSequenceNumber
  | E_InvalidProducerEpoch
  | E_InvalidTxnState
  | E_InvalidProducerIdMapping
  | E_InvalidTransactionTimeout
  | E_ConcurrentTransactions
  | E_TransactionCoordinatorFenced
  | E_TransactionalIdAuthorizationFailed
  | E_SecurityDisabled
  | E_OperationNotAttempted
  | E_KafkaStorageError
  | E_LogDirNotFound
  | E_SaslAuthenticationFailed
  | E_UnknownProducerId
  | E_ReassignmentInProgress
  | E_DelegationTokenAuthDisabled
  | E_NonEmptyGroup
  | E_GroupIdNotFound
  | E_FencedLeaderEpoch
  | E_UnknownLeaderEpoch
  | E_UnsupportedCompressionType
  | E_OffsetNotAvailable
  | E_MemberIdRequired
  | E_GroupMaxSizeReached
  | E_FencedInstanceId
  | E_ElectionNotNeeded
  | E_NoReassignmentInProgress
  | E_GroupSubscribedToTopic
  | E_InvalidRecord
  | E_UnstableOffsetCommit
  | E_ProducerFenced
  | E_ResourceNotFound
  | E_UnacceptableCredential
  | E_FeatureUpdateFailed
  | E_UnknownTopicId
  | E_TransactionalIdNotFound
  | E_FencedMemberEpoch
  | E_UnreleasedInstanceId
  | E_UnsupportedAssignor
  | E_StaleMemberEpoch
  | E_TransactionAbortable
  | E_InvalidRecordState
  | E_ShareSessionNotFound
  | E_InvalidShareSessionEpoch
  | E_InvalidRegularExpression
  | E_ShareSessionLimitReached

primrec code :: "error_code \<Rightarrow> i16" where
  "code E_UnknownServerError = -1"
| "code E_None = 0"
| "code E_OffsetOutOfRange = 1"
| "code E_CorruptMessage = 2"
| "code E_UnknownTopicOrPartition = 3"
| "code E_InvalidFetchSize = 4"
| "code E_LeaderNotAvailable = 5"
| "code E_NotLeaderOrFollower = 6"
| "code E_RequestTimedOut = 7"
| "code E_MessageTooLarge = 10"
| "code E_OffsetMetadataTooLarge = 12"
| "code E_NetworkException = 13"
| "code E_CoordinatorLoadInProgress = 14"
| "code E_CoordinatorNotAvailable = 15"
| "code E_NotCoordinator = 16"
| "code E_InvalidTopicException = 17"
| "code E_RecordListTooLarge = 18"
| "code E_NotEnoughReplicas = 19"
| "code E_NotEnoughReplicasAfterAppend = 20"
| "code E_InvalidRequiredAcks = 21"
| "code E_IllegalGeneration = 22"
| "code E_InconsistentGroupProtocol = 23"
| "code E_InvalidGroupId = 24"
| "code E_UnknownMemberId = 25"
| "code E_InvalidSessionTimeout = 26"
| "code E_RebalanceInProgress = 27"
| "code E_InvalidCommitOffsetSize = 28"
| "code E_TopicAuthorizationFailed = 29"
| "code E_GroupAuthorizationFailed = 30"
| "code E_ClusterAuthorizationFailed = 31"
| "code E_InvalidTimestamp = 32"
| "code E_UnsupportedSaslMechanism = 33"
| "code E_IllegalSaslState = 34"
| "code E_UnsupportedVersion = 35"
| "code E_TopicAlreadyExists = 36"
| "code E_InvalidPartitions = 37"
| "code E_InvalidReplicationFactor = 38"
| "code E_InvalidReplicaAssignment = 39"
| "code E_InvalidConfig = 40"
| "code E_NotController = 41"
| "code E_InvalidRequest = 42"
| "code E_UnsupportedForMessageFormat = 43"
| "code E_PolicyViolation = 44"
| "code E_OutOfOrderSequenceNumber = 45"
| "code E_DuplicateSequenceNumber = 46"
| "code E_InvalidProducerEpoch = 47"
| "code E_InvalidTxnState = 48"
| "code E_InvalidProducerIdMapping = 49"
| "code E_InvalidTransactionTimeout = 50"
| "code E_ConcurrentTransactions = 51"
| "code E_TransactionCoordinatorFenced = 52"
| "code E_TransactionalIdAuthorizationFailed = 53"
| "code E_SecurityDisabled = 54"
| "code E_OperationNotAttempted = 55"
| "code E_KafkaStorageError = 56"
| "code E_LogDirNotFound = 57"
| "code E_SaslAuthenticationFailed = 58"
| "code E_UnknownProducerId = 59"
| "code E_ReassignmentInProgress = 60"
| "code E_DelegationTokenAuthDisabled = 61"
| "code E_NonEmptyGroup = 68"
| "code E_GroupIdNotFound = 69"
| "code E_FencedLeaderEpoch = 74"
| "code E_UnknownLeaderEpoch = 75"
| "code E_UnsupportedCompressionType = 76"
| "code E_OffsetNotAvailable = 78"
| "code E_MemberIdRequired = 79"
| "code E_GroupMaxSizeReached = 81"
| "code E_FencedInstanceId = 82"
| "code E_ElectionNotNeeded = 84"
| "code E_NoReassignmentInProgress = 85"
| "code E_GroupSubscribedToTopic = 86"
| "code E_InvalidRecord = 87"
| "code E_UnstableOffsetCommit = 88"
| "code E_ProducerFenced = 90"
| "code E_ResourceNotFound = 91"
| "code E_UnacceptableCredential = 93"
| "code E_FeatureUpdateFailed = 96"
| "code E_UnknownTopicId = 100"
| "code E_TransactionalIdNotFound = 105"
| "code E_FencedMemberEpoch = 110"
| "code E_UnreleasedInstanceId = 111"
| "code E_UnsupportedAssignor = 112"
| "code E_StaleMemberEpoch = 113"
| "code E_TransactionAbortable = 120"
| "code E_InvalidRecordState = 121"
| "code E_ShareSessionNotFound = 122"
| "code E_InvalidShareSessionEpoch = 123"
| "code E_InvalidRegularExpression = 128"
| "code E_ShareSessionLimitReached = 133"

definition is_retriable :: "error_code \<Rightarrow> bool" where
  "is_retriable e \<longleftrightarrow> e \<in>
     {E_CorruptMessage, E_UnknownTopicOrPartition, E_LeaderNotAvailable,
      E_NotLeaderOrFollower, E_RequestTimedOut, E_NetworkException,
      E_CoordinatorLoadInProgress, E_CoordinatorNotAvailable, E_NotCoordinator,
      E_NotEnoughReplicas, E_NotEnoughReplicasAfterAppend, E_NotController,
      E_ConcurrentTransactions, E_KafkaStorageError, E_FencedLeaderEpoch,
      E_UnknownLeaderEpoch, E_OffsetNotAvailable, E_UnstableOffsetCommit,
      E_UnknownTopicId}"

fun error_code_of_codec_error :: "codec_error \<Rightarrow> error_code" where
  "error_code_of_codec_error (UnsupportedVersion k v) = E_UnsupportedVersion"
| "error_code_of_codec_error (UnknownApiKey k) = E_UnsupportedVersion"
| "error_code_of_codec_error (Truncated n a) = E_InvalidRequest"
| "error_code_of_codec_error (InvalidLength n) = E_InvalidRequest"
| "error_code_of_codec_error (UnexpectedNull f) = E_InvalidRequest"
| "error_code_of_codec_error InvalidUtf8 = E_InvalidRequest"
| "error_code_of_codec_error (TagOutOfOrder p t) = E_InvalidRequest"
| "error_code_of_codec_error MalformedVarint = E_InvalidRequest"

text \<open>No codec failure is ever reported to a client as retriable: resending the same bytes
  fails the same way.\<close>

lemma codec_error_terminal: "\<not> is_retriable (error_code_of_codec_error e)"
  by (cases e) (simp_all add: is_retriable_def)

end
