(* ===== verification/Primitives.thy ===== *)
theory Primitives
  imports Errors
begin

text \<open>
  The wire primitives of \<open>src/codec/src/primitives.rs\<close>: fixed-width integers, unsigned LEB128
  varints, and the two encodings (legacy and compact) of every length prefix, string, byte
  string and array. A \<open>get_*\<close> consumes the front of the buffer; a \<open>put_*\<close> appends to it; a
  \<open>*_size\<close> predicts what the \<open>put_*\<close> appends. Rust's \<open>String\<close> is the byte list of its UTF-8
  form, and \<open>utf8_valid\<close> is what \<open>String::from_utf8\<close> accepts. \<open>f64\<close> is its bit pattern.
\<close>

subsection \<open>Reading\<close>

record raw_tagged_field =
  tag :: u32
  data :: bytes

definition MAX_LENGTH :: int where
  "MAX_LENGTH = 100 * 1024 * 1024"

definition need :: "nat \<Rightarrow> bytes \<Rightarrow> codec_error + (unit \<times> bytes)" where
  "need n buf = (if length buf < n then Inl (Truncated n (length buf)) else Inr ((), buf))"

definition take_bytes :: "nat \<Rightarrow> bytes \<Rightarrow> codec_error + (bytes \<times> bytes)" where
  "take_bytes n = pbind (need n) (\<lambda>_ buf. Inr (take n buf, drop n buf))"

definition read_prim :: "nat \<Rightarrow> bytes \<Rightarrow> codec_error + ('a::len word \<times> bytes)" where
  "read_prim n = pbind (need n) (\<lambda>_ buf. Inr (from_be (take n buf), drop n buf))"

definition get_i8 :: "bytes \<Rightarrow> codec_error + (i8 \<times> bytes)" where
  "get_i8 = read_prim 1"

definition get_i16 :: "bytes \<Rightarrow> codec_error + (i16 \<times> bytes)" where
  "get_i16 = read_prim 2"

definition get_i32 :: "bytes \<Rightarrow> codec_error + (i32 \<times> bytes)" where
  "get_i32 = read_prim 4"

definition get_i64 :: "bytes \<Rightarrow> codec_error + (i64 \<times> bytes)" where
  "get_i64 = read_prim 8"

definition get_u16 :: "bytes \<Rightarrow> codec_error + (u16 \<times> bytes)" where
  "get_u16 = read_prim 2"

definition get_u32 :: "bytes \<Rightarrow> codec_error + (u32 \<times> bytes)" where
  "get_u32 = read_prim 4"

definition get_f64 :: "bytes \<Rightarrow> codec_error + (u64 \<times> bytes)" where
  "get_f64 = read_prim 8"

definition get_bool :: "bytes \<Rightarrow> codec_error + (bool \<times> bytes)" where
  "get_bool = pbind get_i8 (\<lambda>b. preturn (b \<noteq> 0))"

definition get_uuid :: "bytes \<Rightarrow> codec_error + (bytes \<times> bytes)" where
  "get_uuid = pbind (need 16) (\<lambda>_ buf. Inr (take 16 buf, drop 16 buf))"

text \<open>The \<open>for i in 0..5\<close> loop of \<open>get_uvarint\<close>, over the indices still to come.\<close>

fun get_uvarint_from :: "nat list \<Rightarrow> u32 \<Rightarrow> bytes \<Rightarrow> codec_error + (u32 \<times> bytes)" where
  "get_uvarint_from [] value = pfail MalformedVarint"
| "get_uvarint_from (i # is) value = pbind get_i8 (\<lambda>b.
     let value' = value OR push_bit (7 * i) (ucast (b AND 0x7f))
     in if b AND 0x80 = 0 then preturn value' else get_uvarint_from is value')"

definition get_uvarint :: "bytes \<Rightarrow> codec_error + (u32 \<times> bytes)" where
  "get_uvarint = get_uvarint_from [0..<5] 0"

text \<open>\<open>raw\<close> is the \<open>i64\<close> the prefix widens to; \<open>None\<close> is a null.\<close>

definition checked_len :: "int \<Rightarrow> bytes \<Rightarrow> codec_error + (nat option \<times> bytes)" where
  "checked_len raw =
     (if raw < 0 then preturn None
      else if raw > MAX_LENGTH then pfail (InvalidLength raw)
      else preturn (Some (nat raw)))"

definition get_len :: "bool \<Rightarrow> bool \<Rightarrow> bytes \<Rightarrow> codec_error + (nat option \<times> bytes)" where
  "get_len flexible wide =
     (if flexible then pbind get_uvarint (\<lambda>v.
        if v = 0 then preturn None else checked_len (uint (v - 1)))
      else if wide then pbind get_i32 (\<lambda>v. checked_len (sint v))
      else pbind get_i16 (\<lambda>v. checked_len (sint v)))"

text \<open>\<open>String::from_utf8\<close>: the well-formed UTF-8 byte sequences of the Unicode standard.\<close>

definition utf8_cont :: "u8 \<Rightarrow> bool" where
  "utf8_cont b \<longleftrightarrow> 0x80 \<le> b \<and> b \<le> 0xBF"

fun utf8_valid :: "bytes \<Rightarrow> bool" where
  "utf8_valid [] = True"
| "utf8_valid (a # bs) =
     (if a < 0x80 then utf8_valid bs
      else if 0xC2 \<le> a \<and> a \<le> 0xDF then
        (case bs of b # bs' \<Rightarrow> utf8_cont b \<and> utf8_valid bs' | _ \<Rightarrow> False)
      else if 0xE0 \<le> a \<and> a \<le> 0xEF then
        (case bs of b # c # bs' \<Rightarrow>
            (if a = 0xE0 then 0xA0 \<le> b \<and> b \<le> 0xBF
             else if a = 0xED then 0x80 \<le> b \<and> b \<le> 0x9F
             else utf8_cont b) \<and> utf8_cont c \<and> utf8_valid bs'
         | _ \<Rightarrow> False)
      else if 0xF0 \<le> a \<and> a \<le> 0xF4 then
        (case bs of b # c # d # bs' \<Rightarrow>
            (if a = 0xF0 then 0x90 \<le> b \<and> b \<le> 0xBF
             else if a = 0xF4 then 0x80 \<le> b \<and> b \<le> 0x8F
             else utf8_cont b) \<and> utf8_cont c \<and> utf8_cont d \<and> utf8_valid bs'
         | _ \<Rightarrow> False)
      else False)"

definition get_nullable_string :: "bool \<Rightarrow> bytes \<Rightarrow> codec_error + (bytes option \<times> bytes)" where
  "get_nullable_string flexible = pbind (get_len flexible False) (\<lambda>len.
     case len of
       None \<Rightarrow> preturn None
     | Some n \<Rightarrow> pbind (take_bytes n) (\<lambda>raw.
         if utf8_valid raw then preturn (Some raw) else pfail InvalidUtf8))"

definition get_string :: "bool \<Rightarrow> bytes \<Rightarrow> codec_error + (bytes \<times> bytes)" where
  "get_string flexible = pbind (get_nullable_string flexible) (\<lambda>s.
     case s of Some s \<Rightarrow> preturn s | None \<Rightarrow> pfail (UnexpectedNull ''string''))"

definition get_nullable_bytes :: "bool \<Rightarrow> bytes \<Rightarrow> codec_error + (bytes option \<times> bytes)" where
  "get_nullable_bytes flexible = pbind (get_len flexible True) (\<lambda>len.
     case len of
       None \<Rightarrow> preturn None
     | Some n \<Rightarrow> pbind (take_bytes n) (\<lambda>b. preturn (Some b)))"

definition get_bytes :: "bool \<Rightarrow> bytes \<Rightarrow> codec_error + (bytes \<times> bytes)" where
  "get_bytes flexible = pbind (get_nullable_bytes flexible) (\<lambda>s.
     case s of Some b \<Rightarrow> preturn b | None \<Rightarrow> pfail (UnexpectedNull ''bytes''))"

definition get_array_len :: "bool \<Rightarrow> bytes \<Rightarrow> codec_error + (nat option \<times> bytes)" where
  "get_array_len flexible = get_len flexible True"

subsection \<open>Writing\<close>

definition put_i8 :: "bytes \<Rightarrow> i8 \<Rightarrow> bytes" where
  "put_i8 buf v = buf @ be_bytes 1 v"

definition put_bool :: "bytes \<Rightarrow> bool \<Rightarrow> bytes" where
  "put_bool buf v = put_i8 buf (if v then 1 else 0)"

definition put_i16 :: "bytes \<Rightarrow> i16 \<Rightarrow> bytes" where
  "put_i16 buf v = buf @ be_bytes 2 v"

definition put_i32 :: "bytes \<Rightarrow> i32 \<Rightarrow> bytes" where
  "put_i32 buf v = buf @ be_bytes 4 v"

definition put_i64 :: "bytes \<Rightarrow> i64 \<Rightarrow> bytes" where
  "put_i64 buf v = buf @ be_bytes 8 v"

definition put_u16 :: "bytes \<Rightarrow> u16 \<Rightarrow> bytes" where
  "put_u16 buf v = buf @ be_bytes 2 v"

definition put_u32 :: "bytes \<Rightarrow> u32 \<Rightarrow> bytes" where
  "put_u32 buf v = buf @ be_bytes 4 v"

definition put_f64 :: "bytes \<Rightarrow> u64 \<Rightarrow> bytes" where
  "put_f64 buf v = buf @ be_bytes 8 v"

definition put_uuid :: "bytes \<Rightarrow> bytes \<Rightarrow> bytes" where
  "put_uuid buf v = buf @ v"

function put_uvarint :: "bytes \<Rightarrow> u32 \<Rightarrow> bytes" where
  "put_uvarint buf v =
     (if v < 0x80 then buf @ [ucast v]
      else put_uvarint (buf @ [ucast ((v AND 0x7f) OR 0x80)]) (drop_bit 7 v))"
  by pat_completeness auto
termination
  by (relation "measure (\<lambda>(buf, v). unat v)")
    (auto simp: unat_drop_7 word_less_nat_alt)

declare put_uvarint.simps [simp del]

text \<open>The \<open>while v >= 0x80\<close> loop of \<open>uvarint_size\<close>, \<open>n\<close> its counter.\<close>

function uvarint_size_from :: "nat \<Rightarrow> u32 \<Rightarrow> nat" where
  "uvarint_size_from n v = (if v \<ge> 0x80 then uvarint_size_from (n + 1) (drop_bit 7 v) else n)"
  by pat_completeness auto
termination
  by (relation "measure (\<lambda>(n, v). unat v)")
    (auto simp: unat_drop_7 word_le_nat_alt)

declare uvarint_size_from.simps [simp del]

definition uvarint_size :: "u32 \<Rightarrow> nat" where
  "uvarint_size v = uvarint_size_from 1 v"

definition put_len :: "bytes \<Rightarrow> nat \<Rightarrow> bool \<Rightarrow> bool \<Rightarrow> codec_error + bytes" where
  "put_len buf len flexible wide =
     (if int len > MAX_LENGTH then Inl (InvalidLength (int len))
      else if flexible then Inr (put_uvarint buf (word_of_nat len + 1))
      else if wide then Inr (put_i32 buf (word_of_nat len))
      else if len > 32767 then Inl (InvalidLength (int len))
      else Inr (put_i16 buf (word_of_nat len)))"

definition len_size :: "nat \<Rightarrow> bool \<Rightarrow> bool \<Rightarrow> nat" where
  "len_size len flexible wide =
     (if flexible then uvarint_size (word_of_nat len + 1) else if wide then 4 else 2)"

definition null_len_size :: "bool \<Rightarrow> bool \<Rightarrow> nat" where
  "null_len_size flexible wide = (if flexible then 1 else if wide then 4 else 2)"

definition put_null_len :: "bytes \<Rightarrow> bool \<Rightarrow> bool \<Rightarrow> bytes" where
  "put_null_len buf flexible wide =
     (if flexible then put_uvarint buf 0
      else if wide then put_i32 buf (-1)
      else put_i16 buf (-1))"

definition put_string :: "bytes \<Rightarrow> bytes \<Rightarrow> bool \<Rightarrow> codec_error + bytes" where
  "put_string buf v flexible =
     rbind (put_len buf (length v) flexible False) (\<lambda>buf. Inr (buf @ v))"

definition put_nullable_string :: "bytes \<Rightarrow> bytes option \<Rightarrow> bool \<Rightarrow> codec_error + bytes" where
  "put_nullable_string buf v flexible =
     (case v of None \<Rightarrow> Inr (put_null_len buf flexible False)
      | Some s \<Rightarrow> put_string buf s flexible)"

definition put_bytes :: "bytes \<Rightarrow> bytes \<Rightarrow> bool \<Rightarrow> codec_error + bytes" where
  "put_bytes buf v flexible =
     rbind (put_len buf (length v) flexible True) (\<lambda>buf. Inr (buf @ v))"

definition put_nullable_bytes :: "bytes \<Rightarrow> bytes option \<Rightarrow> bool \<Rightarrow> codec_error + bytes" where
  "put_nullable_bytes buf v flexible =
     (case v of None \<Rightarrow> Inr (put_null_len buf flexible True)
      | Some b \<Rightarrow> put_bytes buf b flexible)"

definition put_array_len :: "bytes \<Rightarrow> nat \<Rightarrow> bool \<Rightarrow> codec_error + bytes" where
  "put_array_len buf len flexible = put_len buf len flexible True"

definition put_null_array :: "bytes \<Rightarrow> bool \<Rightarrow> bytes" where
  "put_null_array buf flexible = put_null_len buf flexible True"

definition string_size :: "bytes \<Rightarrow> bool \<Rightarrow> nat" where
  "string_size v flexible = len_size (length v) flexible False + length v"

definition nullable_string_size :: "bytes option \<Rightarrow> bool \<Rightarrow> nat" where
  "nullable_string_size v flexible =
     (case v of None \<Rightarrow> null_len_size flexible False | Some s \<Rightarrow> string_size s flexible)"

definition bytes_size :: "bytes \<Rightarrow> bool \<Rightarrow> nat" where
  "bytes_size v flexible = len_size (length v) flexible True + length v"

definition nullable_bytes_size :: "bytes option \<Rightarrow> bool \<Rightarrow> nat" where
  "nullable_bytes_size v flexible =
     (case v of None \<Rightarrow> null_len_size flexible True | Some b \<Rightarrow> bytes_size b flexible)"

definition array_len_size :: "nat \<Rightarrow> bool \<Rightarrow> nat" where
  "array_len_size len flexible = len_size len flexible True"

definition null_array_size :: "bool \<Rightarrow> nat" where
  "null_array_size flexible = null_len_size flexible True"

subsection \<open>Fixed-width integers\<close>

lemma read_prim_append:
  "8 * n = LENGTH('a) \<Longrightarrow> read_prim n (be_bytes n w @ rest) = Inr (w :: 'a::len word, rest)"
  by (simp add: read_prim_def pbind_def need_def)

lemma read_prim_short: "length buf < n \<Longrightarrow> read_prim n buf = Inl (Truncated n (length buf))"
  by (simp add: read_prim_def pbind_def need_def)

lemma get_i8_Cons [simp]: "get_i8 (b # rest) = Inr (b, rest)"
  by (simp add: get_i8_def read_prim_def pbind_def need_def from_be_def)

lemma get_i8_Nil [simp]: "get_i8 [] = Inl (Truncated 1 0)"
  by (simp add: get_i8_def read_prim_short)

lemma take_bytes_append [simp]: "length w = n \<Longrightarrow> take_bytes n (w @ rest) = Inr (w, rest)"
  by (simp add: take_bytes_def pbind_def need_def)

subsection \<open>Varints\<close>

lemma put_uvarint_leb: "put_uvarint buf v = buf @ leb128 (unat v)"
proof (induction buf v rule: put_uvarint.induct)
  case (1 buf v)
  show ?case
  proof (cases "v < 0x80")
    case True
    then have "ucast v = (word_of_nat (unat v) :: u8)" and "unat v < 128"
      by (simp_all add: word_less_nat_alt)
    with True show ?thesis by (simp add: put_uvarint.simps [of buf v] leb128.simps)
  next
    case False
    then have ge: "\<not> unat v < 128" by (simp add: word_less_nat_alt)
    with False "1.IH" show ?thesis
      by (simp add: put_uvarint.simps [of buf v] leb128.simps [of "unat v"] unat_drop_7
        leb_cont_masked)
  qed
qed

lemma uvarint_size_from_leb: "uvarint_size_from n v + 1 = n + length (leb128 (unat v))"
proof (induction n v rule: uvarint_size_from.induct)
  case (1 n v)
  show ?case
  proof (cases "v \<ge> 0x80")
    case True
    then have "\<not> unat v < 128" by (simp add: word_le_nat_alt)
    with True "1.IH" show ?thesis
      by (simp add: uvarint_size_from.simps [of n v] leb128.simps [of "unat v"] unat_drop_7)
  next
    case False
    then have "unat v < 128" by (simp add: word_le_nat_alt)
    with False show ?thesis by (simp add: uvarint_size_from.simps leb128.simps)
  qed
qed

lemma uvarint_size_leb: "uvarint_size v = length (leb128 (unat v))"
  using uvarint_size_from_leb [of 1 v] by (simp add: uvarint_size_def)

lemma get_uvarint_from_leb:
  "length (leb128 n) \<le> k \<Longrightarrow>
   get_uvarint_from [i..<i + k] value (leb128 n @ rest) = Inr (value OR push_bit (7 * i) (word_of_nat n), rest)"
proof (induction n arbitrary: i k "value" rule: leb128.induct)
  case (1 n)
  then obtain j where k: "k = Suc j"
    using leb128_length_pos [of n] by (cases k) auto
  then have idx: "[i..<i + k] = i # [Suc i..<Suc i + j]"
    by (simp add: upt_rec)
  show ?case
  proof (cases "n < 128")
    case True
    then show ?thesis
      by (simp add: idx leb128.simps [of n] leb_bytes ucast_word_of_nat_8 preturn_def)
  next
    case False
    have len: "length (leb128 (n div 128)) \<le> j"
      using "1.prems" False k by (simp add: leb128.simps [of n])
    have lo: "n mod 128 < 128" by simp
    have "get_uvarint_from [i..<i + k] value (leb128 n @ rest) =
       get_uvarint_from [Suc i..<Suc i + j]
         (value OR push_bit (7 * i) (word_of_nat (n mod 128))) (leb128 (n div 128) @ rest)"
      using False by (simp add: idx leb128.simps [of n] leb_bytes [OF lo] ucast_word_of_nat_8 Let_def)
    also have "\<dots> = Inr ((value OR push_bit (7 * i) (word_of_nat (n mod 128)))
         OR push_bit (7 * Suc i) (word_of_nat (n div 128)), rest)"
      using "1.IH" [OF False len] .
    also have "\<dots> = Inr (value OR push_bit (7 * i) (word_of_nat n), rest)"
      by (subst word_of_nat_leb_step [of n]) (simp add: push_bit_or or.assoc add.commute)
    finally show ?thesis .
  qed
qed

lemma get_uvarint_leb:
  "n < 2 ^ 35 \<Longrightarrow> get_uvarint (leb128 n @ rest) = Inr (word_of_nat n, rest)"
  using get_uvarint_from_leb [of n 5 0 0 rest] leb128_length [of n 5]
  by (simp add: get_uvarint_def)

lemma get_put_uvarint [simp]: "get_uvarint (leb128 (unat v) @ rest) = Inr (v, rest)" for v :: u32
  using get_uvarint_leb [of "unat v" rest] unsigned_less [where 'a = nat, of v] by simp

lemma get_uvarint_from_consumes:
  "get_uvarint_from is value buf = Inr (v, rest) \<Longrightarrow>
     \<exists>w. buf = w @ rest \<and> 0 < length w \<and> length w \<le> length is"
proof (induction "is" arbitrary: "value" buf)
  case Nil
  then show ?case by (simp add: pfail_def)
next
  case (Cons i "is")
  then obtain b buf' where buf: "buf = b # buf'"
    by (cases buf) (auto simp: pbind_def)
  show ?case
  proof (cases "b AND 0x80 = 0")
    case True
    with Cons.prems buf show ?thesis
      by (auto simp: Let_def preturn_def intro: exI [of _ "[b]"])
  next
    case False
    with Cons.prems buf obtain w where "buf' = w @ rest" "0 < length w" "length w \<le> length is"
      using Cons.IH by (auto simp: Let_def)
    with buf show ?thesis by (auto intro: exI [of _ "b # w"])
  qed
qed

lemma get_uvarint_from_errors:
  "get_uvarint_from is value buf = Inl e \<Longrightarrow> e = Truncated 1 0 \<or> e = MalformedVarint"
proof (induction "is" arbitrary: "value" buf)
  case Nil
  then show ?case by (simp add: pfail_def)
next
  case (Cons i "is")
  then show ?case
    by (cases buf) (auto simp: pbind_def Let_def preturn_def split: if_splits)
qed

subsection \<open>The contract of a wire codec\<close>

text \<open>What a writer, its reader and its size function promise one another: on a value the wire
  form admits, the writer appends a fixed run of bytes, exactly as many as the size function
  says, and the reader recovers the value from them, leaving what follows.\<close>

locale wire_codec =
  fixes ok :: "'a \<Rightarrow> bool"
    and put :: "bytes \<Rightarrow> 'a \<Rightarrow> codec_error + bytes"
    and get :: "bytes \<Rightarrow> codec_error + ('a \<times> bytes)"
    and size_of :: "'a \<Rightarrow> nat"
  assumes law: "ok x \<Longrightarrow> \<exists>w. (\<forall>buf. put buf x = Inr (buf @ w)) \<and> length w = size_of x
     \<and> (\<forall>rest. get (w @ rest) = Inr (x, rest))"
begin

lemma encode_decode:
  assumes "ok x" and "put buf x = Inr out"
  shows "take (length buf) out = buf \<and> length out = length buf + size_of x
     \<and> get (drop (length buf) out @ rest) = Inr (x, rest)"
  using law [OF assms(1)] assms(2) by auto

lemma encode_succeeds: "ok x \<Longrightarrow> \<exists>out. put buf x = Inr out"
  using law by blast

lemma encode_prefix_free:
  assumes "ok x" and "ok y" and "put [] x = Inr v" and "put [] y = Inr (v @ z)"
  shows "x = y"
proof -
  from law [OF assms(1)] assms(3) have "get (v @ z) = Inr (x, z)" by auto
  moreover from law [OF assms(2)] assms(4) have "\<forall>rest. get (v @ z @ rest) = Inr (y, rest)"
    by auto
  then have "get (v @ z) = Inr (y, [])"
    by (metis append_Nil2)
  ultimately show ?thesis by simp
qed

end

lemma len_word_simps:
  assumes "int n \<le> MAX_LENGTH"
  shows "uint (word_of_nat n :: u32) = int n" and "sint (word_of_nat n :: i32) = int n"
    and "unat (word_of_nat n + 1 :: u32) = n + 1" and "(word_of_nat n + 1 :: u32) \<noteq> 0"
proof -
  have n: "n < 2 ^ 31" using assms by (simp add: MAX_LENGTH_def)
  show "uint (word_of_nat n :: u32) = int n"
    using n by (simp add: unsigned_of_nat take_bit_nat_eq_self)
  show "sint (word_of_nat n :: i32) = int n"
    using n by (simp add: signed_of_nat signed_take_bit_int_eq_self)
  show u: "unat (word_of_nat n + 1 :: u32) = n + 1"
    using n by (simp add: unat_word_ariths unsigned_of_nat take_bit_nat_eq_self)
  show "(word_of_nat n + 1 :: u32) \<noteq> 0"
    using u by (metis Suc_eq_plus1 nat.distinct(1) unsigned_0)
qed

lemma sint_short: "n \<le> 32767 \<Longrightarrow> sint (word_of_nat n :: i16) = int n"
  by (simp add: signed_of_nat signed_take_bit_int_eq_self)

definition len_ok :: "bool \<Rightarrow> bool \<Rightarrow> nat \<Rightarrow> bool" where
  "len_ok flexible wide n \<longleftrightarrow> int n \<le> MAX_LENGTH \<and> (flexible \<or> wide \<or> n \<le> 32767)"

lemma put_len_law:
  assumes "len_ok flexible wide n"
  shows "\<exists>w. (\<forall>buf. put_len buf n flexible wide = Inr (buf @ w))
     \<and> length w = len_size n flexible wide
     \<and> (\<forall>rest. get_len flexible wide (w @ rest) = Inr (Some n, rest))"
proof -
  from assms have n: "int n \<le> MAX_LENGTH" by (simp add: len_ok_def)
  consider "flexible" | "\<not> flexible" "wide" | "\<not> flexible" "\<not> wide" "n \<le> 32767"
    using assms by (auto simp: len_ok_def)
  then show ?thesis
  proof cases
    case 1
    define v where "v = (word_of_nat n + 1 :: u32)"
    have "v \<noteq> 0" and "uint (v - 1) = int n"
      using n by (simp_all add: v_def len_word_simps)
    with 1 n show ?thesis
      by (auto simp: put_len_def get_len_def len_size_def put_uvarint_leb uvarint_size_leb
          checked_len_def preturn_def simp flip: v_def intro!: exI [of _ "leb128 (unat v)"])
  next
    case 2
    with n show ?thesis
      by (auto simp: put_len_def get_len_def len_size_def put_i32_def get_i32_def read_prim_append
          checked_len_def preturn_def len_word_simps intro!: exI [of _ "be_bytes 4 (word_of_nat n :: i32)"])
  next
    case 3
    with n show ?thesis
      by (auto simp: put_len_def get_len_def len_size_def put_i16_def get_i16_def read_prim_append
          checked_len_def preturn_def sint_short intro!: exI [of _ "be_bytes 2 (word_of_nat n :: i16)"])
  qed
qed

lemma put_null_len_law:
  "\<exists>w. (\<forall>buf. put_null_len buf flexible wide = buf @ w)
     \<and> length w = null_len_size flexible wide
     \<and> (\<forall>rest. get_len flexible wide (w @ rest) = Inr (None, rest))"
proof -
  have zero: "leb128 0 = [0]" by (simp add: leb128.simps)
  have "get_uvarint ([0] @ rest) = Inr (0, rest)" for rest
    using get_put_uvarint [of 0 rest] by (simp add: zero)
  then show ?thesis
    by (cases flexible; cases wide)
      (auto simp: put_null_len_def null_len_size_def get_len_def put_uvarint_leb zero
        put_i32_def put_i16_def get_i32_def get_i16_def read_prim_append checked_len_def preturn_def)
qed

text \<open>The two string-like types share one law, in the encoding's length width.\<close>

lemma nullable_field_law:
  assumes ok: "case v of None \<Rightarrow> True | Some b \<Rightarrow> len_ok flexible wide (length b)"
  shows "\<exists>w. (\<forall>buf. (case v of None \<Rightarrow> Inr (put_null_len buf flexible wide)
               | Some b \<Rightarrow> rbind (put_len buf (length b) flexible wide) (\<lambda>buf. Inr (buf @ b)))
             = Inr (buf @ w))
     \<and> length w = (case v of None \<Rightarrow> null_len_size flexible wide
                   | Some b \<Rightarrow> len_size (length b) flexible wide + length b)
     \<and> (\<forall>rest. pbind (get_len flexible wide) (\<lambda>len. case len of None \<Rightarrow> preturn None
               | Some n \<Rightarrow> pbind (take_bytes n) (\<lambda>b. preturn (Some b))) (w @ rest)
             = (Inr (v, rest) :: codec_error + _))"
proof (cases v)
  case None
  then show ?thesis
    using put_null_len_law [of flexible wide] by (auto simp: preturn_def)
next
  case (Some b)
  with ok have "len_ok flexible wide (length b)" by simp
  with put_len_law obtain w where
    "\<forall>buf. put_len buf (length b) flexible wide = Inr (buf @ w)"
    "length w = len_size (length b) flexible wide"
    "\<forall>rest. get_len flexible wide (w @ rest) = Inr (Some (length b), rest)"
    by blast
  with Some show ?thesis
    by (intro exI [of _ "w @ b"]) (simp add: preturn_def)
qed

lemma get_nullable_string_alt:
  "get_nullable_string flexible buf = rbind (pbind (get_len flexible False)
     (\<lambda>len. case len of None \<Rightarrow> preturn None
       | Some n \<Rightarrow> pbind (take_bytes n) (\<lambda>b. preturn (Some b))) buf)
     (\<lambda>(v, rest). case v of None \<Rightarrow> Inr (None, rest)
       | Some raw \<Rightarrow> if utf8_valid raw then Inr (Some raw, rest) else Inl InvalidUtf8)"
  by (auto simp: get_nullable_string_def pbind_def rbind_def preturn_def pfail_def
      split: sum.splits option.splits)

lemma put_string_alt:
  "put_nullable_string buf v flexible = (case v of None \<Rightarrow> Inr (put_null_len buf flexible False)
     | Some b \<Rightarrow> rbind (put_len buf (length b) flexible False) (\<lambda>buf. Inr (buf @ b)))"
  by (simp add: put_nullable_string_def put_string_def split: option.split)

definition nullable_string_ok :: "bool \<Rightarrow> bytes option \<Rightarrow> bool" where
  "nullable_string_ok flexible v \<longleftrightarrow>
     (case v of None \<Rightarrow> True | Some s \<Rightarrow> utf8_valid s \<and> len_ok flexible False (length s))"

definition nullable_bytes_ok :: "bytes option \<Rightarrow> bool" where
  "nullable_bytes_ok v \<longleftrightarrow> (case v of None \<Rightarrow> True | Some b \<Rightarrow> int (length b) \<le> MAX_LENGTH)"

interpretation nullable_string: wire_codec
  "nullable_string_ok flexible" "\<lambda>buf v. put_nullable_string buf v flexible"
  "get_nullable_string flexible" "\<lambda>v. nullable_string_size v flexible" for flexible
proof
  fix v :: "bytes option"
  assume ok: "nullable_string_ok flexible v"
  then have "case v of None \<Rightarrow> True | Some b \<Rightarrow> len_ok flexible False (length b)"
    by (simp add: nullable_string_ok_def split: option.splits)
  from nullable_field_law [OF this] ok
  show "\<exists>w. (\<forall>buf. put_nullable_string buf v flexible = Inr (buf @ w))
      \<and> length w = nullable_string_size v flexible
      \<and> (\<forall>rest. get_nullable_string flexible (w @ rest) = Inr (v, rest))"
    by (elim exE, intro exI)
      (auto simp: put_string_alt get_nullable_string_alt nullable_string_size_def string_size_def
        nullable_string_ok_def split: option.splits)
qed

interpretation nullable_bytes: wire_codec
  nullable_bytes_ok "\<lambda>buf v. put_nullable_bytes buf v flexible"
  "get_nullable_bytes flexible" "\<lambda>v. nullable_bytes_size v flexible" for flexible
proof
  fix v :: "bytes option"
  assume ok: "nullable_bytes_ok v"
  then have "case v of None \<Rightarrow> True | Some b \<Rightarrow> len_ok flexible True (length b)"
    by (simp add: nullable_bytes_ok_def len_ok_def split: option.splits)
  from nullable_field_law [OF this]
  show "\<exists>w. (\<forall>buf. put_nullable_bytes buf v flexible = Inr (buf @ w))
      \<and> length w = nullable_bytes_size v flexible
      \<and> (\<forall>rest. get_nullable_bytes flexible (w @ rest) = Inr (v, rest))"
    by (elim exE, intro exI)
      (auto simp: put_nullable_bytes_def put_bytes_def get_nullable_bytes_def
        nullable_bytes_size_def bytes_size_def split: option.splits)
qed

interpretation array_len: wire_codec
  "\<lambda>v. case v of None \<Rightarrow> True | Some n \<Rightarrow> int n \<le> MAX_LENGTH"
  "\<lambda>buf v. case v of None \<Rightarrow> Inr (put_null_array buf flexible)
     | Some n \<Rightarrow> put_array_len buf n flexible"
  "get_array_len flexible"
  "\<lambda>v. case v of None \<Rightarrow> null_array_size flexible | Some n \<Rightarrow> array_len_size n flexible" for flexible
proof
  fix v :: "nat option"
  assume ok: "case v of None \<Rightarrow> True | Some n \<Rightarrow> int n \<le> MAX_LENGTH"
  show "\<exists>w. (\<forall>buf. (case v of None \<Rightarrow> Inr (put_null_array buf flexible)
        | Some n \<Rightarrow> put_array_len buf n flexible) = Inr (buf @ w))
      \<and> length w = (case v of None \<Rightarrow> null_array_size flexible | Some n \<Rightarrow> array_len_size n flexible)
      \<and> (\<forall>rest. get_array_len flexible (w @ rest) = Inr (v, rest))"
    using put_null_len_law [of flexible True] put_len_law [of flexible True] ok
    by (cases v) (auto simp: put_null_array_def put_array_len_def null_array_size_def
        array_len_size_def get_array_len_def len_ok_def)
qed

end
