(* ===== verification/ApiTables.thy ===== *)
theory ApiTables
  imports Primitives
begin

text \<open>
  The API tables (\<open>src/codec/src/generated/apis.rs\<close>) and the version arithmetic over them
  (\<open>src/codec/src/lib.rs\<close>): which versions the schemas define, from which version an API's
  messages are flexible, and what the broker advertises.
\<close>

record version_range =
  vr_min :: i16
  vr_max :: i16

definition VR :: "i16 \<Rightarrow> i16 \<Rightarrow> version_range" where
  "VR lo hi = \<lparr>vr_min = lo, vr_max = hi\<rparr>"

definition vr_contains :: "version_range \<Rightarrow> i16 \<Rightarrow> bool" where
  "vr_contains r v \<longleftrightarrow> sint v \<ge> sint (vr_min r) \<and> sint v \<le> sint (vr_max r)"

record api_version_range =
  av_api_key :: i16
  av_min_version :: i16
  av_max_version :: i16

definition AV :: "i16 \<Rightarrow> i16 \<Rightarrow> i16 \<Rightarrow> api_version_range" where
  "AV k lo hi = \<lparr>av_api_key = k, av_min_version = lo, av_max_version = hi\<rparr>"

record api_spec =
  as_key :: i16
  as_name :: string
  as_valid :: version_range
  as_flexible :: version_range
  as_latest_version_unstable :: bool

definition AS :: "i16 \<Rightarrow> string \<Rightarrow> version_range \<Rightarrow> version_range \<Rightarrow> bool \<Rightarrow> api_spec" where
  "AS k name valid flexible unstable = \<lparr>as_key = k, as_name = name, as_valid = valid,
     as_flexible = flexible, as_latest_version_unstable = unstable\<rparr>"

definition spec_is_flexible :: "api_spec \<Rightarrow> i16 \<Rightarrow> bool" where
  "spec_is_flexible s v = vr_contains (as_flexible s) v"

definition SCHEMA_APIS :: "api_spec list" where
  "SCHEMA_APIS = [
     AS 0 ''Produce'' (VR 3 13) (VR 9 32767) False,
     AS 1 ''Fetch'' (VR 4 18) (VR 12 32767) False,
     AS 2 ''ListOffsets'' (VR 1 11) (VR 6 32767) False,
     AS 3 ''Metadata'' (VR 0 13) (VR 9 32767) False,
     AS 8 ''OffsetCommit'' (VR 2 10) (VR 8 32767) False,
     AS 9 ''OffsetFetch'' (VR 1 10) (VR 6 32767) False,
     AS 10 ''FindCoordinator'' (VR 0 6) (VR 3 32767) False,
     AS 11 ''JoinGroup'' (VR 0 9) (VR 6 32767) False,
     AS 12 ''Heartbeat'' (VR 0 4) (VR 4 32767) False,
     AS 13 ''LeaveGroup'' (VR 0 5) (VR 4 32767) False,
     AS 14 ''SyncGroup'' (VR 0 5) (VR 4 32767) False,
     AS 15 ''DescribeGroups'' (VR 0 6) (VR 5 32767) False,
     AS 16 ''ListGroups'' (VR 0 5) (VR 3 32767) False,
     AS 17 ''SaslHandshake'' (VR 0 1) (VR 0 (-1)) False,
     AS 18 ''ApiVersions'' (VR 0 4) (VR 3 32767) False,
     AS 19 ''CreateTopics'' (VR 2 7) (VR 5 32767) False,
     AS 20 ''DeleteTopics'' (VR 1 6) (VR 4 32767) False,
     AS 21 ''DeleteRecords'' (VR 0 2) (VR 2 32767) False,
     AS 22 ''InitProducerId'' (VR 0 6) (VR 2 32767) True,
     AS 23 ''OffsetForLeaderEpoch'' (VR 2 4) (VR 4 32767) False,
     AS 24 ''AddPartitionsToTxn'' (VR 0 5) (VR 3 32767) False,
     AS 25 ''AddOffsetsToTxn'' (VR 0 4) (VR 3 32767) False,
     AS 26 ''EndTxn'' (VR 0 5) (VR 3 32767) False,
     AS 27 ''WriteTxnMarkers'' (VR 1 2) (VR 1 32767) False,
     AS 28 ''TxnOffsetCommit'' (VR 0 5) (VR 3 32767) False,
     AS 29 ''DescribeAcls'' (VR 1 3) (VR 2 32767) False,
     AS 30 ''CreateAcls'' (VR 1 3) (VR 2 32767) False,
     AS 31 ''DeleteAcls'' (VR 1 3) (VR 2 32767) False,
     AS 32 ''DescribeConfigs'' (VR 1 4) (VR 4 32767) False,
     AS 33 ''AlterConfigs'' (VR 0 2) (VR 2 32767) False,
     AS 34 ''AlterReplicaLogDirs'' (VR 1 2) (VR 2 32767) False,
     AS 35 ''DescribeLogDirs'' (VR 1 5) (VR 2 32767) False,
     AS 36 ''SaslAuthenticate'' (VR 0 2) (VR 2 32767) False,
     AS 37 ''CreatePartitions'' (VR 0 3) (VR 2 32767) False,
     AS 38 ''CreateDelegationToken'' (VR 1 3) (VR 2 32767) False,
     AS 39 ''RenewDelegationToken'' (VR 1 2) (VR 2 32767) False,
     AS 40 ''ExpireDelegationToken'' (VR 1 2) (VR 2 32767) False,
     AS 41 ''DescribeDelegationToken'' (VR 1 3) (VR 2 32767) False,
     AS 42 ''DeleteGroups'' (VR 0 2) (VR 2 32767) False,
     AS 43 ''ElectLeaders'' (VR 0 2) (VR 2 32767) False,
     AS 44 ''IncrementalAlterConfigs'' (VR 0 1) (VR 1 32767) False,
     AS 45 ''AlterPartitionReassignments'' (VR 0 1) (VR 0 32767) False,
     AS 46 ''ListPartitionReassignments'' (VR 0 0) (VR 0 32767) False,
     AS 47 ''OffsetDelete'' (VR 0 0) (VR 0 (-1)) False,
     AS 48 ''DescribeClientQuotas'' (VR 0 1) (VR 1 32767) False,
     AS 49 ''AlterClientQuotas'' (VR 0 1) (VR 1 32767) False,
     AS 50 ''DescribeUserScramCredentials'' (VR 0 0) (VR 0 32767) False,
     AS 51 ''AlterUserScramCredentials'' (VR 0 0) (VR 0 32767) False,
     AS 52 ''Vote'' (VR 0 2) (VR 0 32767) False,
     AS 53 ''BeginQuorumEpoch'' (VR 0 1) (VR 1 32767) False,
     AS 54 ''EndQuorumEpoch'' (VR 0 1) (VR 1 32767) False,
     AS 55 ''DescribeQuorum'' (VR 0 2) (VR 0 32767) False,
     AS 56 ''AlterPartition'' (VR 2 3) (VR 0 32767) False,
     AS 57 ''UpdateFeatures'' (VR 0 2) (VR 0 32767) False,
     AS 58 ''Envelope'' (VR 0 0) (VR 0 32767) False,
     AS 59 ''FetchSnapshot'' (VR 0 1) (VR 0 32767) False,
     AS 60 ''DescribeCluster'' (VR 0 2) (VR 0 32767) False,
     AS 61 ''DescribeProducers'' (VR 0 0) (VR 0 32767) False,
     AS 62 ''BrokerRegistration'' (VR 0 4) (VR 0 32767) False,
     AS 63 ''BrokerHeartbeat'' (VR 0 2) (VR 0 32767) False,
     AS 64 ''UnregisterBroker'' (VR 0 0) (VR 0 32767) False,
     AS 65 ''DescribeTransactions'' (VR 0 0) (VR 0 32767) False,
     AS 66 ''ListTransactions'' (VR 0 2) (VR 0 32767) False,
     AS 67 ''AllocateProducerIds'' (VR 0 0) (VR 0 32767) False,
     AS 68 ''ConsumerGroupHeartbeat'' (VR 0 1) (VR 0 32767) False,
     AS 69 ''ConsumerGroupDescribe'' (VR 0 1) (VR 0 32767) False,
     AS 70 ''ControllerRegistration'' (VR 0 0) (VR 0 32767) False,
     AS 71 ''GetTelemetrySubscriptions'' (VR 0 0) (VR 0 32767) False,
     AS 72 ''PushTelemetry'' (VR 0 0) (VR 0 32767) False,
     AS 73 ''AssignReplicasToDirs'' (VR 0 0) (VR 0 32767) False,
     AS 74 ''ListConfigResources'' (VR 0 1) (VR 0 32767) False,
     AS 75 ''DescribeTopicPartitions'' (VR 0 0) (VR 0 32767) False,
     AS 76 ''ShareGroupHeartbeat'' (VR 1 1) (VR 0 32767) False,
     AS 77 ''ShareGroupDescribe'' (VR 1 1) (VR 0 32767) False,
     AS 78 ''ShareFetch'' (VR 1 2) (VR 0 32767) False,
     AS 79 ''ShareAcknowledge'' (VR 1 2) (VR 0 32767) False,
     AS 80 ''AddRaftVoter'' (VR 0 1) (VR 0 32767) False,
     AS 81 ''RemoveRaftVoter'' (VR 0 0) (VR 0 32767) False,
     AS 82 ''UpdateRaftVoter'' (VR 0 0) (VR 0 32767) False,
     AS 83 ''InitializeShareGroupState'' (VR 0 0) (VR 0 32767) False,
     AS 84 ''ReadShareGroupState'' (VR 0 0) (VR 0 32767) False,
     AS 85 ''WriteShareGroupState'' (VR 0 1) (VR 0 32767) False,
     AS 86 ''DeleteShareGroupState'' (VR 0 0) (VR 0 32767) False,
     AS 87 ''ReadShareGroupStateSummary'' (VR 0 1) (VR 0 32767) False,
     AS 88 ''StreamsGroupHeartbeat'' (VR 0 0) (VR 0 32767) False,
     AS 89 ''StreamsGroupDescribe'' (VR 0 0) (VR 0 32767) False,
     AS 90 ''DescribeShareGroupOffsets'' (VR 0 1) (VR 0 32767) False,
     AS 91 ''AlterShareGroupOffsets'' (VR 0 0) (VR 0 32767) False,
     AS 92 ''DeleteShareGroupOffsets'' (VR 0 0) (VR 0 32767) False]"

definition ADVERTISED :: "api_version_range list" where
  "ADVERTISED = [
     AV 0 0 13,
     AV 1 4 18,
     AV 2 1 11,
     AV 3 0 13,
     AV 8 2 10,
     AV 9 1 10,
     AV 10 0 6,
     AV 11 0 9,
     AV 12 0 4,
     AV 13 0 5,
     AV 14 0 5,
     AV 15 0 6,
     AV 16 0 5,
     AV 17 0 1,
     AV 18 0 4,
     AV 19 2 7,
     AV 20 1 6,
     AV 21 0 2,
     AV 22 0 5,
     AV 23 2 4,
     AV 24 0 5,
     AV 25 0 4,
     AV 26 0 5,
     AV 27 1 1,
     AV 28 0 5,
     AV 29 1 3,
     AV 30 1 3,
     AV 31 1 3,
     AV 32 1 4,
     AV 33 0 2,
     AV 34 1 2,
     AV 35 1 5,
     AV 36 0 2,
     AV 37 0 3,
     AV 38 1 3,
     AV 39 1 2,
     AV 40 1 2,
     AV 41 1 3,
     AV 42 0 2,
     AV 43 1 2,
     AV 44 0 1,
     AV 45 0 1,
     AV 46 0 0,
     AV 47 0 0,
     AV 48 0 1,
     AV 49 0 1,
     AV 50 0 0,
     AV 51 0 0,
     AV 55 0 2,
     AV 57 0 2,
     AV 60 0 2,
     AV 61 0 0,
     AV 64 0 0,
     AV 65 0 0,
     AV 66 0 2,
     AV 68 0 1,
     AV 69 0 1,
     AV 74 1 1,
     AV 75 0 0,
     AV 76 1 1,
     AV 77 1 1,
     AV 78 1 2,
     AV 79 1 2,
     AV 80 0 1,
     AV 81 0 0,
     AV 83 0 0,
     AV 84 0 0,
     AV 85 0 1,
     AV 86 0 0,
     AV 87 0 1,
     AV 88 0 0,
     AV 89 0 0,
     AV 90 0 1,
     AV 91 0 0,
     AV 92 0 0]"

definition api_lookup :: "i16 \<Rightarrow> api_spec option" where
  "api_lookup k = List.find (\<lambda>a. as_key a = k) SCHEMA_APIS"

text \<open>The tables' own consistency, checked by evaluation over every row.\<close>

lemma advertised_keys_distinct: "distinct (map av_api_key ADVERTISED)"
  by code_simp

lemma schema_keys_distinct: "distinct (map as_key SCHEMA_APIS)"
  by code_simp

lemma advertised_within_schema:
  "list_all (\<lambda>adv. case List.find (\<lambda>a. as_key a = av_api_key adv) SCHEMA_APIS of
      None \<Rightarrow> False
    | Some s \<Rightarrow> (sint (vr_min (as_valid s)) \<le> sint (av_min_version adv)
                  \<or> av_api_key adv = 0 \<and> vr_min (as_valid s) = 3)
               \<and> sint (av_max_version adv) \<le> sint (vr_max (as_valid s))) ADVERTISED"
  by code_simp

lemma advertised_stable:
  "list_all (\<lambda>adv. case List.find (\<lambda>a. as_key a = av_api_key adv) SCHEMA_APIS of
      None \<Rightarrow> False
    | Some s \<Rightarrow> as_latest_version_unstable s \<longrightarrow> sint (av_max_version adv) < sint (vr_max (as_valid s)))
    ADVERTISED"
  by code_simp

end
