(* ===== verification/Framing.thy ===== *)
theory Framing
  imports ApiTables
begin

text \<open>
  Framing and version negotiation (\<open>src/codec/src/framing.rs\<close>): one length-prefixed frame off
  the front of a connection's buffer, one frame onto the back of an output buffer, and the
  verdict on an inbound \<open>(api_key, api_version)\<close>.
\<close>

definition DEFAULT_MAX_REQUEST_BYTES :: nat where
  "DEFAULT_MAX_REQUEST_BYTES = 8 * 1024 * 1024"

datatype frame_error = Oversized int nat

definition take_frame :: "bytes \<Rightarrow> nat \<Rightarrow> frame_error + (bytes option \<times> bytes)" where
  "take_frame buf max_bytes =
     (if length buf < 4 then Inr (None, buf)
      else let declared = sint (from_be [buf ! 0, buf ! 1, buf ! 2, buf ! 3] :: i32) in
        if declared < 0 \<or> declared > int max_bytes then Inl (Oversized declared max_bytes)
        else let total = 4 + nat declared in
          if length buf < total then Inr (None, buf)
          else Inr (Some (drop 4 (take total buf)), drop total buf))"

definition write_frame :: "bytes \<Rightarrow> (bytes \<Rightarrow> codec_error + bytes) \<Rightarrow> codec_error + bytes" where
  "write_frame out encode_body =
     (let start = length out in
      rbind (encode_body (out @ [0, 0, 0, 0])) (\<lambda>out.
        let len = length out - start - 4 in
        if len > 2147483647 then Inl (InvalidLength (int len))
        else Inr (patch start (be_bytes 4 (word_of_nat len :: i32)) out)))"

datatype negotiation = Supported | ApiVersionsFallback | NegUnsupportedVersion | UnknownApi

definition API_VERSIONS_KEY :: i16 where
  "API_VERSIONS_KEY = 18"

definition negotiate :: "i16 \<Rightarrow> i16 \<Rightarrow> negotiation" where
  "negotiate api_key api_version =
     (let spec = List.find (\<lambda>a. as_key a = api_key) SCHEMA_APIS;
          known = (spec \<noteq> None);
          served = (case (spec, List.find (\<lambda>a. av_api_key a = api_key) ADVERTISED) of
              (Some spec, Some adv) \<Rightarrow>
                 sint api_version \<ge> sint (av_min_version adv)
                 \<and> sint api_version \<le> sint (av_max_version adv)
                 \<and> vr_contains (as_valid spec) api_version
            | _ \<Rightarrow> False)
      in if served then Supported
         else if api_key = API_VERSIONS_KEY then ApiVersionsFallback
         else if known then NegUnsupportedVersion
         else UnknownApi)"

fun negotiation_error_code :: "negotiation \<Rightarrow> error_code option" where
  "negotiation_error_code Supported = None"
| "negotiation_error_code ApiVersionsFallback = Some E_UnsupportedVersion"
| "negotiation_error_code NegUnsupportedVersion = Some E_UnsupportedVersion"
| "negotiation_error_code UnknownApi = Some E_UnsupportedVersion"

subsection \<open>Taking frames\<close>

lemma take_frame_prefix:
  "length w = 4 \<Longrightarrow> take_frame (w @ s) max_bytes =
     (let declared = sint (from_be w :: i32) in
      if declared < 0 \<or> declared > int max_bytes then Inl (Oversized declared max_bytes)
      else if length s < nat declared then Inr (None, w @ s)
      else Inr (Some (take (nat declared) s), drop (nat declared) s))"
proof -
  assume "length w = 4"
  then obtain a b c d where "w = [a, b, c, d]"
    by (auto simp: numeral_eq_Suc length_Suc_conv)
  then show ?thesis
    by (auto simp: take_frame_def Let_def eval_nat_numeral)
qed

lemma take_frame_header:
  assumes "take_frame buf max_bytes \<noteq> Inr (None, buf)"
  obtains w s where "buf = w @ s" and "length w = 4"
proof
  from assms have "4 \<le> length buf" by (auto simp: take_frame_def split: if_splits)
  then show "buf = take 4 buf @ drop 4 buf" and "length (take 4 buf) = 4" by simp_all
qed

lemma take_frame_more:
  assumes "take_frame buf max_bytes = Inr (Some f, rest)"
  shows "take_frame (buf @ extra) max_bytes = Inr (Some f, rest @ extra)"
proof -
  from assms have "take_frame buf max_bytes \<noteq> Inr (None, buf)" by simp
  then obtain w s where "buf = w @ s" and "length w = 4" by (rule take_frame_header)
  with assms show ?thesis by (auto simp: take_frame_prefix Let_def split: if_splits)
qed

lemma take_frame_more_error:
  assumes "take_frame buf max_bytes = Inl e"
  shows "take_frame (buf @ extra) max_bytes = Inl e"
proof -
  from assms have "take_frame buf max_bytes \<noteq> Inr (None, buf)" by simp
  then obtain w s where "buf = w @ s" and "length w = 4" by (rule take_frame_header)
  with assms show ?thesis by (auto simp: take_frame_prefix Let_def split: if_splits)
qed

lemma take_frame_incomplete: "take_frame buf max_bytes = Inr (None, rest) \<Longrightarrow> rest = buf"
  by (auto simp: take_frame_def Let_def split: if_splits)

lemma take_frame_shrinks:
  "take_frame buf max_bytes = Inr (Some f, rest) \<Longrightarrow>
     length buf = 4 + length f + length rest \<and> length f \<le> max_bytes"
  by (auto simp: take_frame_def Let_def split: if_splits)

text \<open>Everything one pass over a connection's buffer serves: frames until the buffer holds no
  complete one, or until a declared size is refused (which closes the connection).\<close>

function frames_of :: "bytes \<Rightarrow> nat \<Rightarrow> bytes list \<times> (frame_error + bytes)" where
  "frames_of buf max_bytes =
     (case take_frame buf max_bytes of
        Inl e \<Rightarrow> ([], Inl e)
      | Inr (None, rest) \<Rightarrow> ([], Inr rest)
      | Inr (Some f, rest) \<Rightarrow> (let (fs, end) = frames_of rest max_bytes in (f # fs, end)))"
  by pat_completeness auto
termination
  by (relation "measure (\<lambda>(buf, max_bytes). length buf)") (auto dest: take_frame_shrinks)

declare frames_of.simps [simp del]

lemma frames_of_chunks:
  assumes "frames_of buf max_bytes = (fs, Inr rest)"
  shows "frames_of (buf @ extra) max_bytes =
     (let (fs', end) = frames_of (rest @ extra) max_bytes in (fs @ fs', end))"
  using assms
proof (induction buf max_bytes arbitrary: fs rule: frames_of.induct)
  case (1 buf max_bytes)
  consider (incomplete) "take_frame buf max_bytes = Inr (None, buf)"
    | (frame) f r where "take_frame buf max_bytes = Inr (Some f, r)"
    | (error) e where "take_frame buf max_bytes = Inl e"
    using take_frame_incomplete
    by (cases "take_frame buf max_bytes") (auto split: option.splits, metis option.exhaust)
  then show ?case
  proof cases
    case incomplete
    with "1.prems" show ?thesis by (simp add: frames_of.simps [of buf])
  next
    case (frame f r)
    with "1.prems" obtain gs where fs: "fs = f # gs" and r: "frames_of r max_bytes = (gs, Inr rest)"
      by (auto simp: frames_of.simps [of buf] split: prod.splits)
    from "1.IH" [OF frame refl refl r] frame show ?thesis
      by (simp add: frames_of.simps [of "buf @ extra"] take_frame_more fs split: prod.split)
  next
    case (error e)
    with "1.prems" show ?thesis by (simp add: frames_of.simps [of buf])
  qed
qed

subsection \<open>Writing frames\<close>

lemma write_frame_appends:
  assumes body: "\<And>buf. encode_body buf = Inr (buf @ w)" and len: "length w \<le> 2147483647"
  shows "write_frame out encode_body = Inr (out @ be_bytes 4 (word_of_nat (length w) :: i32) @ w)"
  using len by (simp add: write_frame_def body Let_def patch_def)

end
