(* ===== verification/Header.thy ===== *)
theory Header
  imports Framing
begin

text \<open>
  Request and response headers (\<open>src/codec/src/header.rs\<close>). The header version follows from the
  body's flexibility, with \<open>ApiVersions\<close> responses pinned to version 0; the header's client id is
  always in the legacy string form; flexible headers end in a tagged-field section whose tags
  must ascend.
\<close>

definition is_flexible :: "i16 \<Rightarrow> i16 \<Rightarrow> codec_error + bool" where
  "is_flexible api_key version =
     (case List.find (\<lambda>a. as_key a = api_key) SCHEMA_APIS of
        None \<Rightarrow> Inl (UnknownApiKey api_key)
      | Some spec \<Rightarrow> Inr (spec_is_flexible spec version))"

definition request_header_version :: "i16 \<Rightarrow> i16 \<Rightarrow> codec_error + i16" where
  "request_header_version api_key version =
     rbind (is_flexible api_key version) (\<lambda>f. Inr (if f then 2 else 1))"

definition response_header_version :: "i16 \<Rightarrow> i16 \<Rightarrow> codec_error + i16" where
  "response_header_version api_key version =
     (if api_key = API_VERSIONS_KEY then Inr 0
      else rbind (is_flexible api_key version) (\<lambda>f. Inr (if f then 1 else 0)))"

record request_header =
  api_key :: i16
  api_version :: i16
  correlation_id :: i32
  client_id :: "bytes option"
  unknown_tagged_fields :: "raw_tagged_field list"

record response_header =
  resp_correlation_id :: i32
  resp_unknown_tagged_fields :: "raw_tagged_field list"

subsection \<open>Tagged fields\<close>

fun tagged_size :: "raw_tagged_field list \<Rightarrow> nat" where
  "tagged_size [] = 0"
| "tagged_size (f # fs) =
     uvarint_size (tag f) + uvarint_size (word_of_nat (length (data f))) + length (data f)
     + tagged_size fs"

fun put_tagged :: "bytes \<Rightarrow> raw_tagged_field list \<Rightarrow> bytes" where
  "put_tagged buf [] = buf"
| "put_tagged buf (f # fs) =
     put_tagged (put_uvarint (put_uvarint buf (tag f)) (word_of_nat (length (data f))) @ data f) fs"

text \<open>The \<open>for _ in 0..n\<close> loop of \<open>decode_tagged\<close>, with \<open>last\<close> (here \<open>prev\<close>) and the fields read so far.\<close>

fun decode_tagged_from ::
  "nat \<Rightarrow> u32 option \<Rightarrow> raw_tagged_field list \<Rightarrow> bytes \<Rightarrow> codec_error + (raw_tagged_field list \<times> bytes)" where
  "decode_tagged_from 0 prev out = preturn out"
| "decode_tagged_from (Suc n) prev out = pbind get_uvarint (\<lambda>t.
     case prev of
       Some l \<Rightarrow>
         if t \<le> l then pfail (TagOutOfOrder l t)
         else pbind get_uvarint (\<lambda>sz. pbind (take_bytes (unat sz)) (\<lambda>d.
           decode_tagged_from n (Some t) (out @ [\<lparr>tag = t, data = d\<rparr>])))
     | None \<Rightarrow> pbind get_uvarint (\<lambda>sz. pbind (take_bytes (unat sz)) (\<lambda>d.
           decode_tagged_from n (Some t) (out @ [\<lparr>tag = t, data = d\<rparr>]))))"

definition decode_tagged :: "bytes \<Rightarrow> codec_error + (raw_tagged_field list \<times> bytes)" where
  "decode_tagged = pbind get_uvarint (\<lambda>n. decode_tagged_from (unat n) None [])"

subsection \<open>Request headers\<close>

definition request_header_size :: "request_header \<Rightarrow> i16 \<Rightarrow> nat" where
  "request_header_size h header_version =
     2 + 2 + 4
     + (if sint header_version \<ge> 1 then nullable_string_size (client_id h) False else 0)
     + (if sint header_version \<ge> 2
        then uvarint_size (word_of_nat (length (unknown_tagged_fields h)))
             + tagged_size (unknown_tagged_fields h)
        else 0)"

definition request_header_encode :: "request_header \<Rightarrow> bytes \<Rightarrow> i16 \<Rightarrow> codec_error + bytes" where
  "request_header_encode h buf header_version =
     (let buf = put_i32 (put_i16 (put_i16 buf (api_key h)) (api_version h)) (correlation_id h) in
      rbind (if sint header_version \<ge> 1 then put_nullable_string buf (client_id h) False else Inr buf)
        (\<lambda>buf. Inr (if sint header_version \<ge> 2
           then put_tagged (put_uvarint buf (word_of_nat (length (unknown_tagged_fields h))))
                  (unknown_tagged_fields h)
           else buf)))"

definition request_header_decode :: "i16 \<Rightarrow> bytes \<Rightarrow> codec_error + (request_header \<times> bytes)" where
  "request_header_decode header_version =
     pbind get_i16 (\<lambda>k. pbind get_i16 (\<lambda>v. pbind get_i32 (\<lambda>c.
       pbind (if sint header_version \<ge> 1 then get_nullable_string False else preturn None) (\<lambda>cid.
         pbind (if sint header_version \<ge> 2 then decode_tagged else preturn []) (\<lambda>tfs.
           preturn \<lparr>api_key = k, api_version = v, correlation_id = c, client_id = cid,
                    unknown_tagged_fields = tfs\<rparr>)))))"

definition peek_api :: "bytes \<Rightarrow> codec_error + (i16 \<times> i16)" where
  "peek_api buf =
     (if length buf < 4 then Inl (Truncated 4 (length buf))
      else Inr (from_be [buf ! 0, buf ! 1], from_be [buf ! 2, buf ! 3]))"

subsection \<open>Response headers\<close>

definition response_header_size :: "response_header \<Rightarrow> i16 \<Rightarrow> nat" where
  "response_header_size h header_version =
     4 + (if sint header_version \<ge> 1
          then uvarint_size (word_of_nat (length (resp_unknown_tagged_fields h)))
               + tagged_size (resp_unknown_tagged_fields h)
          else 0)"

definition response_header_encode :: "response_header \<Rightarrow> bytes \<Rightarrow> i16 \<Rightarrow> codec_error + bytes" where
  "response_header_encode h buf header_version =
     (let buf = put_i32 buf (resp_correlation_id h) in
      Inr (if sint header_version \<ge> 1
           then put_tagged (put_uvarint buf (word_of_nat (length (resp_unknown_tagged_fields h))))
                  (resp_unknown_tagged_fields h)
           else buf))"

definition response_header_decode :: "i16 \<Rightarrow> bytes \<Rightarrow> codec_error + (response_header \<times> bytes)" where
  "response_header_decode header_version =
     pbind get_i32 (\<lambda>c.
       pbind (if sint header_version \<ge> 1 then decode_tagged else preturn []) (\<lambda>tfs.
         preturn \<lparr>resp_correlation_id = c, resp_unknown_tagged_fields = tfs\<rparr>))"

subsection \<open>The tagged-field section round-trips\<close>

text \<open>What a section the decoder accepts looks like: tags strictly ascending, every length and
  the count within a \<open>u32\<close>.\<close>

definition tagged_ok :: "raw_tagged_field list \<Rightarrow> bool" where
  "tagged_ok fs \<longleftrightarrow> sorted_wrt (<) (map tag fs) \<and> length fs < 2 ^ 32
     \<and> (\<forall>f \<in> set fs. length (data f) < 2 ^ 32)"

lemma unat_len32: "n < 2 ^ 32 \<Longrightarrow> unat (word_of_nat n :: u32) = n"
  by (simp add: unsigned_of_nat take_bit_nat_eq_self)

lemma get_uvarint_len32: "n < 2 ^ 32 \<Longrightarrow> get_uvarint (leb128 n @ rest) = Inr (word_of_nat n, rest)"
  by (simp add: get_uvarint_leb)

lemma put_tagged_append: "put_tagged buf fs = buf @ put_tagged [] fs"
proof (induction fs arbitrary: buf)
  case (Cons f fs)
  show ?case
    by (simp only: put_tagged.simps Cons [of "_ @ _"] put_uvarint_leb append_assoc append_Nil)
qed simp

lemma length_put_tagged: "length (put_tagged buf fs) = length buf + tagged_size fs"
  by (induction fs arbitrary: buf) (simp_all add: put_uvarint_leb uvarint_size_leb)

lemma decode_tagged_from_put:
  assumes "sorted_wrt (<) (map tag fs)" and "\<forall>f \<in> set fs. length (data f) < 2 ^ 32"
    and "case prev of None \<Rightarrow> True | Some l \<Rightarrow> \<forall>f \<in> set fs. l < tag f"
  shows "decode_tagged_from (length fs) prev out (put_tagged [] fs @ rest) = Inr (out @ fs, rest)"
  using assms
proof (induction fs arbitrary: prev out)
  case Nil
  then show ?case by (simp add: preturn_def)
next
  case (Cons f fs)
  have wire: "put_tagged [] (f # fs) @ rest =
     leb128 (unat (tag f)) @ leb128 (unat (word_of_nat (length (data f)) :: u32)) @ data f
       @ put_tagged [] fs @ rest"
    by (simp add: put_uvarint_leb put_tagged_append [of "_ @ _"])
  have "decode_tagged_from (length fs) (Some (tag f)) (out @ [f]) (put_tagged [] fs @ rest)
      = Inr ((out @ [f]) @ fs, rest)"
    using Cons.prems by (intro Cons.IH) auto
  moreover have "\<not> tag f \<le> l" if "prev = Some l" for l
    using Cons.prems that by auto
  moreover obtain t d where "f = \<lparr>tag = t, data = d\<rparr>"
    by (cases f)
  ultimately show ?case
    using Cons.prems unfolding wire by (cases prev) (simp_all add: unat_len32 get_uvarint_len32)
qed

interpretation tagged_section: wire_codec tagged_ok
  "\<lambda>buf fs. Inr (put_tagged (put_uvarint buf (word_of_nat (length fs))) fs)"
  decode_tagged "\<lambda>fs. uvarint_size (word_of_nat (length fs)) + tagged_size fs"
proof
  fix fs
  assume ok: "tagged_ok fs"
  show "\<exists>w. (\<forall>buf. Inr (put_tagged (put_uvarint buf (word_of_nat (length fs))) fs) = Inr (buf @ w))
      \<and> length w = uvarint_size (word_of_nat (length fs)) + tagged_size fs
      \<and> (\<forall>rest. decode_tagged (w @ rest) = Inr (fs, rest))"
  proof (intro exI conjI allI)
    fix buf rest
    let ?w = "leb128 (unat (word_of_nat (length fs) :: u32)) @ put_tagged [] fs"
    show "Inr (put_tagged (put_uvarint buf (word_of_nat (length fs))) fs) = Inr (buf @ ?w)"
      by (simp add: put_uvarint_leb put_tagged_append [of "_ @ _"])
    show "length ?w = uvarint_size (word_of_nat (length fs)) + tagged_size fs"
      by (simp add: uvarint_size_leb length_put_tagged)
    show "decode_tagged (?w @ rest) = Inr (fs, rest)"
      using ok decode_tagged_from_put [of fs None "[]" rest]
      by (simp add: decode_tagged_def tagged_ok_def unat_len32 get_uvarint_len32)
  qed
qed


subsection \<open>Headers round-trip\<close>

text \<open>The fields a header version does not carry must be at their defaults to survive it.\<close>

definition request_header_ok :: "i16 \<Rightarrow> request_header \<Rightarrow> bool" where
  "request_header_ok header_version h \<longleftrightarrow>
     (if sint header_version \<ge> 1 then nullable_string_ok False (client_id h) else client_id h = None)
     \<and> (if sint header_version \<ge> 2 then tagged_ok (unknown_tagged_fields h)
        else unknown_tagged_fields h = [])"

definition response_header_ok :: "i16 \<Rightarrow> response_header \<Rightarrow> bool" where
  "response_header_ok header_version h \<longleftrightarrow>
     (if sint header_version \<ge> 1 then tagged_ok (resp_unknown_tagged_fields h)
      else resp_unknown_tagged_fields h = [])"

interpretation request_header: wire_codec "request_header_ok hv"
  "\<lambda>buf h. request_header_encode h buf hv" "request_header_decode hv"
  "\<lambda>h. request_header_size h hv" for hv
proof
  fix h
  assume ok: "request_header_ok hv h"
  define fixed where "fixed = be_bytes 2 (api_key h) @ be_bytes 2 (api_version h)
     @ be_bytes 4 (correlation_id h)"
  obtain c where c: "\<forall>buf. (if sint hv \<ge> 1 then put_nullable_string buf (client_id h) False
        else Inr buf) = Inr (buf @ c)"
      "length c = (if sint hv \<ge> 1 then nullable_string_size (client_id h) False else 0)"
      "\<forall>rest. (if sint hv \<ge> 1 then get_nullable_string False else preturn None) (c @ rest)
        = Inr (client_id h, rest)"
    using ok nullable_string.law [of False "client_id h"]
    by (cases "sint hv \<ge> 1") (auto simp: request_header_ok_def preturn_def)
  obtain t where t: "\<forall>buf. (if sint hv \<ge> 2 then put_tagged (put_uvarint buf
        (word_of_nat (length (unknown_tagged_fields h)))) (unknown_tagged_fields h) else buf) = buf @ t"
      "length t = (if sint hv \<ge> 2 then uvarint_size (word_of_nat (length (unknown_tagged_fields h)))
        + tagged_size (unknown_tagged_fields h) else 0)"
      "\<forall>rest. (if sint hv \<ge> 2 then decode_tagged else preturn []) (t @ rest)
        = Inr (unknown_tagged_fields h, rest)"
    using ok tagged_section.law [of "unknown_tagged_fields h"]
    by (cases "sint hv \<ge> 2") (auto simp: request_header_ok_def preturn_def)
  show "\<exists>w. (\<forall>buf. request_header_encode h buf hv = Inr (buf @ w))
      \<and> length w = request_header_size h hv
      \<and> (\<forall>rest. request_header_decode hv (w @ rest) = Inr (h, rest))"
  proof (intro exI [of _ "fixed @ c @ t"] conjI allI)
    show "request_header_encode h buf hv = Inr (buf @ fixed @ c @ t)" for buf
      by (simp only: request_header_encode_def Let_def put_i16_def put_i32_def c(1) t(1) rbind_simps)
        (simp add: fixed_def)
    show "length (fixed @ c @ t) = request_header_size h hv"
      by (simp add: fixed_def request_header_size_def c(2) t(2))
    show "request_header_decode hv ((fixed @ c @ t) @ rest) = Inr (h, rest)" for rest
      unfolding fixed_def request_header_decode_def get_i16_def get_i32_def append_assoc
      by (simp add: read_prim_append c(3) t(3) preturn_def)
  qed
qed

interpretation response_header: wire_codec "response_header_ok hv"
  "\<lambda>buf h. response_header_encode h buf hv" "response_header_decode hv"
  "\<lambda>h. response_header_size h hv" for hv
proof
  fix h
  assume ok: "response_header_ok hv h"
  obtain t where t: "\<forall>buf. (if sint hv \<ge> 1 then put_tagged (put_uvarint buf
        (word_of_nat (length (resp_unknown_tagged_fields h)))) (resp_unknown_tagged_fields h)
        else buf) = buf @ t"
      "length t = (if sint hv \<ge> 1 then uvarint_size (word_of_nat (length (resp_unknown_tagged_fields h)))
        + tagged_size (resp_unknown_tagged_fields h) else 0)"
      "\<forall>rest. (if sint hv \<ge> 1 then decode_tagged else preturn []) (t @ rest)
        = Inr (resp_unknown_tagged_fields h, rest)"
    using ok tagged_section.law [of "resp_unknown_tagged_fields h"]
    by (cases "sint hv \<ge> 1") (auto simp: response_header_ok_def preturn_def)
  show "\<exists>w. (\<forall>buf. response_header_encode h buf hv = Inr (buf @ w))
      \<and> length w = response_header_size h hv
      \<and> (\<forall>rest. response_header_decode hv (w @ rest) = Inr (h, rest))"
  proof (intro exI [of _ "be_bytes 4 (resp_correlation_id h) @ t"] conjI allI)
    show "response_header_encode h buf hv = Inr (buf @ be_bytes 4 (resp_correlation_id h) @ t)" for buf
      by (simp only: response_header_encode_def Let_def put_i32_def t(1)) simp
    show "length (be_bytes 4 (resp_correlation_id h) @ t) = response_header_size h hv"
      by (simp add: response_header_size_def t(2))
    show "response_header_decode hv ((be_bytes 4 (resp_correlation_id h) @ t) @ rest) = Inr (h, rest)"
      for rest
      unfolding response_header_decode_def get_i32_def append_assoc
      by (simp add: read_prim_append t(3) preturn_def)
  qed
qed

end
