(* ===== verification/RecordBatch.thy ===== *)
theory RecordBatch
  imports Primitives
begin

text \<open>
  RecordBatch v2 (\<open>src/codec/src/records.rs\<close>): the read-only view and its checks, CRC
  verification, the in-place stamping of the broker-assigned offset and leader epoch, and the walk
  over the batches of a \<open>records\<close> blob. \<open>crc\<close> stands for the \<open>crc32c\<close> crate's function. The
  type-state of the source is kept: only \<open>validated\<close> makes a \<open>validated_batch\<close>, and only a
  \<open>validated_batch\<close> is stamped.
\<close>

definition BASE_OFFSET_OFFSET :: nat where "BASE_OFFSET_OFFSET = 0"
definition LENGTH_OFFSET :: nat where "LENGTH_OFFSET = 8"
definition PARTITION_LEADER_EPOCH_OFFSET :: nat where "PARTITION_LEADER_EPOCH_OFFSET = 12"
definition MAGIC_OFFSET :: nat where "MAGIC_OFFSET = 16"
definition CRC_OFFSET :: nat where "CRC_OFFSET = 17"
definition ATTRIBUTES_OFFSET :: nat where "ATTRIBUTES_OFFSET = 21"
definition LAST_OFFSET_DELTA_OFFSET :: nat where "LAST_OFFSET_DELTA_OFFSET = 23"
definition BASE_TIMESTAMP_OFFSET :: nat where "BASE_TIMESTAMP_OFFSET = 27"
definition MAX_TIMESTAMP_OFFSET :: nat where "MAX_TIMESTAMP_OFFSET = 35"
definition PRODUCER_ID_OFFSET :: nat where "PRODUCER_ID_OFFSET = 43"
definition PRODUCER_EPOCH_OFFSET :: nat where "PRODUCER_EPOCH_OFFSET = 51"
definition BASE_SEQUENCE_OFFSET :: nat where "BASE_SEQUENCE_OFFSET = 53"
definition RECORD_COUNT_OFFSET :: nat where "RECORD_COUNT_OFFSET = 57"
definition RECORD_BATCH_OVERHEAD :: nat where "RECORD_BATCH_OVERHEAD = 61"
definition MAGIC_V2 :: i8 where "MAGIC_V2 = 2"
definition COMPRESSION_MASK :: i16 where "COMPRESSION_MASK = 0x07"
definition TRANSACTIONAL_FLAG :: i16 where "TRANSACTIONAL_FLAG = 0x10"
definition CONTROL_FLAG :: i16 where "CONTROL_FLAG = 0x20"

lemmas batch_layout =
  BASE_OFFSET_OFFSET_def LENGTH_OFFSET_def PARTITION_LEADER_EPOCH_OFFSET_def MAGIC_OFFSET_def
  CRC_OFFSET_def ATTRIBUTES_OFFSET_def LAST_OFFSET_DELTA_OFFSET_def BASE_TIMESTAMP_OFFSET_def
  MAX_TIMESTAMP_OFFSET_def PRODUCER_ID_OFFSET_def PRODUCER_EPOCH_OFFSET_def
  BASE_SEQUENCE_OFFSET_def RECORD_COUNT_OFFSET_def RECORD_BATCH_OVERHEAD_def

datatype batch_error =
    TooShort nat
  | UnsupportedMagic i8
  | CrcMismatch u32 u32
  | LengthMismatch int nat
  | NegativeExtent string i32
  | TruncatedRecord nat
  | NegativeLength string i32
  | RecordSizeMismatch i32 nat
  | RecordCountMismatch i32 nat
  | Decompression i16
  | DecompressedTooLarge
  | Compressed i16

fun batch_error_code :: "batch_error \<Rightarrow> error_code" where
  "batch_error_code (CrcMismatch s c) = E_CorruptMessage"
| "batch_error_code (TooShort n) = E_CorruptMessage"
| "batch_error_code (LengthMismatch d a) = E_CorruptMessage"
| "batch_error_code (UnsupportedMagic m) = E_InvalidRecord"
| "batch_error_code (NegativeExtent f v) = E_InvalidRecord"
| "batch_error_code (TruncatedRecord a) = E_InvalidRecord"
| "batch_error_code (NegativeLength f v) = E_InvalidRecord"
| "batch_error_code (RecordSizeMismatch d r) = E_InvalidRecord"
| "batch_error_code (RecordCountMismatch d f) = E_InvalidRecord"
| "batch_error_code (Decompression c) = E_InvalidRecord"
| "batch_error_code DecompressedTooLarge = E_MessageTooLarge"
| "batch_error_code (Compressed c) = E_UnknownServerError"

subsection \<open>The view\<close>

datatype record_batch = RecordBatch (batch_bytes: bytes)
datatype validated_batch = ValidatedBatch (validated_view: record_batch)
datatype stamped_batch = StampedBatch (stamped_bytes: bytes)

text \<open>The \<open>read_at!\<close> macro: \<open>n\<close> bytes at \<open>off\<close>, big-endian. Every view is at least as long as the
  header, so no accessor reads out of range.\<close>

definition read_at :: "nat \<Rightarrow> nat \<Rightarrow> record_batch \<Rightarrow> 'a::len word" where
  "read_at off n b = from_be (sub_range off n (batch_bytes b))"

definition batch_length :: "record_batch \<Rightarrow> i32" where
  "batch_length b = read_at LENGTH_OFFSET 4 b"
definition base_offset :: "record_batch \<Rightarrow> i64" where
  "base_offset b = read_at BASE_OFFSET_OFFSET 8 b"
definition partition_leader_epoch :: "record_batch \<Rightarrow> i32" where
  "partition_leader_epoch b = read_at PARTITION_LEADER_EPOCH_OFFSET 4 b"
definition attributes :: "record_batch \<Rightarrow> i16" where
  "attributes b = read_at ATTRIBUTES_OFFSET 2 b"
definition last_offset_delta :: "record_batch \<Rightarrow> i32" where
  "last_offset_delta b = read_at LAST_OFFSET_DELTA_OFFSET 4 b"
definition base_timestamp :: "record_batch \<Rightarrow> i64" where
  "base_timestamp b = read_at BASE_TIMESTAMP_OFFSET 8 b"
definition max_timestamp :: "record_batch \<Rightarrow> i64" where
  "max_timestamp b = read_at MAX_TIMESTAMP_OFFSET 8 b"
definition producer_id :: "record_batch \<Rightarrow> i64" where
  "producer_id b = read_at PRODUCER_ID_OFFSET 8 b"
definition producer_epoch :: "record_batch \<Rightarrow> i16" where
  "producer_epoch b = read_at PRODUCER_EPOCH_OFFSET 2 b"
definition base_sequence :: "record_batch \<Rightarrow> i32" where
  "base_sequence b = read_at BASE_SEQUENCE_OFFSET 4 b"
definition record_count :: "record_batch \<Rightarrow> i32" where
  "record_count b = read_at RECORD_COUNT_OFFSET 4 b"
definition stored_crc :: "record_batch \<Rightarrow> u32" where
  "stored_crc b = read_at CRC_OFFSET 4 b"

definition magic :: "record_batch \<Rightarrow> i8" where
  "magic b = batch_bytes b ! MAGIC_OFFSET"

definition compression_type :: "record_batch \<Rightarrow> i16" where
  "compression_type b = attributes b AND COMPRESSION_MASK"

definition is_transactional :: "record_batch \<Rightarrow> bool" where
  "is_transactional b \<longleftrightarrow> attributes b AND TRANSACTIONAL_FLAG \<noteq> 0"

definition is_control :: "record_batch \<Rightarrow> bool" where
  "is_control b \<longleftrightarrow> attributes b AND CONTROL_FLAG \<noteq> 0"

definition last_offset :: "record_batch \<Rightarrow> i64" where
  "last_offset b = base_offset b + scast (last_offset_delta b)"

definition record_batch_new :: "bytes \<Rightarrow> batch_error + record_batch" where
  "record_batch_new bytes =
     (if length bytes < RECORD_BATCH_OVERHEAD then Inl (TooShort (length bytes))
      else let batch = RecordBatch bytes in
        if magic batch \<noteq> MAGIC_V2 then Inl (UnsupportedMagic (magic batch))
        else let declared = sint (batch_length batch) + int (LENGTH_OFFSET + 4) in
          if declared \<noteq> int (length bytes) then Inl (LengthMismatch declared (length bytes))
          else if sint (last_offset_delta batch) < 0
            then Inl (NegativeExtent ''lastOffsetDelta'' (last_offset_delta batch))
          else if sint (record_count batch) < 0
            then Inl (NegativeExtent ''recordCount'' (record_count batch))
          else Inr batch)"

definition computed_crc :: "(bytes \<Rightarrow> u32) \<Rightarrow> record_batch \<Rightarrow> u32" where
  "computed_crc crc b = crc (drop ATTRIBUTES_OFFSET (batch_bytes b))"

definition verify_crc :: "(bytes \<Rightarrow> u32) \<Rightarrow> record_batch \<Rightarrow> batch_error + unit" where
  "verify_crc crc b =
     (let stored = stored_crc b; computed = computed_crc crc b in
      if stored = computed then Inr () else Inl (CrcMismatch stored computed))"

definition validated :: "(bytes \<Rightarrow> u32) \<Rightarrow> bytes \<Rightarrow> batch_error + validated_batch" where
  "validated crc bytes =
     rbind (record_batch_new bytes) (\<lambda>batch.
       rbind (verify_crc crc batch) (\<lambda>_. Inr (ValidatedBatch batch)))"

subsection \<open>Stamping\<close>

definition stamp :: "validated_batch \<Rightarrow> i64 \<Rightarrow> i32 \<Rightarrow> stamped_batch" where
  "stamp vb off leader_epoch =
     (let owned = batch_bytes (validated_view vb);
          owned = patch BASE_OFFSET_OFFSET (be_bytes 8 off) owned;
          owned = patch PARTITION_LEADER_EPOCH_OFFSET (be_bytes 4 leader_epoch) owned
      in StampedBatch owned)"

definition stamped_view :: "stamped_batch \<Rightarrow> record_batch" where
  "stamped_view s = RecordBatch (stamped_bytes s)"

subsection \<open>Walking a records blob\<close>

text \<open>\<open>BatchIter::next\<close>: the item, if any, and the buffer left.\<close>

definition batch_iter_next :: "bytes \<Rightarrow> (batch_error + record_batch) option \<times> bytes" where
  "batch_iter_next buf =
     (if buf = [] then (None, buf)
      else if length buf < LENGTH_OFFSET + 4 then (Some (Inl (TooShort (length buf))), [])
      else let declared = sint (from_be [buf ! LENGTH_OFFSET, buf ! (LENGTH_OFFSET + 1),
                 buf ! (LENGTH_OFFSET + 2), buf ! (LENGTH_OFFSET + 3)] :: i32);
               total = declared + int (LENGTH_OFFSET + 4)
        in if total \<le> 0 \<or> total > int (length buf)
           then (Some (Inl (LengthMismatch total (length buf))), [])
           else (Some (record_batch_new (take (nat total) buf)), drop (nat total) buf))"

lemma batch_iter_next_shrinks:
  "batch_iter_next buf = (Some r, rest) \<Longrightarrow> length rest < length buf"
  by (auto simp: batch_iter_next_def Let_def split: if_splits)

function batch_iter :: "bytes \<Rightarrow> (batch_error + record_batch) list" where
  "batch_iter buf =
     (case batch_iter_next buf of (None, rest) \<Rightarrow> [] | (Some r, rest) \<Rightarrow> r # batch_iter rest)"
  by pat_completeness auto
termination
  by (relation "measure length") (auto dest: batch_iter_next_shrinks [OF sym])

declare batch_iter.simps [simp del]

subsection \<open>Facts about the view\<close>

definition batch_wf :: "record_batch \<Rightarrow> bool" where
  "batch_wf b \<longleftrightarrow> record_batch_new (batch_bytes b) = Inr b"

lemma record_batch_new_Inr_iff:
  "record_batch_new bs = Inr b \<longleftrightarrow> b = RecordBatch bs \<and> RECORD_BATCH_OVERHEAD \<le> length bs
     \<and> magic b = MAGIC_V2 \<and> sint (batch_length b) + 12 = int (length bs)
     \<and> 0 \<le> sint (last_offset_delta b) \<and> 0 \<le> sint (record_count b)"
  by (auto simp: record_batch_new_def Let_def batch_layout)

lemma batch_wf_new: "record_batch_new bs = Inr b \<Longrightarrow> batch_wf b \<and> batch_bytes b = bs"
  by (auto simp: batch_wf_def record_batch_new_Inr_iff)

lemma batch_wf_iff:
  "batch_wf b \<longleftrightarrow> 61 \<le> length (batch_bytes b) \<and> magic b = MAGIC_V2
     \<and> sint (batch_length b) + 12 = int (length (batch_bytes b))
     \<and> 0 \<le> sint (last_offset_delta b) \<and> 0 \<le> sint (record_count b)"
  by (cases b) (simp add: batch_wf_def record_batch_new_Inr_iff batch_layout)

lemma validated_Inr_iff:
  "validated crc bs = Inr vb \<longleftrightarrow> vb = ValidatedBatch (RecordBatch bs) \<and> batch_wf (RecordBatch bs)
     \<and> stored_crc (RecordBatch bs) = computed_crc crc (RecordBatch bs)"
  by (auto simp: validated_def rbind_eq_Inr verify_crc_def Let_def batch_wf_def
      record_batch_new_Inr_iff split: if_splits)

lemma nth_sub_range4:
  "off + 4 \<le> length bs \<Longrightarrow> [bs ! off, bs ! (off + 1), bs ! (off + 2), bs ! (off + 3)] = sub_range off 4 bs"
  by (rule nth_equalityI) (auto simp: sub_range_def nth_Cons numeral_3_eq_3 split: nat.splits)

lemma length_field:
  "12 \<le> length bs \<Longrightarrow> (from_be [bs ! LENGTH_OFFSET, bs ! (LENGTH_OFFSET + 1),
     bs ! (LENGTH_OFFSET + 2), bs ! (LENGTH_OFFSET + 3)] :: i32) = batch_length (RecordBatch bs)"
  using nth_sub_range4 [of 8 bs] by (simp add: batch_length_def read_at_def LENGTH_OFFSET_def)

lemma read_at_prefix: "off + n \<le> length bs \<Longrightarrow> read_at off n (RecordBatch (bs @ rest)) = read_at off n (RecordBatch bs)"
  by (simp add: read_at_def sub_range_def)

subsection \<open>Stamping touches two fields\<close>

lemma stamp_bytes:
  "stamped_bytes (stamp (ValidatedBatch (RecordBatch bs)) off ep) = patch 12 (be_bytes 4 ep) (patch 0 (be_bytes 8 off) bs)"
  by (simp add: stamp_def Let_def batch_layout)

lemma stamp_length [simp]:
  "61 \<le> length bs \<Longrightarrow> length (stamped_bytes (stamp (ValidatedBatch (RecordBatch bs)) off ep)) = length bs"
  by (simp add: stamp_bytes)

lemma stamp_drop:
  "61 \<le> length bs \<Longrightarrow> 16 \<le> i \<Longrightarrow>
     drop i (stamped_bytes (stamp (ValidatedBatch (RecordBatch bs)) off ep)) = drop i bs"
  by (simp add: stamp_bytes drop_patch_after)

lemma stamp_read_at_after:
  "61 \<le> length bs \<Longrightarrow> 16 \<le> i \<Longrightarrow>
     read_at i n (RecordBatch (stamped_bytes (stamp (ValidatedBatch (RecordBatch bs)) off ep)))
       = read_at i n (RecordBatch bs)"
  by (simp add: read_at_def sub_range_def stamp_drop)

lemma stamp_length_field:
  "61 \<le> length bs \<Longrightarrow>
     read_at 8 4 (RecordBatch (stamped_bytes (stamp (ValidatedBatch (RecordBatch bs)) off ep)))
       = read_at 8 4 (RecordBatch bs)"
  by (simp add: read_at_def stamp_bytes sub_range_patch_before sub_range_patch_after)

lemma stamp_base_offset:
  "61 \<le> length bs \<Longrightarrow>
     base_offset (stamped_view (stamp (ValidatedBatch (RecordBatch bs)) off ep)) = off"
  using sub_range_patch_same [of 0 "be_bytes 8 off" bs]
  by (simp add: base_offset_def stamped_view_def read_at_def stamp_bytes batch_layout
      sub_range_patch_before)

lemma stamp_leader_epoch:
  "61 \<le> length bs \<Longrightarrow>
     partition_leader_epoch (stamped_view (stamp (ValidatedBatch (RecordBatch bs)) off ep)) = ep"
  using sub_range_patch_same [of 12 "be_bytes 4 ep" "patch 0 (be_bytes 8 off) bs"]
  by (simp add: partition_leader_epoch_def stamped_view_def read_at_def stamp_bytes batch_layout)

lemma nth_drop_eq:
  assumes "drop i xs = drop i ys" and "i \<le> j" and "j < length xs" and "j < length ys"
  shows "xs ! j = ys ! j"
proof -
  have "xs ! j = drop i xs ! (j - i)" and "ys ! j = drop i ys ! (j - i)"
    using assms(2-4) by simp_all
  with assms(1) show ?thesis by simp
qed

lemma stamp_magic:
  "61 \<le> length bs \<Longrightarrow>
     magic (RecordBatch (stamped_bytes (stamp (ValidatedBatch (RecordBatch bs)) off ep)))
       = magic (RecordBatch bs)"
  using nth_drop_eq [OF stamp_drop [of bs 16 off ep]] by (simp add: magic_def batch_layout)

lemmas stamp_fields =
  batch_length_def attributes_def last_offset_delta_def base_timestamp_def max_timestamp_def
  producer_id_def producer_epoch_def base_sequence_def record_count_def stored_crc_def
  batch_layout stamp_read_at_after stamp_length_field stamp_magic

lemma stamp_validated:
  assumes "validated crc bs = Inr vb"
  shows "validated crc (stamped_bytes (stamp vb off ep)) = Inr (ValidatedBatch (stamped_view (stamp vb off ep)))"
proof -
  from assms have vb: "vb = ValidatedBatch (RecordBatch bs)" and wf: "batch_wf (RecordBatch bs)"
    and crc: "stored_crc (RecordBatch bs) = computed_crc crc (RecordBatch bs)"
    by (simp_all add: validated_Inr_iff)
  from wf have len: "61 \<le> length bs" by (simp add: batch_wf_iff)
  have "batch_wf (RecordBatch (stamped_bytes (stamp vb off ep)))"
    using wf len unfolding batch_wf_iff vb by (simp add: stamp_fields)
  moreover have "stored_crc (RecordBatch (stamped_bytes (stamp vb off ep)))
      = computed_crc crc (RecordBatch (stamped_bytes (stamp vb off ep)))"
    using crc len unfolding vb computed_crc_def by (simp add: stamp_fields stamp_drop)
  ultimately show ?thesis
    by (simp add: validated_Inr_iff stamped_view_def)
qed

subsection \<open>The walk over concatenated batches\<close>

lemma batch_iter_next_wf:
  assumes "batch_wf (RecordBatch bs)"
  shows "batch_iter_next (bs @ rest) = (Some (Inr (RecordBatch bs)), rest)"
proof -
  from assms have len: "61 \<le> length bs" and ln: "sint (batch_length (RecordBatch bs)) + 12 = int (length bs)"
    by (simp_all add: batch_wf_iff)
  have "(from_be [(bs @ rest) ! LENGTH_OFFSET, (bs @ rest) ! (LENGTH_OFFSET + 1),
     (bs @ rest) ! (LENGTH_OFFSET + 2), (bs @ rest) ! (LENGTH_OFFSET + 3)] :: i32)
      = batch_length (RecordBatch bs)"
    using len length_field [of "bs @ rest"]
    by (simp add: batch_length_def read_at_prefix LENGTH_OFFSET_def)
  then show ?thesis
    using assms len ln unfolding batch_iter_next_def batch_wf_def
    by (auto simp: Let_def LENGTH_OFFSET_def)
qed

lemma batch_iter_concat:
  "\<forall>bs \<in> set bss. batch_wf (RecordBatch bs) \<Longrightarrow>
     batch_iter (concat bss) = map (\<lambda>bs. Inr (RecordBatch bs)) bss"
proof (induction bss)
  case Nil
  show ?case by (simp add: batch_iter.simps batch_iter_next_def)
next
  case (Cons bs bss)
  then show ?case
    by (subst batch_iter.simps) (simp add: batch_iter_next_wf)
qed

lemma batch_iter_next_Inr:
  assumes "batch_iter_next buf = (Some (Inr b), rest)"
  shows "batch_wf b \<and> buf = batch_bytes b @ rest"
  using assms
  by (auto simp: batch_iter_next_def Let_def dest!: batch_wf_new split: if_splits)

lemma batch_iter_lossless:
  "batch_iter buf = map Inr bs \<Longrightarrow> (\<forall>b \<in> set bs. batch_wf b) \<and> concat (map batch_bytes bs) = buf"
proof (induction buf arbitrary: bs rule: batch_iter.induct)
  case (1 buf)
  show ?case
  proof (cases "batch_iter_next buf")
    case (Pair item rest)
    show ?thesis
    proof (cases item)
      case None
      with Pair have "buf = []"
        by (auto simp: batch_iter_next_def Let_def split: if_splits)
      with "1.prems" Pair None show ?thesis by (simp add: batch_iter.simps)
    next
      case (Some r)
      with "1.prems" Pair obtain b bs' where "bs = b # bs'" "r = Inr b" "batch_iter rest = map Inr bs'"
        by (auto simp: batch_iter.simps [of buf] Cons_eq_map_conv)
      with "1.IH" [OF Pair [symmetric] Some] Pair Some batch_iter_next_Inr [of buf b rest]
      show ?thesis by auto
    qed
  qed
qed

end
