(* ===== verification/Wire_Properties.thy ===== *)
theory Wire_Properties
  imports Header RecordBatch
begin

text \<open>
  What the wire layer promises its callers, stated over the definitions of \<open>Primitives\<close>,
  \<open>Framing\<close>, \<open>Header\<close> and \<open>RecordBatch\<close>: round trips, the shape of everything a decoder
  accepts, the negotiation verdict, and what stamping a batch leaves alone.
\<close>

text \<open>A connection's output buffer after a list of bodies has been framed onto it.\<close>

primrec write_frames :: "bytes \<Rightarrow> bytes list \<Rightarrow> codec_error + bytes" where
  "write_frames out [] = Inr out"
| "write_frames out (b # bs) = rbind (write_frame out (\<lambda>buf. Inr (buf @ b))) (\<lambda>out. write_frames out bs)"

subsection \<open>Lemmas\<close>

lemma get_uvarint_consumes: "get_uvarint buf = Inr (v, rest) \<Longrightarrow> \<exists>w. buf = w @ rest \<and> 0 < length w \<and> length w \<le> 5"
  using get_uvarint_from_consumes [of "[0..<5]" 0 buf v rest] by (simp add: get_uvarint_def)

lemma read_prim_Inr:
  "read_prim n buf = Inr (v, rest) \<Longrightarrow> \<exists>w. buf = w @ rest \<and> length w = n"
  by (auto simp: read_prim_def need_def pbind_def split: if_splits
      intro!: exI [of _ "take n buf"])

lemma take_bytes_Inr:
  "take_bytes n buf = Inr (d, rest) \<Longrightarrow> buf = d @ rest \<and> length d = n"
  by (auto simp: take_bytes_def need_def pbind_def split: if_splits)

lemma checked_len_Inr:
  "checked_len raw buf = Inr (r, rest) \<Longrightarrow> rest = buf \<and> (\<forall>n. r = Some n \<longrightarrow> int n = raw \<and> int n \<le> MAX_LENGTH)"
  by (auto simp: checked_len_def preturn_def pfail_def split: if_splits)

lemma get_len_Inr:
  assumes "get_len flexible wide buf = Inr (r, rest)"
  shows "(\<exists>w. buf = w @ rest \<and> 0 < length w \<and> length w \<le> 5) \<and> (\<forall>n. r = Some n \<longrightarrow> int n \<le> MAX_LENGTH)"
proof -
  consider v where "get_uvarint buf = Inr (v, rest)" | v where "read_prim 4 buf = Inr (v :: i32, rest)"
    | v where "read_prim 2 buf = Inr (v :: i16, rest)"
    using assms
    by (auto simp: get_len_def pbind_eq_Inr get_i32_def get_i16_def preturn_def split: if_splits
        dest!: checked_len_Inr)
  then have "\<exists>w. buf = w @ rest \<and> 0 < length w \<and> length w \<le> 5"
    by cases (fastforce dest: get_uvarint_consumes read_prim_Inr)+
  moreover have "\<forall>n. r = Some n \<longrightarrow> int n \<le> MAX_LENGTH"
    using assms
    by (auto simp: get_len_def pbind_eq_Inr preturn_def split: if_splits dest!: checked_len_Inr)
  ultimately show ?thesis by blast
qed

lemma decode_tagged_from_sound:
  assumes "decode_tagged_from n prev out buf = Inr (fs, rest)"
  shows "\<exists>new w. fs = out @ new \<and> buf = w @ rest \<and> length new = n
     \<and> sorted_wrt (<) (map tag new) \<and> (\<forall>f \<in> set new. length (data f) < 2 ^ 32)
     \<and> (\<forall>l. prev = Some l \<longrightarrow> (\<forall>f \<in> set new. l < tag f))"
  using assms
proof (induction n arbitrary: prev out buf)
  case 0
  then show ?case by (auto simp: preturn_def)
next
  case (Suc n)
  obtain t b1 sz b2 d b3 where t: "get_uvarint buf = Inr (t, b1)"
    and sz: "get_uvarint b1 = Inr (sz, b2)" and d: "take_bytes (unat sz) b2 = Inr (d, b3)"
    and rec: "decode_tagged_from n (Some t) (out @ [\<lparr>tag = t, data = d\<rparr>]) b3 = Inr (fs, rest)"
    and asc: "\<forall>l. prev = Some l \<longrightarrow> l < t"
    using Suc.prems
    by (cases prev) (auto simp: pbind_eq_Inr pfail_def split: if_splits)
  obtain new w where new: "fs = (out @ [\<lparr>tag = t, data = d\<rparr>]) @ new" "b3 = w @ rest" "length new = n"
      "sorted_wrt (<) (map tag new)" "\<forall>f \<in> set new. length (data f) < 2 ^ 32"
      "\<forall>f \<in> set new. t < tag f"
    using Suc.IH [OF rec] by auto
  obtain w1 w2 where w: "buf = w1 @ b1" "b1 = w2 @ b2"
    using get_uvarint_consumes t sz by blast
  have dl: "b2 = d @ b3" "length d < 2 ^ 32"
    using take_bytes_Inr [OF d] unsigned_less [where 'a = nat, of sz] by simp_all
  have "l < tag f" if "prev = Some l" and "f \<in> set new" for l f
    using asc new(6) that order.strict_trans by blast
  with asc have "\<forall>l. prev = Some l \<longrightarrow> (\<forall>f \<in> set (\<lparr>tag = t, data = d\<rparr> # new). l < tag f)"
    by simp
  moreover have "buf = (w1 @ w2 @ d @ w) @ rest"
    using w dl(1) new(2) by simp
  moreover have "fs = out @ (\<lparr>tag = t, data = d\<rparr> # new)"
    using new(1) by simp
  moreover have "\<forall>f \<in> set (\<lparr>tag = t, data = d\<rparr> # new). length (data f) < 2 ^ 32"
    using dl(2) new(5) by simp
  moreover have "sorted_wrt (<) (map tag (\<lparr>tag = t, data = d\<rparr> # new))"
    using new(4, 6) by simp
  moreover have "length (\<lparr>tag = t, data = d\<rparr> # new) = Suc n"
    using new(3) by simp
  ultimately show ?case by blast
qed

lemma write_frames_wire:
  assumes "\<forall>b \<in> set bodies. length b \<le> 2147483647"
  shows "write_frames out bodies
     = Inr (out @ concat (map (\<lambda>b. be_bytes 4 (word_of_nat (length b) :: i32) @ b) bodies))"
  using assms
proof (induction bodies arbitrary: out)
  case (Cons b bs)
  then show ?case by (simp add: write_frame_appends [of _ b])
qed simp

lemma sint_len32: "n \<le> 2147483647 \<Longrightarrow> sint (word_of_nat n :: i32) = int n"
  by (simp add: signed_of_nat signed_take_bit_int_eq_self)

lemma frames_of_wire:
  assumes "\<forall>b \<in> set bodies. length b \<le> m" and "m \<le> 2147483647"
  shows "frames_of (concat (map (\<lambda>b. be_bytes 4 (word_of_nat (length b) :: i32) @ b) bodies)) m
     = (bodies, Inr [])"
  using assms
proof (induction bodies)
  case Nil
  show ?case by (simp add: frames_of.simps take_frame_def)
next
  case (Cons b bs)
  then have "take_frame (be_bytes 4 (word_of_nat (length b) :: i32) @ b
      @ concat (map (\<lambda>b. be_bytes 4 (word_of_nat (length b) :: i32) @ b) bs)) m
    = Inr (Some b, concat (map (\<lambda>b. be_bytes 4 (word_of_nat (length b) :: i32) @ b) bs))"
    by (simp add: take_frame_prefix sint_len32 Let_def)
  then show ?case
    using Cons by (simp add: frames_of.simps [of "be_bytes 4 _ @ _"])
qed

lemma find_key_unique:
  "distinct (map f xs) \<Longrightarrow> List.find (\<lambda>x. f x = k) xs = Some x \<longleftrightarrow> x \<in> set xs \<and> f x = k"
proof (induction xs)
  case (Cons a xs)
  then show ?case by (cases "f a = k") (auto simp: image_iff)
qed simp

lemma advertised_schema:
  assumes "adv \<in> set ADVERTISED"
  obtains s where "List.find (\<lambda>a. as_key a = av_api_key adv) SCHEMA_APIS = Some s"
    and "sint (vr_min (as_valid s)) \<le> sint (av_min_version adv)
         \<or> av_api_key adv = 0 \<and> vr_min (as_valid s) = 3"
    and "sint (av_max_version adv) \<le> sint (vr_max (as_valid s))"
  using assms advertised_within_schema by (fastforce simp: list_all_iff split: option.splits)

lemma produce_rows:
  "List.find (\<lambda>a. as_key a = 0) SCHEMA_APIS = Some (AS 0 ''Produce'' (VR 3 13) (VR 9 32767) False)"
  "List.find (\<lambda>a. av_api_key a = 0) ADVERTISED = Some (AV 0 0 13)"
  by code_simp+

lemma negotiate_supported:
  "negotiate k v = Supported \<longleftrightarrow> (\<exists>adv \<in> set ADVERTISED. av_api_key adv = k
     \<and> (if k = 0 then 3 else sint (av_min_version adv)) \<le> sint v \<and> sint v \<le> sint (av_max_version adv))"
proof (cases "List.find (\<lambda>a. av_api_key a = k) ADVERTISED")
  case None
  then have "negotiate k v \<noteq> Supported"
    by (simp add: negotiate_def Let_def split: option.split)
  with None show ?thesis by (auto simp: find_None_iff)
next
  case (Some adv)
  then have adv: "adv \<in> set ADVERTISED" "av_api_key adv = k"
    by (simp_all add: find_key_unique [OF advertised_keys_distinct])
  have uniq: "x = adv" if "x \<in> set ADVERTISED" "av_api_key x = k" for x
    using Some that find_key_unique [OF advertised_keys_distinct, of k x] by simp
  obtain s where s: "List.find (\<lambda>a. as_key a = k) SCHEMA_APIS = Some s"
      "sint (vr_min (as_valid s)) \<le> sint (av_min_version adv) \<or> k = 0 \<and> vr_min (as_valid s) = 3"
      "sint (av_max_version adv) \<le> sint (vr_max (as_valid s))"
    using advertised_schema [OF adv(1)] adv(2) by metis
  have row: "(\<exists>a \<in> set ADVERTISED. av_api_key a = k \<and> P a) \<longleftrightarrow> P adv" for P
    using adv uniq by metis
  have served: "negotiate k v = Supported \<longleftrightarrow> sint (av_min_version adv) \<le> sint v
      \<and> sint v \<le> sint (av_max_version adv) \<and> vr_contains (as_valid s) v"
    unfolding negotiate_def Some s(1) Let_def by simp
  show ?thesis
  proof (cases "k = 0")
    case True
    with Some s(1) have "adv = AV 0 0 13" and "s = AS 0 ''Produce'' (VR 3 13) (VR 9 32767) False"
      by (simp_all only: produce_rows option.inject)
    with True show ?thesis
      unfolding row served by (auto simp: vr_contains_def AV_def AS_def VR_def)
  next
    case False
    with s(2,3) show ?thesis
      unfolding row served vr_contains_def by auto
  qed
qed

lemma request_header_decode_peek:
  assumes "request_header_decode hv buf = Inr (h, rest)"
  shows "peek_api buf = Inr (api_key h, api_version h)"
proof -
  from assms obtain b1 b2 b3 c where k: "get_i16 buf = Inr (api_key h, b1)"
    and v: "get_i16 b1 = Inr (api_version h, b2)"
    by (auto simp: request_header_decode_def pbind_eq_Inr preturn_def)
  then have "2 \<le> length buf" "b1 = drop 2 buf" "2 \<le> length b1"
      "from_be (take 2 buf) = api_key h" "from_be (take 2 b1) = api_version h"
    by (auto simp: get_i16_def read_prim_def pbind_def need_def split: if_splits)
  then obtain a b c d r where "buf = a # b # c # d # r"
    by (metis (no_types) length_drop numeral_2_eq_2 Suc_le_length_iff drop0 drop_Suc_Cons)
  with k v show ?thesis
    by (auto simp: get_i16_def read_prim_def pbind_def need_def peek_api_def eval_nat_numeral
        split: if_splits)
qed

subsection \<open>Properties of the primitives\<close>

text \<open>An unsigned varint survives the wire: reading what \<open>put_uvarint\<close> wrote gives the value
  back and leaves what follows it, and it occupies exactly the bytes \<open>uvarint_size\<close> announces,
  at most five.\<close>

theorem uvarint_roundtrip:
  "put_uvarint buf v = buf @ put_uvarint [] v
   \<and> get_uvarint (put_uvarint [] v @ rest) = Inr (v, rest)
   \<and> length (put_uvarint [] v) = uvarint_size v \<and> uvarint_size v \<le> 5"
proof -
  have "unat v < 128 ^ 5"
    using unsigned_less [where 'a = nat, of v] by simp
  then show ?thesis
    using leb128_length [of "unat v" 5] by (simp add: put_uvarint_leb uvarint_size_leb)
qed

text \<open>\<open>get_uvarint\<close> consumes between one and five bytes when it succeeds, and fails only as
  truncated or as malformed.\<close>

theorem get_uvarint_total:
  "case get_uvarint buf of
     Inl e \<Rightarrow> e \<in> {Truncated 1 0, MalformedVarint}
   | Inr (v, rest) \<Rightarrow> (\<exists>w. buf = w @ rest \<and> 0 < length w \<and> length w \<le> 5)"
proof (cases "get_uvarint buf")
  case (Inl e)
  then show ?thesis
    using get_uvarint_from_errors [of "[0..<5]" 0 buf e] by (simp add: get_uvarint_def)
next
  case (Inr r)
  then show ?thesis
    using get_uvarint_consumes [of buf "fst r" "snd r"] by (cases r) simp
qed

text \<open>A nullable string whose bytes are UTF-8 and whose length the encoding's prefix can carry
  is written, occupies exactly \<open>nullable_string_size\<close> bytes, and is read back.\<close>

theorem nullable_string_roundtrip:
  assumes "nullable_string_ok flexible v"
  shows "\<exists>w. put_nullable_string buf v flexible = Inr (buf @ w)
     \<and> length w = nullable_string_size v flexible
     \<and> get_nullable_string flexible (w @ rest) = Inr (v, rest)"
  using nullable_string.law [OF assms] by blast

theorem nullable_string_roundtrip_witness:
  "\<exists>w. put_nullable_string [7] (Some [0xC3, 0xA9, 0x21]) True = Inr ([7] @ w)
     \<and> length w = nullable_string_size (Some [0xC3, 0xA9, 0x21]) True
     \<and> get_nullable_string True (w @ [1, 2]) = Inr (Some [0xC3, 0xA9, 0x21], [1, 2])"
  by (rule nullable_string_roundtrip) code_simp

text \<open>A length prefix a peer sends is never read as more than \<open>MAX_LENGTH\<close>, and reading it
  consumes one to five bytes.\<close>

theorem get_len_bounded:
  assumes "get_len flexible wide buf = Inr (Some n, rest)"
  shows "int n \<le> MAX_LENGTH \<and> (\<exists>w. buf = w @ rest \<and> 0 < length w \<and> length w \<le> 5)"
  using get_len_Inr [OF assms] by simp

theorem get_len_bounded_witness:
  "int 300 \<le> MAX_LENGTH \<and> (\<exists>w. [0xAD, 0x02, 9 :: u8] = w @ [9] \<and> 0 < length w \<and> length w \<le> 5)"
  by (rule get_len_bounded [of True False]) code_simp

subsection \<open>Properties of framing and negotiation\<close>

text \<open>C32: Bodies framed one after another onto a connection are taken off it again as the same
  bodies, in order, with nothing left over.\<close>

theorem frames_roundtrip:
  assumes "\<forall>b \<in> set bodies. length b \<le> max_bytes" and "max_bytes \<le> 2147483647"
  shows "\<exists>out. write_frames [] bodies = Inr out \<and> frames_of out max_bytes = (bodies, Inr [])"
proof -
  from assms have "\<forall>b \<in> set bodies. length b \<le> 2147483647" by force
  then show ?thesis
    using write_frames_wire [of bodies "[]"] frames_of_wire [OF assms] by simp
qed

theorem frames_roundtrip_witness:
  "\<exists>out. write_frames [] [[1, 2, 3], [], [4]] = Inr out
     \<and> frames_of out DEFAULT_MAX_REQUEST_BYTES = ([[1, 2, 3], [], [4]], Inr [])"
  by (rule frames_roundtrip) (simp_all add: DEFAULT_MAX_REQUEST_BYTES_def)

text \<open>C33: How the network splits a byte stream does not matter: serving what one read delivered and
  then the remainder joined with the next read gives the frames, and the outcome, of serving both
  at once.\<close>

theorem frames_split_anywhere:
  assumes "frames_of buf max_bytes = (fs, Inr rest)"
  shows "frames_of (buf @ extra) max_bytes =
     (let (fs', outcome) = frames_of (rest @ extra) max_bytes in (fs @ fs', outcome))"
  using frames_of_chunks [OF assms] .

theorem frames_split_anywhere_witness:
  "frames_of ([0, 0, 0, 1, 5, 0, 0] @ [0, 2, 8, 9]) 10 =
     (let (fs', outcome) = frames_of ([0, 0] @ [0, 2, 8, 9]) 10 in ([[5]] @ fs', outcome))"
  by (rule frames_split_anywhere) code_simp

text \<open>C34: A request is served exactly when its key is advertised with a range that holds its
  version; Produce alone is advertised from 0 and served from 3, the first version the schema
  has.\<close>

theorem negotiate_supported_iff:
  "negotiate k v = Supported \<longleftrightarrow> (\<exists>adv \<in> set ADVERTISED. av_api_key adv = k
     \<and> (if k = 0 then 3 else sint (av_min_version adv)) \<le> sint v \<and> sint v \<le> sint (av_max_version adv))"
  by (rule negotiate_supported)

subsection \<open>Properties of headers\<close>

text \<open>C35: A request header is written, occupies exactly the announced bytes, is read back with what
  follows it untouched, and its first four bytes give \<open>peek_api\<close> the key and version of the header
  before the header version is known.\<close>

theorem request_header_roundtrip:
  assumes "request_header_ok hv h"
  shows "\<exists>w. request_header_encode h buf hv = Inr (buf @ w) \<and> length w = request_header_size h hv
     \<and> request_header_decode hv (w @ rest) = Inr (h, rest)
     \<and> peek_api (w @ rest) = Inr (api_key h, api_version h)"
proof -
  obtain w where w: "\<forall>buf. request_header_encode h buf hv = Inr (buf @ w)"
      "length w = request_header_size h hv" "\<forall>rest. request_header_decode hv (w @ rest) = Inr (h, rest)"
    using request_header.law [OF assms] by blast
  with request_header_decode_peek [of hv "w @ rest" h rest] show ?thesis by blast
qed

theorem request_header_roundtrip_witness:
  "let h = \<lparr>api_key = 1, api_version = 12, correlation_id = 77, client_id = Some [0x61, 0x62],
        unknown_tagged_fields = [\<lparr>tag = 0, data = [1, 2]\<rparr>, \<lparr>tag = 300, data = []\<rparr>]\<rparr> in
   \<exists>w. request_header_encode h [9] 2 = Inr ([9] @ w) \<and> length w = request_header_size h 2
     \<and> request_header_decode 2 (w @ [5]) = Inr (h, [5])
     \<and> peek_api (w @ [5]) = Inr (api_key h, api_version h)"
  unfolding Let_def by (rule request_header_roundtrip)
    (simp add: request_header_ok_def nullable_string_ok_def tagged_ok_def len_ok_def MAX_LENGTH_def)

text \<open>A response header round-trips, and the header version chosen for ApiVersions is always 0,
  so that a client of any version can read the reply.\<close>

theorem response_header_roundtrip:
  assumes "response_header_ok hv h"
  shows "(\<exists>w. response_header_encode h buf hv = Inr (buf @ w) \<and> length w = response_header_size h hv
     \<and> response_header_decode hv (w @ rest) = Inr (h, rest))
     \<and> response_header_version API_VERSIONS_KEY v = Inr 0"
  using response_header.law [OF assms] by (auto simp: response_header_version_def)

theorem response_header_roundtrip_witness:
  "let h = \<lparr>resp_correlation_id = 77, resp_unknown_tagged_fields = [\<lparr>tag = 4, data = [1]\<rparr>]\<rparr> in
   (\<exists>w. response_header_encode h [] 1 = Inr ([] @ w) \<and> length w = response_header_size h 1
     \<and> response_header_decode 1 (w @ [5]) = Inr (h, [5]))
   \<and> response_header_version API_VERSIONS_KEY 4 = Inr 0"
  unfolding Let_def by (rule response_header_roundtrip) (simp add: response_header_ok_def tagged_ok_def)

text \<open>C36: Every tagged-field section the decoder accepts is canonical: its tags strictly ascend, so
  none is repeated, and the decoder stops exactly where the section ends.\<close>

theorem decode_tagged_canonical:
  assumes "decode_tagged buf = Inr (fs, rest)"
  shows "sorted_wrt (<) (map tag fs) \<and> distinct (map tag fs) \<and> tagged_ok fs \<and> (\<exists>w. buf = w @ rest)"
proof -
  from assms obtain n b1 where n: "get_uvarint buf = Inr (n, b1)"
    and d: "decode_tagged_from (unat n) None [] b1 = Inr (fs, rest)"
    by (auto simp: decode_tagged_def pbind_eq_Inr)
  from decode_tagged_from_sound [OF d] obtain w where w: "b1 = w @ rest" "length fs = unat n"
      "sorted_wrt (<) (map tag fs)" "\<forall>f \<in> set fs. length (data f) < 2 ^ 32" by auto
  moreover have "\<exists>w. buf = w @ rest"
    using get_uvarint_consumes [OF n] w(1) by auto
  ultimately show ?thesis
    using unsigned_less [where 'a = nat, of n] strict_sorted_iff [of "map tag fs"]
    by (simp add: tagged_ok_def)
qed

theorem decode_tagged_canonical_witness:
  "let fs = [\<lparr>tag = 0, data = [9]\<rparr>, \<lparr>tag = 5, data = []\<rparr>] in
   sorted_wrt (<) (map tag fs) \<and> distinct (map tag fs) \<and> tagged_ok fs
   \<and> (\<exists>w. [2, 0, 1, 9, 5, 0, 8 :: u8] = w @ [8])"
  unfolding Let_def by (rule decode_tagged_canonical) code_simp

subsection \<open>Properties of record batches\<close>

text \<open>C21: Stamping a validated batch sets its base offset and leader epoch and nothing else. The
  length, every byte from the magic on and so the CRC's coverage are those the producer sent, and
  the stamped batch validates without the CRC being computed again.\<close>

theorem stamp_preserves:
  assumes "validated crc bs = Inr vb"
  shows "let s = stamp vb off ep in
     base_offset (stamped_view s) = off \<and> partition_leader_epoch (stamped_view s) = ep
     \<and> length (stamped_bytes s) = length bs
     \<and> batch_length (stamped_view s) = batch_length (RecordBatch bs)
     \<and> drop MAGIC_OFFSET (stamped_bytes s) = drop MAGIC_OFFSET bs
     \<and> validated crc (stamped_bytes s) = Inr (ValidatedBatch (stamped_view s))"
proof -
  from assms have vb: "vb = ValidatedBatch (RecordBatch bs)" and len: "61 \<le> length bs"
    by (simp_all add: validated_Inr_iff batch_wf_iff)
  then show ?thesis
    using stamp_base_offset [OF len] stamp_leader_epoch [OF len] stamp_validated [OF assms]
      stamp_drop [OF len, of 16] stamp_length_field [OF len]
    by (simp add: Let_def batch_length_def stamped_view_def batch_layout)
qed

definition sample_batch :: bytes where
  "sample_batch = replicate 8 0 @ [0, 0, 0, 49] @ replicate 4 0 @ [2] @ [0, 0, 0, 40] @ replicate 40 0"

theorem stamp_preserves_witness:
  "let crc = (\<lambda>d. word_of_nat (length d)); s = stamp (ValidatedBatch (RecordBatch sample_batch)) 1000 7 in
     base_offset (stamped_view s) = 1000 \<and> partition_leader_epoch (stamped_view s) = 7
     \<and> length (stamped_bytes s) = length sample_batch
     \<and> batch_length (stamped_view s) = batch_length (RecordBatch sample_batch)
     \<and> drop MAGIC_OFFSET (stamped_bytes s) = drop MAGIC_OFFSET sample_batch
     \<and> validated crc (stamped_bytes s) = Inr (ValidatedBatch (stamped_view s))"
proof -
  have "validated (\<lambda>d. word_of_nat (length d)) sample_batch = Inr (ValidatedBatch (RecordBatch sample_batch))"
    by code_simp
  from stamp_preserves [OF this, of 1000 7] show ?thesis by (simp only: Let_def)
qed

text \<open>C22: Walking a \<open>records\<close> blob that is well-formed batches laid end to end gives exactly those
  batches; and a blob whose walk meets no error is exactly the batches it gave, end to end.\<close>

theorem batch_iter_exact:
  "batch_iter blob = map Inr bs \<longleftrightarrow>
     list_all batch_wf bs \<and> concat (map batch_bytes bs) = blob"
proof
  assume "batch_iter blob = map Inr bs"
  from batch_iter_lossless [OF this] show "list_all batch_wf bs \<and> concat (map batch_bytes bs) = blob"
    by (simp add: list_all_iff)
next
  assume "list_all batch_wf bs \<and> concat (map batch_bytes bs) = blob"
  then show "batch_iter blob = map Inr bs"
    using batch_iter_concat [of "map batch_bytes bs"] by (auto simp: list_all_iff comp_def)
qed

end
