(* ===== verification/RecordCodec.thy ===== *)
theory RecordCodec
  imports RecordBatch
begin

text \<open>
  The records inside a batch (\<open>src/codec/src/records.rs\<close>): zigzag varints, decompression with its
  size caps, the two byte sources a decoder reads from (a buffer, or a decompressing stream), the
  record iterator with its cross-check of the declared count, and the batch builders.

  Compression codecs, the CRC and the in-memory size of a header entry belong to other crates and
  are the fields of a \<open>codec_env\<close>. A decompressor is the bytes it yields and whether it then
  fails; what \<open>BufReader\<close> and \<open>TotalCap\<close> have delivered when the total cap trips depends on how the
  decompressor chunks its output, so it is a field too.
\<close>

record codec_env =
  crc32c :: "bytes \<Rightarrow> u32"
  gz_decode :: "bytes \<Rightarrow> bytes \<times> bool"
  lz4_decode :: "bytes \<Rightarrow> bytes \<times> bool"
  zstd_decode :: "bytes \<Rightarrow> (bytes \<times> bool) option"
  snap_len :: "bytes \<Rightarrow> nat option"
  snap_decode :: "bytes \<Rightarrow> bytes option"
  capped_prefix :: "bytes \<Rightarrow> nat"
  header_entry_size :: nat

subsection \<open>Zigzag varints\<close>

definition zigzag_i64 :: "i64 \<Rightarrow> u64" where
  "zigzag_i64 v = push_bit 1 v XOR signed_drop_bit 63 v"

function put_varint_u64 :: "bytes \<Rightarrow> u64 \<Rightarrow> bytes" where
  "put_varint_u64 buf v =
     (if v \<ge> 0x80 then put_varint_u64 (buf @ [ucast v OR 0x80]) (drop_bit 7 v)
      else buf @ [ucast v])"
  by pat_completeness auto
termination
  by (relation "measure (\<lambda>(buf, v). unat v)") (auto simp: unat_drop_7 word_le_nat_alt)

declare put_varint_u64.simps [simp del]

definition put_varint_i64 :: "bytes \<Rightarrow> i64 \<Rightarrow> bytes" where
  "put_varint_i64 buf v = put_varint_u64 buf (zigzag_i64 v)"

definition put_varint_i32 :: "bytes \<Rightarrow> i32 \<Rightarrow> bytes" where
  "put_varint_i32 buf v = put_varint_i64 buf (scast v)"

subsection \<open>Decompression\<close>

definition MAX_DECOMPRESSED_BYTES :: nat where
  "MAX_DECOMPRESSED_BYTES = 64 * 1024 * 1024"

definition MAX_STREAMED_BYTES :: nat where
  "MAX_STREAMED_BYTES = 1024 * 1024 * 1024"

definition XERIAL_MAGIC :: bytes where
  "XERIAL_MAGIC = [0x82, 0x53, 0x4e, 0x41, 0x50, 0x50, 0x59, 0x00]"

text \<open>What a reader yields, and the error it then ends in, if any.\<close>

type_synonym stream = "bytes \<times> batch_error option"

definition stream_of :: "i16 \<Rightarrow> bytes \<times> bool \<Rightarrow> stream" where
  "stream_of codec r = (fst r, if snd r then Some (Decompression codec) else None)"

definition decompress_snappy_block :: "codec_env \<Rightarrow> bytes \<Rightarrow> batch_error + bytes" where
  "decompress_snappy_block env payload =
     (case snap_len env payload of
        None \<Rightarrow> Inl (Decompression 2)
      | Some declared \<Rightarrow>
          if declared > MAX_DECOMPRESSED_BYTES then Inl DecompressedTooLarge
          else (case snap_decode env payload of
                  None \<Rightarrow> Inl (Decompression 2)
                | Some block \<Rightarrow> Inr block))"

text \<open>\<open>XerialReader::next_block\<close> at \<open>pos\<close>: \<open>None\<close> at the end of the payload, else the decoded block
  and the position after it.\<close>

definition xerial_next_block :: "codec_env \<Rightarrow> bytes \<Rightarrow> nat \<Rightarrow> batch_error + (bytes \<times> nat) option" where
  "xerial_next_block env payload pos =
     (if pos \<ge> length payload then Inr None
      else if pos + 4 > length payload then Inl (Decompression 2)
      else let len = sint (from_be (sub_range pos 4 payload) :: i32); pos = pos + 4 in
        if len < 0 then Inl (Decompression 2)
        else if pos + nat len > length payload then Inl (Decompression 2)
        else let chunk = sub_range pos (nat len) payload; pos = pos + nat len in
          (case snap_len env chunk of
             None \<Rightarrow> Inl (Decompression 2)
           | Some declared \<Rightarrow>
               if declared > MAX_DECOMPRESSED_BYTES then Inl DecompressedTooLarge
               else (case snap_decode env chunk of
                       None \<Rightarrow> Inl (Decompression 2)
                     | Some block \<Rightarrow> Inr (Some (block, pos)))))"

lemma xerial_next_block_advances:
  "xerial_next_block env payload pos = Inr (Some (block, pos')) \<Longrightarrow> pos < pos' \<and> pos' \<le> length payload"
  by (auto simp: xerial_next_block_def Let_def split: if_splits option.splits)

function xerial_read :: "codec_env \<Rightarrow> bytes \<Rightarrow> nat \<Rightarrow> stream" where
  "xerial_read env payload pos =
     (case xerial_next_block env payload pos of
        Inl e \<Rightarrow> ([], Some e)
      | Inr None \<Rightarrow> ([], None)
      | Inr (Some (block, pos')) \<Rightarrow>
          (let (rest, err) = xerial_read env payload pos' in (block @ rest, err)))"
  by pat_completeness auto
termination
  by (relation "measure (\<lambda>(env, payload, pos). length payload - pos)")
    (auto dest!: xerial_next_block_advances)

declare xerial_read.simps [simp del]

definition decoder :: "codec_env \<Rightarrow> i16 \<Rightarrow> bytes \<Rightarrow> batch_error + stream" where
  "decoder env codec payload =
     (if codec = 1 then Inr (stream_of codec (gz_decode env payload))
      else if codec = 2 \<and> take (length XERIAL_MAGIC) payload = XERIAL_MAGIC then
        (if length XERIAL_MAGIC + 8 > length payload then Inl (Decompression 2)
         else Inr (xerial_read env payload (length XERIAL_MAGIC + 8)))
      else if codec = 2 then rbind (decompress_snappy_block env payload) (\<lambda>b. Inr (b, None))
      else if codec = 3 then Inr (stream_of codec (lz4_decode env payload))
      else if codec = 4 then
        (case zstd_decode env payload of
           None \<Rightarrow> Inl (Decompression codec)
         | Some r \<Rightarrow> Inr (stream_of codec r))
      else Inl (Compressed codec))"

definition bounded_read :: "stream \<Rightarrow> batch_error + bytes" where
  "bounded_read r =
     (if length (fst r) > MAX_DECOMPRESSED_BYTES then Inl DecompressedTooLarge
      else (case snd r of Some e \<Rightarrow> Inl e | None \<Rightarrow> Inr (fst r)))"

definition decompress :: "codec_env \<Rightarrow> i16 \<Rightarrow> bytes \<Rightarrow> batch_error + bytes" where
  "decompress env codec payload = rbind (decoder env codec payload) bounded_read"

definition total_cap :: "codec_env \<Rightarrow> stream \<Rightarrow> stream" where
  "total_cap env r =
     (if length (fst r) > MAX_STREAMED_BYTES
      then (take (min (capped_prefix env (fst r)) MAX_STREAMED_BYTES) (fst r), Some DecompressedTooLarge)
      else r)"

subsection \<open>Byte sources\<close>

datatype source =
    Mem bytes nat
  | Stream bytes "batch_error option" nat

fun src_pos :: "source \<Rightarrow> nat" where
  "src_pos (Mem buf pos) = pos"
| "src_pos (Stream d err pos) = pos"

fun src_fits :: "source \<Rightarrow> nat \<Rightarrow> bool" where
  "src_fits (Mem buf pos) stop \<longleftrightarrow> stop \<le> length buf"
| "src_fits (Stream d err pos) stop \<longleftrightarrow> True"

fun is_stream :: "source \<Rightarrow> bool" where
  "is_stream (Mem buf pos) = False"
| "is_stream (Stream d err pos) = True"

fun src_at_end :: "source \<Rightarrow> batch_error + bool" where
  "src_at_end (Mem buf pos) = Inr (pos \<ge> length buf)"
| "src_at_end (Stream (b # d) err pos) = Inr False"
| "src_at_end (Stream [] (Some e) pos) = Inl e"
| "src_at_end (Stream [] None pos) = Inr True"

fun src_byte :: "source \<Rightarrow> batch_error + (u8 option \<times> source)" where
  "src_byte (Mem buf pos) =
     Inr (if pos < length buf then (Some (buf ! pos), Mem buf (pos + 1)) else (None, Mem buf pos))"
| "src_byte (Stream (b # d) err pos) = Inr (Some b, Stream d err (pos + 1))"
| "src_byte (Stream [] (Some e) pos) = Inl e"
| "src_byte (Stream [] None pos) = Inr (None, Stream [] None pos)"

fun src_bytes :: "nat \<Rightarrow> bool \<Rightarrow> source \<Rightarrow> batch_error + (bytes option \<times> source)" where
  "src_bytes n keep (Mem buf pos) =
     Inr (if pos + n \<le> length buf then (Some (sub_range pos n buf), Mem buf (pos + n))
          else (None, Mem buf pos))"
| "src_bytes n keep (Stream d err pos) =
     (if keep \<and> n > MAX_DECOMPRESSED_BYTES then Inl DecompressedTooLarge
      else if n \<le> length d
        then Inr (Some (if keep then take n d else []), Stream (drop n d) err (pos + n))
      else (case err of
              Some e \<Rightarrow> Inl e
            | None \<Rightarrow> Inr (None, Stream [] None (pos + length d))))"

definition unzigzag :: "'a::len word \<Rightarrow> 'a word" where
  "unzigzag r = drop_bit 1 r XOR - (r AND 1)"

text \<open>The loop \<open>varint_i32\<close> and \<open>varint_i64\<close> share but for the width of \<open>result\<close>, over the shifts
  still to come. \<open>wrapping_shl\<close> shifts by less than the width here, so it is a plain shift.\<close>

fun varint_from :: "nat list \<Rightarrow> 'a::len word \<Rightarrow> nat \<Rightarrow> source \<Rightarrow> batch_error + ('a word option \<times> source)" where
  "varint_from [] result stop = preturn None"
| "varint_from (shift # shifts) result stop = (\<lambda>s.
     if src_pos s \<ge> stop then preturn None s
     else pbind src_byte (\<lambda>b. case b of
       None \<Rightarrow> preturn None
     | Some byte \<Rightarrow>
         let result = result OR push_bit shift (ucast (byte AND 0x7f)) in
         if byte AND 0x80 = 0 then preturn (Some (unzigzag result))
         else varint_from shifts result stop) s)"

definition varint_i32 :: "nat \<Rightarrow> source \<Rightarrow> batch_error + (i32 option \<times> source)" where
  "varint_i32 = varint_from [0, 7, 14, 21, 28] (0 :: u32)"

definition varint_i64 :: "nat \<Rightarrow> source \<Rightarrow> batch_error + (i64 option \<times> source)" where
  "varint_i64 = varint_from [0, 7, 14, 21, 28, 35, 42, 49, 56, 63] (0 :: u64)"

subsection \<open>Records\<close>

record record_ref =
  rec_offset_delta :: i32
  rec_timestamp_delta :: i64
  rec_key :: "bytes option"
  rec_value :: "bytes option"
  rec_headers :: "(bytes \<times> bytes option) list"
  rec_attributes :: i8

record record_key =
  rk_offset_delta :: i32
  rk_key :: "bytes option"

record record_iter =
  it_src :: source
  it_remaining :: i32
  it_declared :: i32
  it_done :: bool
  it_full :: bool

definition USIZE_MAX :: nat where
  "USIZE_MAX = 2 ^ 64 - 1"

text \<open>\<open>?.ok_or_else(fail)?\<close>: an absent value is the error \<open>e\<close>.\<close>

definition ok_or :: "batch_error \<Rightarrow> (source \<Rightarrow> batch_error + ('a option \<times> source)) \<Rightarrow>
    source \<Rightarrow> batch_error + ('a \<times> source)" where
  "ok_or e p = pbind p (\<lambda>r. case r of None \<Rightarrow> pfail e | Some x \<Rightarrow> preturn x)"

definition read_len :: "nat \<Rightarrow> source \<Rightarrow> batch_error + (i32 \<times> source)" where
  "read_len stop s = ok_or (TruncatedRecord (src_pos s)) (varint_i32 stop) s"

text \<open>\<open>len\<close> is not negative at any call.\<close>

definition read_bytes :: "nat \<Rightarrow> i32 \<Rightarrow> bool \<Rightarrow> source \<Rightarrow> batch_error + (bytes \<times> source)" where
  "read_bytes stop len keep s =
     (let at = src_pos s; n = nat (sint len) in
      if at + n > USIZE_MAX \<or> at + n > stop then Inl (TruncatedRecord at)
      else ok_or (TruncatedRecord at) (src_bytes n keep) s)"

definition read_field :: "nat \<Rightarrow> bool \<Rightarrow> source \<Rightarrow> batch_error + (bytes option \<times> source)" where
  "read_field stop keep = pbind (read_len stop) (\<lambda>len.
     if sint len < 0 then preturn None
     else pbind (read_bytes stop len keep) (\<lambda>b. preturn (Some b)))"

text \<open>The \<open>for _ in 0..header_count\<close> loop of \<open>next_record\<close>; \<open>at\<close> is where the record started.\<close>

fun read_headers :: "nat \<Rightarrow> nat \<Rightarrow> nat \<Rightarrow> bool \<Rightarrow> (bytes \<times> bytes option) list \<Rightarrow>
    source \<Rightarrow> batch_error + ((bytes \<times> bytes option) list \<times> source)" where
  "read_headers at stop 0 full headers = preturn headers"
| "read_headers at stop (Suc n) full headers = (\<lambda>s.
     if src_pos s \<ge> stop then Inl (TruncatedRecord at)
     else pbind (read_len stop) (\<lambda>name_len.
       if sint name_len < 0 then pfail (NegativeLength ''header key length'' name_len)
       else pbind (read_bytes stop name_len full) (\<lambda>name.
         pbind (read_field stop full) (\<lambda>v.
           read_headers at stop n full (if full then headers @ [(name, v)] else headers)))) s)"

text \<open>The end of \<open>next_record\<close>: the fields must fill the declared extent.\<close>

definition close_record :: "nat \<Rightarrow> nat \<Rightarrow> i32 \<Rightarrow> record_ref \<Rightarrow> source \<Rightarrow> batch_error + (record_ref \<times> source)" where
  "close_record start stop len r s =
     (if src_pos s \<noteq> stop then Inl (RecordSizeMismatch len (src_pos s - start)) else Inr (r, s))"

definition record_fields :: "codec_env \<Rightarrow> bool \<Rightarrow> nat \<Rightarrow> nat \<Rightarrow> nat \<Rightarrow> i32 \<Rightarrow> source \<Rightarrow> batch_error + (record_ref \<times> source)" where
  "record_fields env full at start stop len =
     pbind (ok_or (TruncatedRecord at) src_byte) (\<lambda>attrs.
     pbind (ok_or (TruncatedRecord at) (varint_i64 stop)) (\<lambda>ts.
     pbind (ok_or (TruncatedRecord at) (varint_i32 stop)) (\<lambda>od.
     pbind (read_field stop True) (\<lambda>key.
     pbind (read_field stop full) (\<lambda>val.
     pbind (read_len stop) (\<lambda>header_count s.
       if sint header_count < 0 then Inl (NegativeLength ''header count'' header_count)
       else if full \<and> is_stream s
            \<and> nat (sint header_count) * header_entry_size env > MAX_DECOMPRESSED_BYTES
         then Inl DecompressedTooLarge
       else pbind (read_headers at stop (nat (sint header_count)) full []) (\<lambda>headers.
         close_record start stop len
           \<lparr>rec_offset_delta = od, rec_timestamp_delta = ts, rec_key = key, rec_value = val,
            rec_headers = headers, rec_attributes = attrs\<rparr>) s))))))"

definition next_record :: "codec_env \<Rightarrow> bool \<Rightarrow> source \<Rightarrow> batch_error + (record_ref \<times> source)" where
  "next_record env full s0 =
     (let at = src_pos s0 in
      pbind (ok_or (TruncatedRecord at) (varint_i32 USIZE_MAX)) (\<lambda>len s.
        if sint len < 0 then Inl (NegativeLength ''record length'' len)
        else if full \<and> is_stream s \<and> nat (sint len) > MAX_DECOMPRESSED_BYTES
          then Inl DecompressedTooLarge
        else let start = src_pos s; stop = start + nat (sint len) in
          if stop > USIZE_MAX \<or> \<not> src_fits s stop then Inl (TruncatedRecord at)
          else if start \<ge> stop then Inl (TruncatedRecord at)
          else record_fields env full at start stop len s) s0)"

text \<open>\<open>RecordIter::next\<close>. After an error the iterator is done, so its source is never read again
  and the model leaves it where it was.\<close>

definition record_iter_next :: "codec_env \<Rightarrow> record_iter \<Rightarrow> (batch_error + record_ref) option \<times> record_iter" where
  "record_iter_next env it =
     (if it_done it then (None, it)
      else case src_at_end (it_src it) of
        Inl e \<Rightarrow> (Some (Inl e), it\<lparr>it_done := True\<rparr>)
      | Inr True \<Rightarrow>
          (if it_remaining it \<noteq> 0
           then (Some (Inl (RecordCountMismatch (it_declared it) (unat (it_declared it - it_remaining it)))),
                 it\<lparr>it_done := True\<rparr>)
           else (None, it\<lparr>it_done := True\<rparr>))
      | Inr False \<Rightarrow>
          (if it_remaining it = 0
           then (Some (Inl (RecordCountMismatch (it_declared it) (unat (it_declared it) + 1))),
                 it\<lparr>it_done := True\<rparr>)
           else let it = it\<lparr>it_remaining := it_remaining it - 1\<rparr> in
             (case next_record env (it_full it) (it_src it) of
                Inl e \<Rightarrow> (Some (Inl e), it\<lparr>it_done := True\<rparr>)
              | Inr (r, s) \<Rightarrow> (Some (Inr r), it\<lparr>it_src := s\<rparr>))))"

definition iter_budget :: "record_iter \<Rightarrow> nat" where
  "iter_budget it = (if it_done it then 0 else Suc (unat (it_remaining it)))"

lemma record_iter_next_decreases:
  assumes "record_iter_next env it = (Some r, it')"
  shows "iter_budget it' < iter_budget it"
proof -
  have "unat (it_remaining it - 1) < unat (it_remaining it)" if "it_remaining it \<noteq> 0"
    using that by (simp add: unat_gt_0 unat_minus_one)
  with assms show ?thesis
    by (auto simp: record_iter_next_def iter_budget_def Let_def split: if_splits sum.splits bool.splits)
qed

text \<open>Everything the iterator yields.\<close>

function record_iter_all :: "codec_env \<Rightarrow> record_iter \<Rightarrow> (batch_error + record_ref) list" where
  "record_iter_all env it =
     (case record_iter_next env it of
        (None, it') \<Rightarrow> []
      | (Some r, it') \<Rightarrow> r # record_iter_all env it')"
  by pat_completeness auto
termination
  by (relation "measure (\<lambda>(env, it). iter_budget it)") (auto dest: record_iter_next_decreases [OF sym])

declare record_iter_all.simps [simp del]

text \<open>\<open>for record in iter { let record = record?; ... }\<close>: the records, or the first error.\<close>

fun collect_results :: "('e + 'a) list \<Rightarrow> 'e + 'a list" where
  "collect_results [] = Inr []"
| "collect_results (Inl e # rs) = Inl e"
| "collect_results (Inr x # rs) = rbind (collect_results rs) (\<lambda>xs. Inr (x # xs))"

definition key_of_record :: "record_ref \<Rightarrow> record_key" where
  "key_of_record r = \<lparr>rk_offset_delta = rec_offset_delta r, rk_key = rec_key r\<rparr>"

definition key_iter_next :: "codec_env \<Rightarrow> record_iter \<Rightarrow> (batch_error + record_key) option \<times> record_iter" where
  "key_iter_next env it =
     (let (item, it) = record_iter_next env it in
      (map_option (map_sum id key_of_record) item, it))"

definition record_iter_of :: "record_batch \<Rightarrow> source \<Rightarrow> bool \<Rightarrow> batch_error + record_iter" where
  "record_iter_of b src full =
     (let count = record_count b in
      if sint count < 0 then Inl (NegativeExtent ''recordCount'' count)
      else Inr \<lparr>it_src = src, it_remaining = count, it_declared = count, it_done = False, it_full = full\<rparr>)"

definition records :: "record_batch \<Rightarrow> batch_error + record_iter" where
  "records b =
     (let codec = compression_type b in
      if codec \<noteq> 0 then Inl (Compressed codec)
      else record_iter_of b (Mem (batch_bytes b) RECORD_BATCH_OVERHEAD) True)"

definition records_decompressed :: "codec_env \<Rightarrow> record_batch \<Rightarrow> batch_error + record_iter" where
  "records_decompressed env b =
     (let codec = compression_type b in
      if codec = 0 then records b
      else rbind (decompress env codec (drop RECORD_BATCH_OVERHEAD (batch_bytes b))) (\<lambda>plain.
        record_iter_of b (Mem plain 0) True))"

definition streamed :: "codec_env \<Rightarrow> record_batch \<Rightarrow> bool \<Rightarrow> batch_error + record_iter" where
  "streamed env b full =
     (let codec = compression_type b in
      if codec = 0 then record_iter_of b (Mem (batch_bytes b) RECORD_BATCH_OVERHEAD) full
      else rbind (decoder env codec (drop RECORD_BATCH_OVERHEAD (batch_bytes b))) (\<lambda>inner.
        let (d, err) = total_cap env inner in record_iter_of b (Stream d err 0) full))"

definition stream_records :: "codec_env \<Rightarrow> record_batch \<Rightarrow> batch_error + record_iter" where
  "stream_records env b = streamed env b True"

definition stream_keys :: "codec_env \<Rightarrow> record_batch \<Rightarrow> batch_error + record_iter" where
  "stream_keys env b = streamed env b False"

end
