(* ===== verification/BatchBuild.thy ===== *)
theory BatchBuild
  imports RecordCodec
begin

text \<open>
  Writing batches (the end of \<open>src/codec/src/records.rs\<close>): the batches the broker itself makes and
  the transaction markers, and the proof that the record iterator reads back from a batch exactly
  the records that were written into it. The code spells the header and the patching of length and
  CRC out in each builder; here they are \<open>batch_header\<close> and \<open>seal_batch\<close>.
\<close>

record new_record =
  nr_key :: "bytes option"
  nr_value :: "bytes option"
  nr_timestamp :: i64

definition CONTROL_BATCH_FLAG :: i16 where
  "CONTROL_BATCH_FLAG = 0x20"

definition END_TXN_MARKER_VALUE :: bytes where
  "END_TXN_MARKER_VALUE = [0, 0, 0, 0, 0, 0]"

definition put_opt_field :: "bytes \<Rightarrow> bytes option \<Rightarrow> bytes" where
  "put_opt_field buf f =
     (case f of
        Some k \<Rightarrow> put_varint_i32 buf (word_of_nat (length k)) @ k
      | None \<Rightarrow> put_varint_i32 buf (- 1))"

definition put_new_record :: "i64 \<Rightarrow> nat \<Rightarrow> new_record \<Rightarrow> bytes \<Rightarrow> bytes" where
  "put_new_record base_ts i r body =
     (let one = put_i8 [] 0;
          one = put_varint_i64 one (nr_timestamp r - base_ts);
          one = put_varint_i32 one (word_of_nat i);
          one = put_opt_field one (nr_key r);
          one = put_opt_field one (nr_value r);
          one = put_varint_i32 one 0
      in put_varint_i32 body (word_of_nat (length one)) @ one)"

text \<open>The \<open>for (i, rec) in records.iter().enumerate()\<close> loop.\<close>

primrec put_new_records :: "i64 \<Rightarrow> nat \<Rightarrow> new_record list \<Rightarrow> bytes \<Rightarrow> bytes" where
  "put_new_records base_ts i [] body = body"
| "put_new_records base_ts i (r # rs) body =
     put_new_records base_ts (Suc i) rs (put_new_record base_ts i r body)"

definition batch_header :: "i64 \<Rightarrow> i32 \<Rightarrow> i16 \<Rightarrow> i32 \<Rightarrow> i64 \<Rightarrow> i64 \<Rightarrow> i64 \<Rightarrow> i16 \<Rightarrow> i32 \<Rightarrow> i32 \<Rightarrow> bytes" where
  "batch_header base_off leader_epoch attrs last_delta base_ts max_ts pid pepoch bseq count =
     (let b = put_i64 [] base_off;
          b = put_i32 b 0;
          b = put_i32 b leader_epoch;
          b = put_i8 b MAGIC_V2;
          b = put_u32 b 0;
          b = put_i16 b attrs;
          b = put_i32 b last_delta;
          b = put_i64 b base_ts;
          b = put_i64 b max_ts;
          b = put_i64 b pid;
          b = put_i16 b pepoch;
          b = put_i32 b bseq;
          b = put_i32 b count
      in b)"

definition seal_batch :: "(bytes \<Rightarrow> u32) \<Rightarrow> bytes \<Rightarrow> bytes" where
  "seal_batch crc b =
     (let total = length b;
          batch_len = (word_of_nat (total - LENGTH_OFFSET - 4) :: i32);
          b = patch LENGTH_OFFSET (be_bytes 4 batch_len) b;
          c = crc (drop ATTRIBUTES_OFFSET b)
      in patch CRC_OFFSET (be_bytes 4 c) b)"

definition max_i64 :: "i64 \<Rightarrow> i64 \<Rightarrow> i64" where
  "max_i64 a b = (if sint a \<le> sint b then b else a)"

text \<open>\<open>None\<close> is the \<open>assert!\<close>: a batch with no records is not encodable.\<close>

definition build_batch_full :: "(bytes \<Rightarrow> u32) \<Rightarrow> new_record list \<Rightarrow> i64 \<Rightarrow> bool \<Rightarrow> bytes option" where
  "build_batch_full crc rs pid transactional =
     (case rs of
        [] \<Rightarrow> None
      | r # _ \<Rightarrow>
          let base_ts = nr_timestamp r;
              max_ts = foldl max_i64 base_ts (map nr_timestamp rs);
              body = put_new_records base_ts 0 rs [];
              b = batch_header 0 (- 1) (if transactional then TRANSACTIONAL_FLAG else 0)
                    (word_of_nat (length rs) - 1) base_ts max_ts pid (- 1) (- 1)
                    (word_of_nat (length rs))
          in Some (seal_batch crc (b @ body)))"

definition build_batch_as :: "(bytes \<Rightarrow> u32) \<Rightarrow> new_record list \<Rightarrow> i64 \<Rightarrow> bytes option" where
  "build_batch_as crc rs pid = build_batch_full crc rs pid False"

definition build_batch :: "(bytes \<Rightarrow> u32) \<Rightarrow> new_record list \<Rightarrow> bytes option" where
  "build_batch crc rs = build_batch_as crc rs (- 1)"

definition build_control_batch :: "(bytes \<Rightarrow> u32) \<Rightarrow> i64 \<Rightarrow> i16 \<Rightarrow> bool \<Rightarrow> bytes" where
  "build_control_batch crc pid pepoch commit =
     (let key = put_i16 (put_i16 [] 0) (if commit then 1 else 0);
          one = put_i8 [] 0;
          one = put_varint_i64 one 0;
          one = put_varint_i32 one 0;
          one = put_varint_i32 one (word_of_nat (length key)) @ key;
          one = put_varint_i32 one (word_of_nat (length END_TXN_MARKER_VALUE)) @ END_TXN_MARKER_VALUE;
          one = put_varint_i32 one 0;
          body = put_varint_i32 [] (word_of_nat (length one)) @ one;
          b = batch_header 0 (- 1) (TRANSACTIONAL_FLAG OR CONTROL_BATCH_FLAG) 0 0 0 pid pepoch (- 1) 1
      in seal_batch crc (b @ body))"

subsection \<open>Varints in records\<close>

lemma put_varint_u64_leb: "put_varint_u64 buf v = buf @ leb128 (unat v)"
proof (induction buf v rule: put_varint_u64.induct)
  case (1 buf v)
  show ?case
  proof (cases "v \<ge> 0x80")
    case True
    then have "\<not> unat v < 128" by (simp add: word_le_nat_alt)
    with True "1.IH" show ?thesis
      by (simp add: put_varint_u64.simps [of buf v] leb128.simps [of "unat v"] unat_drop_7 leb_cont_or)
  next
    case False
    then have "unat v < 128" by (simp add: word_le_nat_alt)
    moreover have "ucast v = (word_of_nat (unat v) :: u8)" by simp
    ultimately show ?thesis
      using False by (simp add: put_varint_u64.simps [of buf v] leb128.simps)
  qed
qed

definition zz64 :: "i64 \<Rightarrow> nat" where
  "zz64 v = unat (zigzag_i64 v)"

definition zz32 :: "i32 \<Rightarrow> nat" where
  "zz32 v = zz64 (scast v)"

lemma put_varint_i64_leb: "put_varint_i64 buf v = buf @ leb128 (zz64 v)"
  by (simp add: put_varint_i64_def zz64_def put_varint_u64_leb)

lemma put_varint_i32_leb: "put_varint_i32 buf v = buf @ leb128 (zz32 v)"
  by (simp add: put_varint_i32_def zz32_def put_varint_i64_leb)

lemma minus_low_bit: "- (w AND 1) = (if bit w 0 then - 1 else 0 :: 'a::len word)"
  by (simp add: and_one_eq mod_2_eq_odd bit_0)

lemma bit_zigzag: "bit (zigzag_i64 v) n \<longleftrightarrow> n < 64 \<and> ((0 < n \<and> bit v (n - 1)) \<noteq> bit v 63)"
proof -
  have "bit (signed_drop_bit 63 v) n \<longleftrightarrow> n < 64 \<and> bit v 63"
    by (cases "n = 0") (auto simp: bit_signed_drop_bit_iff simp del: bit_0 dest: bit_imp_le_length)
  moreover have "bit (push_bit 1 v) n \<longleftrightarrow> n < 64 \<and> 0 < n \<and> bit v (n - 1)"
    by (simp only: bit_push_bit_iff possible_bit_word) auto
  ultimately show ?thesis
    by (simp only: zigzag_i64_def bit_xor_iff) blast
qed

lemma bit_zigzag_0: "bit (zigzag_i64 v) 0 = bit v 63"
  by (simp only: bit_zigzag) (simp del: bit_0)

lemma unzigzag_zigzag_64: "unzigzag (zigzag_i64 v) = v"
proof (rule bit_word_eqI)
  fix n assume n: "n < LENGTH(64)"
  show "bit (unzigzag (zigzag_i64 v)) n = bit v n"
  proof (cases "n = 63")
    case True
    then show ?thesis
      by (simp add: unzigzag_def minus_low_bit bit_zigzag_0 bit_xor_iff bit_drop_bit_eq
          bit_minus_1_iff impossible_bit)
  next
    case False
    with n show ?thesis
      unfolding unzigzag_def minus_low_bit bit_zigzag_0
      by (simp add: bit_xor_iff bit_drop_bit_eq bit_zigzag bit_minus_1_iff)
  qed
qed


lemma bit_scast_i32: "bit (scast v :: i64) n \<longleftrightarrow> n < 64 \<and> bit v (min n 31)" for v :: i32
  by (auto simp: bit_signed_iff min_def dest: bit_imp_le_length)

lemma bit_zigzag_i32:
  "bit (zigzag_i64 (scast (v :: i32))) n \<longleftrightarrow> n < 32 \<and> ((0 < n \<and> bit v (n - 1)) \<noteq> bit v 31)"
  by (cases "n = 32") (auto simp: bit_zigzag bit_scast_i32 min_def)

lemma zz32_less: "zz32 v < 2 ^ 32"
proof -
  have "take_bit 32 (zigzag_i64 (scast v)) = zigzag_i64 (scast v)"
    by (rule bit_word_eqI) (auto simp: bit_take_bit_iff bit_zigzag_i32)
  then have "unat (zigzag_i64 (scast v)) < 2 ^ 32"
    by (metis unsigned_take_bit_eq take_bit_nat_less_exp)
  then show ?thesis by (simp add: zz32_def zz64_def)
qed

lemma unzigzag_zz64: "unzigzag (word_of_nat (zz64 v)) = v"
  by (simp add: zz64_def unzigzag_zigzag_64)

lemma unzigzag_zz32: "unzigzag (word_of_nat (zz32 v)) = v"
proof -
  let ?z = "ucast (zigzag_i64 (scast v)) :: u32"
  have z: "bit ?z n \<longleftrightarrow> n < 32 \<and> ((0 < n \<and> bit v (n - 1)) \<noteq> bit v 31)" for n
    by (auto simp: bit_unsigned_iff bit_zigzag_i32)
  have "unzigzag ?z = v"
  proof (rule bit_word_eqI)
    fix n assume "n < LENGTH(32)"
    then show "bit (unzigzag ?z) n = bit v n"
      unfolding unzigzag_def minus_low_bit
      by (cases "n = 31") (simp_all add: z bit_xor_iff bit_drop_bit_eq bit_minus_1_iff del: bit_0)
  qed
  moreover have "word_of_nat (zz32 v) = ?z"
    by (simp add: zz32_def zz64_def)
  ultimately show ?thesis by simp
qed

subsection \<open>Reading from either source\<close>

text \<open>Both sources present the bytes still to come; a read that stays inside them moves past them.\<close>

fun src_rest :: "source \<Rightarrow> bytes" where
  "src_rest (Mem buf pos) = drop pos buf"
| "src_rest (Stream d err pos) = d"

fun advance :: "nat \<Rightarrow> source \<Rightarrow> source" where
  "advance n (Mem buf pos) = Mem buf (pos + n)"
| "advance n (Stream d err pos) = Stream (drop n d) err (pos + n)"

lemma advance_simps [simp]:
  "src_rest (advance n s) = drop n (src_rest s)"
  "src_pos (advance n s) = src_pos s + n"
  "is_stream (advance n s) = is_stream s"
  "src_fits (advance n s) stop = src_fits s stop"
  "advance m (advance n s) = advance (n + m) s"
  "advance 0 s = s"
  by (cases s; simp add: add.commute)+

lemma src_byte_Cons: "src_rest s = b # bs \<Longrightarrow> src_byte s = Inr (Some b, advance 1 s)"
proof (cases s)
  case (Mem buf pos)
  assume "src_rest s = b # bs"
  with Mem have d: "drop pos buf = b # bs" by simp
  then have "pos < length buf"
    by (metis drop_eq_Nil list.distinct(1) not_less)
  with d hd_drop_conv_nth [of pos buf] Mem show ?thesis by simp
qed simp

lemma src_at_end_rest: "src_rest s \<noteq> [] \<Longrightarrow> src_at_end s = Inr False"
  by (cases s) (auto simp: neq_Nil_conv)

lemma src_fits_mono: "src_fits s stop \<Longrightarrow> n \<le> stop \<Longrightarrow> src_fits s n"
  by (cases s) auto

lemma src_bytes_append:
  assumes "src_rest s = w @ rest" and "src_fits s (src_pos s + length w)"
    and "is_stream s \<Longrightarrow> keep \<Longrightarrow> length w \<le> MAX_DECOMPRESSED_BYTES"
  shows "src_bytes (length w) keep s
     = Inr (Some (if keep \<or> \<not> is_stream s then w else []), advance (length w) s)"
  using assms by (cases s) (auto simp: sub_range_def)

lemma varint_from_leb:
  assumes "length (leb128 n) \<le> length shifts" and "shifts = map ((*) 7) [i..<i + length shifts]"
    and "src_rest s = leb128 n @ rest" and "src_pos s + length (leb128 n) \<le> stop"
  shows "varint_from shifts r stop s
     = Inr (Some (unzigzag (r OR push_bit (7 * i) (word_of_nat n))), advance (length (leb128 n)) s)"
  using assms
proof (induction n arbitrary: shifts i r s rule: leb128.induct)
  case (1 n)
  then obtain shifts' where shifts: "shifts = 7 * i # shifts'"
      and tail: "shifts' = map ((*) 7) [Suc i..<Suc i + length shifts']"
    using leb128_length_pos [of n] by (cases shifts) (auto simp: upt_rec)
  have pos: "src_pos s < stop"
    using "1.prems"(4) leb128_length_pos [of n] by linarith
  show ?case
  proof (cases "n < 128")
    case True
    with "1.prems"(3) have "src_byte s = Inr (Some (word_of_nat n), advance 1 s)"
      by (intro src_byte_Cons) (simp add: leb128.simps [of n])
    with True pos show ?thesis
      by (simp add: shifts leb128.simps [of n] leb_bytes ucast_word_of_nat_8 preturn_def)
  next
    case False
    have lo: "n mod 128 < 128" by simp
    from False "1.prems"(3)
    have b: "src_byte s = Inr (Some (word_of_nat (n mod 128) OR 0x80), advance 1 s)"
      by (intro src_byte_Cons) (simp add: leb128.simps [of n])
    have "varint_from shifts' (r OR push_bit (7 * i) (word_of_nat (n mod 128))) stop (advance 1 s)
        = Inr (Some (unzigzag ((r OR push_bit (7 * i) (word_of_nat (n mod 128)))
            OR push_bit (7 * Suc i) (word_of_nat (n div 128)))),
            advance (length (leb128 (n div 128))) (advance 1 s))"
      using "1.prems" False shifts tail
      by (intro "1.IH") (simp_all add: leb128.simps [of n])
    also have "(r OR push_bit (7 * i) (word_of_nat (n mod 128))) OR push_bit (7 * Suc i) (word_of_nat (n div 128))
        = r OR push_bit (7 * i) (word_of_nat n)"
      by (subst word_of_nat_leb_step [of n]) (simp add: push_bit_or or.assoc add.commute)
    finally show ?thesis
      using False pos b
      by (simp add: shifts leb128.simps [of n] leb_bytes [OF lo] ucast_word_of_nat_8 Let_def)
  qed
qed

lemma varint_i64_zz:
  assumes "src_rest s = leb128 (zz64 v) @ rest" and "src_pos s + length (leb128 (zz64 v)) \<le> stop"
  shows "varint_i64 stop s = Inr (Some v, advance (length (leb128 (zz64 v))) s)"
proof -
  have "length (leb128 (zz64 v)) \<le> 10"
    using unsigned_less [where 'a = nat, of "zigzag_i64 v"] by (intro leb128_length) (simp_all add: zz64_def)
  with varint_from_leb [OF _ _ assms, of "[0, 7, 14, 21, 28, 35, 42, 49, 56, 63]" 0 "0 :: u64"]
  show ?thesis by (simp add: varint_i64_def unzigzag_zz64 upt_rec)
qed

lemma varint_i32_zz:
  assumes "src_rest s = leb128 (zz32 v) @ rest" and "src_pos s + length (leb128 (zz32 v)) \<le> stop"
  shows "varint_i32 stop s = Inr (Some v, advance (length (leb128 (zz32 v))) s)"
proof -
  have "length (leb128 (zz32 v)) \<le> 5"
    using zz32_less [of v] by (intro leb128_length) simp_all
  with varint_from_leb [OF _ _ assms, of "[0, 7, 14, 21, 28]" 0 "0 :: u32"]
  show ?thesis by (simp add: varint_i32_def unzigzag_zz32 upt_rec)
qed

subsection \<open>The wire form of a record\<close>

definition field_wire :: "bytes option \<Rightarrow> bytes" where
  "field_wire f =
     (case f of None \<Rightarrow> leb128 (zz32 (- 1)) | Some b \<Rightarrow> leb128 (zz32 (word_of_nat (length b))) @ b)"

definition header_wire :: "bytes \<times> bytes option \<Rightarrow> bytes" where
  "header_wire h = leb128 (zz32 (word_of_nat (length (fst h)))) @ fst h @ field_wire (snd h)"

definition record_body :: "record_ref \<Rightarrow> bytes" where
  "record_body r = rec_attributes r # leb128 (zz64 (rec_timestamp_delta r))
     @ leb128 (zz32 (rec_offset_delta r)) @ field_wire (rec_key r) @ field_wire (rec_value r)
     @ leb128 (zz32 (word_of_nat (length (rec_headers r)))) @ concat (map header_wire (rec_headers r))"

definition record_wire :: "record_ref \<Rightarrow> bytes" where
  "record_wire r = leb128 (zz32 (word_of_nat (length (record_body r)))) @ record_body r"

text \<open>What an iterator that keeps only keys (\<open>keep = False\<close>) returns of a field.\<close>

definition kept_field :: "bool \<Rightarrow> source \<Rightarrow> bytes option \<Rightarrow> bytes option" where
  "kept_field keep s f = map_option (\<lambda>b. if keep \<or> \<not> is_stream s then b else []) f"

lemma kept_field_advance [simp]: "kept_field keep (advance n s) f = kept_field keep s f"
  by (simp add: kept_field_def)

lemma kept_field_True [simp]: "kept_field True s f = f"
  by (simp add: kept_field_def option.map_ident)

lemma put_opt_field_wire: "put_opt_field buf f = buf @ field_wire f"
  by (simp add: put_opt_field_def field_wire_def put_varint_i32_leb split: option.split)

lemma sint_nat31: "n < 2 ^ 31 \<Longrightarrow> sint (word_of_nat n :: i32) = int n"
  by (simp add: signed_of_nat signed_take_bit_int_eq_self)

lemma read_len_zz:
  assumes "src_rest s = leb128 (zz32 v) @ rest" and "src_pos s + length (leb128 (zz32 v)) \<le> stop"
  shows "read_len stop s = Inr (v, advance (length (leb128 (zz32 v))) s)"
  using varint_i32_zz [OF assms] by (simp add: read_len_def ok_or_def preturn_def)

lemma read_bytes_wire:
  assumes "src_rest s = w @ rest" and "src_pos s + length w \<le> stop" and "stop \<le> USIZE_MAX"
    and "src_fits s stop" and "length w < 2 ^ 31"
    and "is_stream s \<Longrightarrow> keep \<Longrightarrow> length w \<le> MAX_DECOMPRESSED_BYTES"
  shows "read_bytes stop (word_of_nat (length w)) keep s
     = Inr (if keep \<or> \<not> is_stream s then w else [], advance (length w) s)"
  using src_bytes_append [OF assms(1) src_fits_mono [OF assms(4,2)], of keep] assms
  by (simp add: read_bytes_def Let_def ok_or_def sint_nat31 preturn_def)

lemma read_field_wire:
  assumes "src_rest s = field_wire f @ rest" and "src_pos s + length (field_wire f) \<le> stop"
    and "stop \<le> USIZE_MAX" and "src_fits s stop" and "length (field_wire f) < 2 ^ 31"
    and "is_stream s \<Longrightarrow> keep \<Longrightarrow> length (field_wire f) \<le> MAX_DECOMPRESSED_BYTES"
  shows "read_field stop keep s = Inr (kept_field keep s f, advance (length (field_wire f)) s)"
proof (cases f)
  case None
  with assms have "read_len stop s = Inr (- 1, advance (length (field_wire f)) s)"
    by (simp add: field_wire_def read_len_zz)
  with None show ?thesis by (simp add: read_field_def preturn_def kept_field_def)
next
  case (Some b)
  let ?l = "leb128 (zz32 (word_of_nat (length b)))"
  from Some assms have len: "read_len stop s = Inr (word_of_nat (length b), advance (length ?l) s)"
    by (intro read_len_zz) (simp_all add: field_wire_def)
  from Some assms have "read_bytes stop (word_of_nat (length b)) keep (advance (length ?l) s)
      = Inr (if keep \<or> \<not> is_stream s then b else [], advance (length b) (advance (length ?l) s))"
    by (subst read_bytes_wire) (simp_all add: field_wire_def)
  with len Some assms(5) show ?thesis
    by (simp add: read_field_def field_wire_def sint_nat31 preturn_def kept_field_def)
qed

lemma leb128_nonempty [simp]: "leb128 n \<noteq> []"
  using leb128_length_pos [of n] by auto

lemma read_headers_wire:
  assumes "src_rest s = concat (map header_wire hs) @ rest"
    and "src_pos s + length (concat (map header_wire hs)) \<le> stop"
    and "stop \<le> USIZE_MAX" and "src_fits s stop" and "length (concat (map header_wire hs)) < 2 ^ 31"
    and "is_stream s \<Longrightarrow> full \<Longrightarrow> length (concat (map header_wire hs)) \<le> MAX_DECOMPRESSED_BYTES"
  shows "read_headers at stop (length hs) full acc s
     = Inr (acc @ (if full then hs else []), advance (length (concat (map header_wire hs))) s)"
  using assms
proof (induction hs arbitrary: s acc)
  case Nil
  then show ?case by (simp add: preturn_def)
next
  case (Cons h hs)
  obtain n v where h: "h = (n, v)" by (cases h)
  let ?l = "leb128 (zz32 (word_of_nat (length n)))"
  let ?tail = "concat (map header_wire hs)"
  have wire: "src_rest s = ?l @ n @ field_wire v @ ?tail @ rest"
    using Cons.prems(1) by (simp add: h header_wire_def [of "(n, v)"])
  have len: "length (concat (map header_wire (h # hs))) = length ?l + length n + length (field_wire v) + length ?tail"
    by (simp add: h header_wire_def [of "(n, v)"])
  note bounds = Cons.prems(2-6)[unfolded len]
  have pos: "src_pos s < stop"
    using bounds(1) leb128_length_pos [of "zz32 (word_of_nat (length n))"] by linarith
  have 1: "read_len stop s = Inr (word_of_nat (length n), advance (length ?l) s)"
    using bounds by (intro read_len_zz [OF wire]) simp
  let ?s1 = "advance (length ?l) s"
  have 2: "read_bytes stop (word_of_nat (length n)) full ?s1
      = Inr (if full \<or> \<not> is_stream s then n else [], advance (length n) ?s1)"
    using bounds wire by (subst read_bytes_wire) simp_all
  let ?s2 = "advance (length n) ?s1"
  have 3: "read_field stop full ?s2 = Inr (kept_field full s v, advance (length (field_wire v)) ?s2)"
    using bounds wire by (subst read_field_wire) simp_all
  let ?s3 = "advance (length (field_wire v)) ?s2"
  have 4: "read_headers at stop (length hs) full acc' ?s3
      = Inr (acc' @ (if full then hs else []), advance (length ?tail) ?s3)" for acc'
    using bounds wire by (intro Cons.IH) simp_all
  have n31: "length n < 2 ^ 31" using bounds by simp
  show ?case
    unfolding len using pos 1 2 3 4 n31
    by (auto simp: h sint_nat31 algebra_simps)
qed

subsection \<open>One record, and then all of them\<close>

definition seen_record :: "bool \<Rightarrow> source \<Rightarrow> record_ref \<Rightarrow> record_ref" where
  "seen_record full s r = r\<lparr>rec_value := kept_field full s (rec_value r),
     rec_headers := if full then rec_headers r else []\<rparr>"

definition stream_ok :: "codec_env \<Rightarrow> record_ref \<Rightarrow> bool" where
  "stream_ok env r \<longleftrightarrow> length (record_body r) \<le> MAX_DECOMPRESSED_BYTES
     \<and> length (rec_headers r) * header_entry_size env \<le> MAX_DECOMPRESSED_BYTES"

lemma seen_record_True [simp]: "seen_record True s r = r"
  by (simp add: seen_record_def)

lemma key_of_seen [simp]: "key_of_record (seen_record full s r) = key_of_record r"
  by (simp add: seen_record_def key_of_record_def)

lemma map_seen_record [simp]:
  "map (seen_record True s) rs = rs"
  "map (key_of_record \<circ> seen_record full s) rs = map key_of_record rs"
  by (induction rs) simp_all

lemma length_headers: "length hs \<le> length (concat (map header_wire hs))"
proof (induction hs)
  case (Cons h hs)
  have "Suc 0 \<le> length (header_wire h)"
    by (simp add: header_wire_def Suc_le_eq)
  with Cons show ?case by simp
qed simp

lemma record_fields_wire:
  assumes rest: "src_rest s = record_body r @ rest" and stop: "stop = src_pos s + length (record_body r)"
    and max: "stop \<le> USIZE_MAX" and fits: "src_fits s stop" and len: "length (record_body r) < 2 ^ 31"
    and str: "is_stream s \<Longrightarrow> stream_ok env r"
  shows "record_fields env full at start stop l s
     = Inr (seen_record full s r, advance (length (record_body r)) s)"
proof -
  let ?ts = "leb128 (zz64 (rec_timestamp_delta r))" and ?od = "leb128 (zz32 (rec_offset_delta r))"
    and ?k = "field_wire (rec_key r)" and ?v = "field_wire (rec_value r)"
    and ?n = "leb128 (zz32 (word_of_nat (length (rec_headers r))))"
    and ?h = "concat (map header_wire (rec_headers r))"
  have wire: "src_rest s = rec_attributes r # ?ts @ ?od @ ?k @ ?v @ ?n @ ?h @ rest"
    using rest by (simp add: record_body_def)
  have lb: "length (record_body r) = 1 + length ?ts + length ?od + length ?k + length ?v + length ?n + length ?h"
    by (simp add: record_body_def)
  have hn: "length (rec_headers r) < 2 ^ 31"
    using length_headers [of "rec_headers r"] len lb by linarith
  have st: "length (record_body r) \<le> MAX_DECOMPRESSED_BYTES
      \<and> length (rec_headers r) * header_entry_size env \<le> MAX_DECOMPRESSED_BYTES" if "is_stream s"
    using str that by (simp add: stream_ok_def)
  note facts = stop [unfolded lb] max fits len [unfolded lb] st [unfolded lb]
  define s1 where "s1 = advance 1 s"
  define s2 where "s2 = advance (length ?ts) s1"
  define s3 where "s3 = advance (length ?od) s2"
  define s4 where "s4 = advance (length ?k) s3"
  define s5 where "s5 = advance (length ?v) s4"
  define s6 where "s6 = advance (length ?n) s5"
  note ss = s1_def s2_def s3_def s4_def s5_def s6_def
  have 1: "src_byte s = Inr (Some (rec_attributes r), s1)"
    unfolding s1_def using wire by (rule src_byte_Cons)
  have 2: "varint_i64 stop s1 = Inr (Some (rec_timestamp_delta r), s2)"
    unfolding s2_def using facts wire by (intro varint_i64_zz) (simp_all add: ss)
  have 3: "varint_i32 stop s2 = Inr (Some (rec_offset_delta r), s3)"
    unfolding s3_def using facts wire by (intro varint_i32_zz) (simp_all add: ss)
  have 4: "read_field stop True s3 = Inr (rec_key r, s4)"
    unfolding s4_def using facts wire by (subst read_field_wire) (auto simp: ss)
  have 5: "read_field stop full s4 = Inr (kept_field full s (rec_value r), s5)"
    unfolding s5_def using facts wire by (subst read_field_wire) (auto simp: ss)
  have 6: "read_len stop s5 = Inr (word_of_nat (length (rec_headers r)), s6)"
    unfolding s6_def using facts wire by (intro read_len_zz) (simp_all add: ss)
  have 7: "read_headers at stop (length (rec_headers r)) full [] s6
      = Inr (if full then rec_headers r else [], advance (length ?h) s6)"
    using facts wire by (subst read_headers_wire) (auto simp: ss)
  have 8: "is_stream s6 = is_stream s" and 9: "src_pos (advance (length ?h) s6) = stop"
    and 10: "advance (length ?h) s6 = advance (length (record_body r)) s"
    using facts by (simp_all add: ss lb algebra_simps)
  show ?thesis
    unfolding record_fields_def ok_or_def
    using 1 2 3 4 5 6 7 8 st hn 9
    by (auto simp: preturn_def sint_nat31 close_record_def seen_record_def simp flip: 10)
qed

lemma next_record_wire:
  assumes rest: "src_rest s = record_wire r @ rest"
    and max: "src_pos s + length (record_wire r) \<le> USIZE_MAX"
    and fits: "src_fits s (src_pos s + length (record_wire r))" and len: "length (record_body r) < 2 ^ 31"
    and str: "is_stream s \<Longrightarrow> stream_ok env r"
  shows "next_record env full s = Inr (seen_record full s r, advance (length (record_wire r)) s)"
proof -
  let ?l = "leb128 (zz32 (word_of_nat (length (record_body r))))"
  define s1 where "s1 = advance (length ?l) s"
  have lw: "length (record_wire r) = length ?l + length (record_body r)"
    by (simp add: record_wire_def)
  have 1: "varint_i32 USIZE_MAX s = Inr (Some (word_of_nat (length (record_body r))), s1)"
    unfolding s1_def using rest max by (intro varint_i32_zz) (simp_all add: record_wire_def)
  have "record_fields env full (src_pos s) (src_pos s1) (src_pos s1 + length (record_body r))
      (word_of_nat (length (record_body r))) s1
    = Inr (seen_record full s1 r, advance (length (record_body r)) s1)"
    using assms by (intro record_fields_wire) (simp_all add: s1_def lw record_wire_def add.assoc)
  moreover have "seen_record full s1 r = seen_record full s r"
    by (simp add: s1_def seen_record_def)
  moreover have "0 < length (record_body r)"
    by (simp add: record_body_def)
  ultimately show ?thesis
    using 1 max fits len str
    by (auto simp: next_record_def Let_def ok_or_def preturn_def sint_nat31 s1_def lw stream_ok_def add.assoc)
qed

fun src_clean :: "source \<Rightarrow> bool" where
  "src_clean (Mem buf pos) = True"
| "src_clean (Stream d err pos) \<longleftrightarrow> err = None"

lemma src_clean_advance [simp]: "src_clean (advance n s) = src_clean s"
  by (cases s) auto

lemma src_at_end_clean: "src_clean s \<Longrightarrow> src_at_end s = Inr (src_rest s = [])"
proof (cases s)
  case (Stream d err pos)
  assume "src_clean s"
  with Stream show ?thesis by (cases d) simp_all
qed auto

lemma record_iter_all_wire:
  assumes "src_rest (it_src it) = concat (map record_wire rs)" and "\<not> it_done it"
    and "it_remaining it = word_of_nat (length rs)" and "length rs < 2 ^ 31" and "src_clean (it_src it)"
    and "src_pos (it_src it) + length (concat (map record_wire rs)) \<le> USIZE_MAX"
    and "src_fits (it_src it) (src_pos (it_src it) + length (concat (map record_wire rs)))"
    and "\<forall>r \<in> set rs. length (record_body r) < 2 ^ 31 \<and> (is_stream (it_src it) \<longrightarrow> stream_ok env r)"
  shows "record_iter_all env it = map (Inr \<circ> seen_record (it_full it) (it_src it)) rs"
  using assms
proof (induction rs arbitrary: it)
  case Nil
  then show ?case
    by (simp add: record_iter_all.simps [of env it] record_iter_next_def src_at_end_clean)
next
  case (Cons r rs)
  let ?s = "it_src it"
  let ?it = "it\<lparr>it_remaining := it_remaining it - 1, it_src := advance (length (record_wire r)) ?s\<rparr>"
  have "record_wire r \<noteq> []" by (simp add: record_wire_def)
  then have "src_at_end ?s = Inr False"
    using Cons.prems(1) by (intro src_at_end_rest) simp
  moreover have "next_record env (it_full it) ?s
      = Inr (seen_record (it_full it) ?s r, advance (length (record_wire r)) ?s)"
    using Cons.prems src_fits_mono [OF Cons.prems(7), of "src_pos ?s + length (record_wire r)"]
    by (intro next_record_wire) simp_all
  moreover have "it_remaining it \<noteq> 0"
  proof -
    have "sint (it_remaining it) = int (length (r # rs))"
      using Cons.prems(3,4) sint_nat31 by metis
    then show ?thesis by auto
  qed
  ultimately have step: "record_iter_next env it = (Some (Inr (seen_record (it_full it) ?s r)), ?it)"
    using Cons.prems(2) by (simp add: record_iter_next_def Let_def)
  have "record_iter_all env ?it = map (Inr \<circ> seen_record (it_full ?it) (it_src ?it)) rs"
    using Cons.prems by (intro Cons.IH) (simp_all add: add.assoc)
  with step show ?case
    by (simp add: record_iter_all.simps [of env it] comp_def seen_record_def)
qed

subsection \<open>Sealed batches\<close>

lemma sub_range_skip: "length a \<le> off \<Longrightarrow> sub_range off n (a @ r) = sub_range (off - length a) n r"
  by (simp add: sub_range_def)

lemma sub_range_hit: "length a = n \<Longrightarrow> sub_range 0 n (a @ r) = a"
  by (simp add: sub_range_def)

text \<open>A sealed batch, field by field.\<close>

definition batch_wire :: "(bytes \<Rightarrow> u32) \<Rightarrow> i64 \<Rightarrow> i32 \<Rightarrow> i16 \<Rightarrow> i32 \<Rightarrow> i64 \<Rightarrow> i64 \<Rightarrow> i64 \<Rightarrow> i16 \<Rightarrow> i32 \<Rightarrow> i32 \<Rightarrow> bytes \<Rightarrow> bytes" where
  "batch_wire crc bo le attrs ld bt mt pid pe bs cnt body =
     (let covered = be_bytes 2 attrs @ be_bytes 4 ld @ be_bytes 8 bt @ be_bytes 8 mt @ be_bytes 8 pid
            @ be_bytes 2 pe @ be_bytes 4 bs @ be_bytes 4 cnt @ body
      in be_bytes 8 bo @ be_bytes 4 (word_of_nat (length body + 49) :: i32) @ be_bytes 4 le
         @ be_bytes 1 MAGIC_V2 @ be_bytes 4 (crc covered) @ covered)"

lemma batch_header_eq: "batch_header bo le attrs ld bt mt pid pe bs cnt =
    be_bytes 8 bo @ be_bytes 4 (0 :: i32) @ be_bytes 4 le @ be_bytes 1 MAGIC_V2 @ be_bytes 4 (0 :: u32)
    @ be_bytes 2 attrs @ be_bytes 4 ld @ be_bytes 8 bt @ be_bytes 8 mt @ be_bytes 8 pid
    @ be_bytes 2 pe @ be_bytes 4 bs @ be_bytes 4 cnt"
  by (simp add: batch_header_def Let_def put_i64_def put_i32_def put_i16_def put_i8_def put_u32_def
      be_bytes_def)

lemma patch_skip: "length a \<le> off \<Longrightarrow> patch off v (a @ r) = a @ patch (off - length a) v r"
  by (simp add: patch_def)

lemma patch_hit: "length a = length v \<Longrightarrow> patch 0 v (a @ r) = v @ r"
  by (simp add: patch_def)

lemma seal_batch_wire:
  "seal_batch crc (batch_header bo le attrs ld bt mt pid pe bs cnt @ body)
     = batch_wire crc bo le attrs ld bt mt pid pe bs cnt body"
proof -
  have total: "length (batch_header bo le attrs ld bt mt pid pe bs cnt @ body) = 61 + length body"
    by (simp add: batch_header_eq)
  show ?thesis
    unfolding seal_batch_def batch_wire_def Let_def total unfolding batch_header_eq append_assoc batch_layout
    by (simp add: patch_skip patch_hit add.commute del: of_nat_add)
qed

lemma batch_wire_fields:
  fixes crc bo le attrs ld bt mt pid pe bs cnt body
  defines "b \<equiv> RecordBatch (batch_wire crc bo le attrs ld bt mt pid pe bs cnt body)"
  shows "base_offset b = bo" and "partition_leader_epoch b = le" and "attributes b = attrs"
    and "last_offset_delta b = ld" and "base_timestamp b = bt" and "max_timestamp b = mt"
    and "producer_id b = pid" and "producer_epoch b = pe" and "base_sequence b = bs"
    and "record_count b = cnt" and "magic b = MAGIC_V2"
    and "batch_length b = word_of_nat (length body + 49)"
    and "stored_crc b = computed_crc crc b" and "length (batch_bytes b) = length body + 61"
    and "drop RECORD_BATCH_OVERHEAD (batch_bytes b) = body"
proof -
  note defs = b_def batch_wire_def Let_def read_at_def batch_layout
  show "base_offset b = bo" by (simp add: defs base_offset_def sub_range_skip sub_range_hit)
  show "partition_leader_epoch b = le" by (simp add: defs partition_leader_epoch_def sub_range_skip sub_range_hit)
  show "attributes b = attrs" by (simp add: defs attributes_def sub_range_skip sub_range_hit)
  show "last_offset_delta b = ld" by (simp add: defs last_offset_delta_def sub_range_skip sub_range_hit)
  show "base_timestamp b = bt" by (simp add: defs base_timestamp_def sub_range_skip sub_range_hit)
  show "max_timestamp b = mt" by (simp add: defs max_timestamp_def sub_range_skip sub_range_hit)
  show "producer_id b = pid" by (simp add: defs producer_id_def sub_range_skip sub_range_hit)
  show "producer_epoch b = pe" by (simp add: defs producer_epoch_def sub_range_skip sub_range_hit)
  show "base_sequence b = bs" by (simp add: defs base_sequence_def sub_range_skip sub_range_hit)
  show "record_count b = cnt" by (simp add: defs record_count_def sub_range_skip sub_range_hit)
  show "magic b = MAGIC_V2" by (simp add: defs magic_def nth_append be_bytes_def MAGIC_V2_def)
  show "batch_length b = word_of_nat (length body + 49)"
    by (simp add: defs batch_length_def sub_range_skip sub_range_hit del: of_nat_add)
  show "stored_crc b = computed_crc crc b"
    by (simp add: defs stored_crc_def computed_crc_def sub_range_skip sub_range_hit)
  show "length (batch_bytes b) = length body + 61" by (simp add: defs)
  show "drop RECORD_BATCH_OVERHEAD (batch_bytes b) = body" by (simp add: defs)
qed

lemma batch_wire_validated:
  assumes "length body + 49 < 2 ^ 31" and "0 \<le> sint ld" and "0 \<le> sint cnt"
  shows "validated crc (batch_wire crc bo le attrs ld bt mt pid pe bs cnt body)
     = Inr (ValidatedBatch (RecordBatch (batch_wire crc bo le attrs ld bt mt pid pe bs cnt body)))"
  using assms batch_wire_fields(14) [of crc bo le attrs ld bt mt pid pe bs cnt body]
  by (simp add: validated_Inr_iff batch_wf_iff batch_wire_fields sint_nat31 del: of_nat_add)

definition iterate_records :: "codec_env \<Rightarrow> batch_error + record_iter \<Rightarrow> batch_error + record_ref list" where
  "iterate_records env it = rbind it (\<lambda>it. collect_results (record_iter_all env it))"

lemma collect_results_Inr [simp]: "collect_results (map (Inr \<circ> f) xs) = Inr (map f xs)"
  by (induction xs) auto

lemma record_wires_small:
  assumes "length (concat (map record_wire rs)) < 2 ^ 31"
  shows "length rs < 2 ^ 31" and "\<forall>r \<in> set rs. length (record_body r) < 2 ^ 31"
proof -
  have "length rs \<le> length (concat (map record_wire rs))
      \<and> (\<forall>r \<in> set rs. length (record_body r) \<le> length (concat (map record_wire rs)))"
  proof (induction rs)
    case (Cons r rs)
    have "Suc (length (record_body r)) \<le> length (record_wire r)"
      by (simp add: record_wire_def Suc_le_eq)
    with Cons show ?case by fastforce
  qed simp
  with assms show "length rs < 2 ^ 31" and "\<forall>r \<in> set rs. length (record_body r) < 2 ^ 31"
    by auto
qed

lemma iterate_wire:
  assumes "src_rest s = concat (map record_wire rs)" and "record_count b = word_of_nat (length rs)"
    and "length (concat (map record_wire rs)) < 2 ^ 31" and "src_clean s"
    and "src_pos s + length (concat (map record_wire rs)) \<le> USIZE_MAX"
    and "src_fits s (src_pos s + length (concat (map record_wire rs)))"
    and "is_stream s \<Longrightarrow> \<forall>r \<in> set rs. stream_ok env r"
  shows "iterate_records env (record_iter_of b s full) = Inr (map (seen_record full s) rs)"
proof -
  note small = record_wires_small [OF assms(3)]
  then have "sint (record_count b) = int (length rs)"
    using assms(2) by (simp add: sint_nat31)
  moreover have "record_iter_all env \<lparr>it_src = s, it_remaining = record_count b,
      it_declared = record_count b, it_done = False, it_full = full\<rparr> = map (Inr \<circ> seen_record full s) rs"
    using assms small by (subst record_iter_all_wire) auto
  ultimately show ?thesis
    by (simp add: iterate_records_def record_iter_of_def Let_def)
qed

text \<open>An uncompressed batch yields the records its body was written from.\<close>

lemma batch_wire_iterate:
  fixes crc bo le attrs ld bt mt pid pe bs cnt rs
  defines "b \<equiv> RecordBatch (batch_wire crc bo le attrs ld bt mt pid pe bs cnt (concat (map record_wire rs)))"
  assumes "attrs AND 7 = 0" and "cnt = word_of_nat (length rs)"
    and "length (concat (map record_wire rs)) + 49 < 2 ^ 31"
  shows "iterate_records env (records b) = Inr rs"
    and "iterate_records env (stream_records env b) = Inr rs"
    and "rbind (iterate_records env (stream_keys env b)) (\<lambda>rs. Inr (map key_of_record rs))
       = Inr (map key_of_record rs)"
proof -
  let ?s = "Mem (batch_bytes b) RECORD_BATCH_OVERHEAD"
  have c: "compression_type b = 0"
    using assms(2) by (simp add: b_def compression_type_def batch_wire_fields COMPRESSION_MASK_def)
  have it: "iterate_records env (record_iter_of b ?s full) = Inr (map (seen_record full ?s) rs)" for full
    using assms(3,4) batch_wire_fields(14,15) [of crc bo le attrs ld bt mt pid pe bs cnt "concat (map record_wire rs)"]
    by (intro iterate_wire)
      (simp_all add: b_def batch_wire_fields USIZE_MAX_def RECORD_BATCH_OVERHEAD_def del: length_concat)
  show "iterate_records env (records b) = Inr rs"
    using it [of True] c by (simp add: records_def)
  show "iterate_records env (stream_records env b) = Inr rs"
    using it [of True] c by (simp add: stream_records_def streamed_def)
  show "rbind (iterate_records env (stream_keys env b)) (\<lambda>rs. Inr (map key_of_record rs))
       = Inr (map key_of_record rs)"
    using it [of False] c by (simp add: stream_keys_def streamed_def)
qed

subsection \<open>What the builders write\<close>

definition new_ref :: "i64 \<Rightarrow> nat \<Rightarrow> new_record \<Rightarrow> record_ref" where
  "new_ref base_ts i r = \<lparr>rec_offset_delta = word_of_nat i, rec_timestamp_delta = nr_timestamp r - base_ts,
     rec_key = nr_key r, rec_value = nr_value r, rec_headers = [], rec_attributes = 0\<rparr>"

primrec new_refs :: "i64 \<Rightarrow> nat \<Rightarrow> new_record list \<Rightarrow> record_ref list" where
  "new_refs base_ts i [] = []"
| "new_refs base_ts i (r # rs) = new_ref base_ts i r # new_refs base_ts (Suc i) rs"

lemma length_new_refs [simp]: "length (new_refs base_ts i rs) = length rs"
  by (induction rs arbitrary: i) simp_all

lemma new_refs_nth: "j < length rs \<Longrightarrow> new_refs base_ts i rs ! j = new_ref base_ts (i + j) (rs ! j)"
proof (induction rs arbitrary: i j)
  case (Cons r rs)
  then show ?case by (cases j) simp_all
qed simp

lemma be_bytes_1 [simp]: "be_bytes (Suc 0) (w :: i8) = [w]"
  by (simp add: be_bytes_def)

lemma put_new_record_wire: "put_new_record base_ts i r body = body @ record_wire (new_ref base_ts i r)"
  by (simp add: put_new_record_def Let_def put_i8_def put_varint_i64_leb put_varint_i32_leb
      put_opt_field_wire record_wire_def record_body_def new_ref_def add.assoc)

lemma put_new_records_wire:
  "put_new_records base_ts i rs body = body @ concat (map record_wire (new_refs base_ts i rs))"
  by (induction rs arbitrary: i body) (simp_all add: put_new_record_wire)

lemma foldl_max_i64: "sint (foldl max_i64 a xs) = foldl max (sint a) (map sint xs)"
  by (induction xs arbitrary: a) (simp_all add: max_i64_def max_def)

lemma foldl_max_upper: "a \<le> foldl max a xs \<and> (\<forall>x \<in> set xs. x \<le> foldl max a xs)" for a :: int
proof (induction xs arbitrary: a)
  case (Cons x xs)
  from Cons [of "max a x"] show ?case by auto
qed simp

lemma build_batch_full_wire:
  assumes "rs \<noteq> []"
  shows "build_batch_full crc rs pid txn = Some (batch_wire crc 0 (- 1)
     (if txn then TRANSACTIONAL_FLAG else 0) (word_of_nat (length rs) - 1) (nr_timestamp (hd rs))
     (foldl max_i64 (nr_timestamp (hd rs)) (map nr_timestamp rs)) pid (- 1) (- 1) (word_of_nat (length rs))
     (concat (map record_wire (new_refs (nr_timestamp (hd rs)) 0 rs))))"
  using assms
  by (cases rs) (simp_all add: build_batch_full_def Let_def seal_batch_wire put_new_records_wire)

definition control_record :: "bool \<Rightarrow> record_ref" where
  "control_record commit = \<lparr>rec_offset_delta = 0, rec_timestamp_delta = 0,
     rec_key = Some [0, 0, 0, if commit then 1 else 0], rec_value = Some END_TXN_MARKER_VALUE,
     rec_headers = [], rec_attributes = 0\<rparr>"

lemma build_control_batch_wire:
  "build_control_batch crc pid pepoch commit = batch_wire crc 0 (- 1)
     (TRANSACTIONAL_FLAG OR CONTROL_BATCH_FLAG) 0 0 0 pid pepoch (- 1) 1
     (concat (map record_wire [control_record commit]))"
proof -
  have "be_bytes 2 (0 :: i16) = [0, 0]" and "be_bytes 2 (1 :: i16) = [0, 1]"
    by code_simp+
  then show ?thesis
    by (simp add: build_control_batch_def Let_def seal_batch_wire put_i16_def put_i8_def
        put_varint_i64_leb put_varint_i32_leb record_wire_def record_body_def control_record_def
        field_wire_def add.assoc)
qed

subsection \<open>Clean iteration and the size caps\<close>

lemma collect_clean_count:
  "\<not> it_done it \<Longrightarrow> collect_results (record_iter_all env it) = Inr rs \<Longrightarrow> length rs = unat (it_remaining it)"
proof (induction env it arbitrary: rs rule: record_iter_all.induct)
  case (1 env it)
  obtain item it' where step: "record_iter_next env it = (item, it')"
    by (cases "record_iter_next env it")
  show ?case
  proof (cases item)
    case None
    then have "it_remaining it = 0"
      using step "1.prems"(1)
      by (auto simp: record_iter_next_def Let_def split: if_splits sum.splits bool.splits)
    moreover have "rs = []"
      using "1.prems"(2) step None by (simp add: record_iter_all.simps [of env it])
    ultimately show ?thesis by simp
  next
    case (Some r)
    then have all: "record_iter_all env it = r # record_iter_all env it'"
      using step by (simp add: record_iter_all.simps [of env it])
    with "1.prems"(2) obtain x xs where r: "r = Inr x" and rs: "rs = x # xs"
        and xs: "collect_results (record_iter_all env it') = Inr xs"
      by (cases r) (auto simp: rbind_eq_Inr)
    from step Some r "1.prems"(1)
    have it': "\<not> it_done it'" "it_remaining it' = it_remaining it - 1" "it_remaining it \<noteq> 0"
      by (auto simp: record_iter_next_def Let_def split: if_splits sum.splits bool.splits)
    from "1.IH" [OF step [symmetric] Some it'(1) xs] it'(2,3) show ?thesis
      by (simp add: rs unat_minus_one) (metis One_nat_def Suc_pred unat_gt_0)
  qed
qed

lemma decompress_bounded: "decompress env codec payload = Inr out \<Longrightarrow> length out \<le> MAX_DECOMPRESSED_BYTES"
  by (auto simp: decompress_def bounded_read_def rbind_eq_Inr split: if_splits option.splits)

lemma streamed_bounded:
  "streamed env b full = Inr it \<Longrightarrow> compression_type b \<noteq> 0 \<Longrightarrow> length (src_rest (it_src it)) \<le> MAX_STREAMED_BYTES"
  by (auto simp: streamed_def Let_def rbind_eq_Inr total_cap_def record_iter_of_def
      split: if_splits prod.splits)

lemma compressed_iterate:
  assumes dec: "decoder env (compression_type b) (drop RECORD_BATCH_OVERHEAD (batch_bytes b))
      = Inr (concat (map record_wire rs), None)"
    and c: "compression_type b \<noteq> 0" and cnt: "record_count b = word_of_nat (length rs)"
    and small: "length (concat (map record_wire rs)) \<le> MAX_DECOMPRESSED_BYTES"
    and ok: "\<forall>r \<in> set rs. stream_ok env r"
  shows "iterate_records env (records_decompressed env b) = Inr rs"
    and "iterate_records env (stream_records env b) = Inr rs"
    and "rbind (iterate_records env (stream_keys env b)) (\<lambda>rs. Inr (map key_of_record rs))
       = Inr (map key_of_record rs)"
proof -
  let ?plain = "concat (map record_wire rs)"
  have lim: "length ?plain < 2 ^ 31" "length ?plain \<le> USIZE_MAX" "\<not> length ?plain > MAX_STREAMED_BYTES"
    using small by (simp_all add: MAX_DECOMPRESSED_BYTES_def MAX_STREAMED_BYTES_def USIZE_MAX_def del: length_concat)
  have mem: "iterate_records env (record_iter_of b (Mem ?plain 0) True) = Inr rs"
    using lim cnt ok iterate_wire [of "Mem ?plain 0" rs b env True] by (simp del: length_concat)
  have str: "iterate_records env (record_iter_of b (Stream ?plain None 0) full)
      = Inr (map (seen_record full (Stream ?plain None 0)) rs)" for full
    using lim cnt ok iterate_wire [of "Stream ?plain None 0" rs b env full] by (simp del: length_concat)
  have "decompress env (compression_type b) (drop RECORD_BATCH_OVERHEAD (batch_bytes b)) = Inr ?plain"
    using dec small by (simp add: decompress_def bounded_read_def del: length_concat)
  with mem c show "iterate_records env (records_decompressed env b) = Inr rs"
    by (simp add: records_decompressed_def)
  have st: "streamed env b full = record_iter_of b (Stream ?plain None 0) full" for full
    using dec c lim(3) by (simp add: streamed_def total_cap_def del: length_concat)
  show "iterate_records env (stream_records env b) = Inr rs"
    using str [of True] st by (simp add: stream_records_def)
  show "rbind (iterate_records env (stream_keys env b)) (\<lambda>rs. Inr (map key_of_record rs))
       = Inr (map key_of_record rs)"
    using str [of False] st by (simp add: stream_keys_def)
qed

end
