(* ===== verification/Word_Facts.thy ===== *)
theory Word_Facts
  imports Kafgres_Prelude
begin

text \<open>
  Signed readings of machine words: when a word's signed and unsigned values agree, and when the
  wrapping operations of the code do not wrap.
\<close>

lemma sint_nonneg_uint: "0 \<le> sint w \<Longrightarrow> sint w = uint w" for w :: "'a::len word"
proof -
  assume "0 \<le> sint w"
  then have "\<not> bit (uint w) (LENGTH('a) - 1)" by (simp add: sint_uint)
  moreover have "take_bit LENGTH('a) (uint w) = uint w"
    using unsigned_less [where 'a = int, of w] by (simp add: take_bit_int_eq_self)
  ultimately show ?thesis
    by (simp add: sint_uint signed_take_bit_eq_take_bit_minus)
qed

lemma sint_nonneg_unat: "0 \<le> sint w \<Longrightarrow> sint w = int (unat w)"
  by (simp add: sint_nonneg_uint)

lemma sint_bounds: "- (2 ^ (LENGTH('a) - 1)) \<le> sint w \<and> sint w < 2 ^ (LENGTH('a) - 1)" for w :: "'a::len word"
  by (simp add: sint_greater_eq sint_less)

lemma sint_word_of_int:
  "- (2 ^ (LENGTH('a) - 1)) \<le> k \<Longrightarrow> k < 2 ^ (LENGTH('a) - 1) \<Longrightarrow> sint (word_of_int k :: 'a::len word) = k"
  by (simp add: signed_of_int signed_take_bit_int_eq_self)

lemma sint_add_exact:
  assumes "- (2 ^ (LENGTH('a) - 1)) \<le> sint a + sint b" and "sint a + sint b < 2 ^ (LENGTH('a) - 1)"
  shows "sint (a + b) = sint (a :: 'a::len word) + sint b"
proof -
  have "a + b = word_of_int (sint a + sint b)" by simp
  then show ?thesis using sint_word_of_int [OF assms] by simp
qed

lemma sint_sub_exact:
  assumes "- (2 ^ (LENGTH('a) - 1)) \<le> sint a - sint b" and "sint a - sint b < 2 ^ (LENGTH('a) - 1)"
  shows "sint (a - b) = sint (a :: 'a::len word) - sint b"
proof -
  have "a - b = word_of_int (sint a - sint b)" by simp
  then show ?thesis using sint_word_of_int [OF assms] by simp
qed

lemma sint_scast_up [simp]: "LENGTH('a) \<le> LENGTH('b) \<Longrightarrow> sint (scast w :: 'b::len word) = sint (w :: 'a::len word)"
proof -
  assume len: "LENGTH('a) \<le> LENGTH('b)"
  have "(2 :: int) ^ (LENGTH('a) - 1) \<le> 2 ^ (LENGTH('b) - 1)"
    using len by (intro power_increasing) simp_all
  then have "- (2 ^ (LENGTH('b) - 1)) \<le> sint w \<and> sint w < (2 :: int) ^ (LENGTH('b) - 1)"
    using sint_bounds [of w] by linarith
  then show ?thesis
    using sint_word_of_int [where 'a = 'b, of "sint w"] by simp
qed

end
