(* ===== verification/Compaction.thy ===== *)
theory Compaction
  imports BatchBuild Word_Facts "HOL-Library.AList"
begin

text \<open>
  The cleaner's arithmetic (\<open>src/codec/src/compaction.rs\<close>): the offset map a pass builds over a
  stretch of log, what the pass keeps of one batch, and the rewrite of a batch to its survivors.

  A \<open>HashMap\<close> is an association list with distinct keys, so that its length is the entry count; no
  result here depends on iteration order. The fingerprint of a key comes from two randomly seeded
  hashers and is the parameter \<open>fp\<close>; the in-memory size of a \<open>KeptRecord\<close> is \<open>kept_size\<close>. The
  iterator is consumed lazily, which shows only where a loop returns before the end: there the model
  recurses over what the iterator yields.
\<close>

record kept_record =
  kept_offset :: i64
  kept_timestamp :: i64
  kept_key :: "bytes option"
  kept_value :: "bytes option"
  kept_headers :: "(bytes \<times> bytes option) list"
  kept_attributes :: i8

subsection \<open>Survivors of a pass over whole batches\<close>

record survivors_rec =
  sv_offsets :: "i64 set"
  sv_control_batches :: "i64 list"
  sv_keys :: nat

record survivors_state =
  ss_latest :: "(bytes \<times> i64 \<times> bool \<times> i64) list"
  ss_control :: "i64 list"
  ss_unkeyed :: "i64 set"

definition survivors_record :: "record_batch \<Rightarrow> record_ref \<Rightarrow> survivors_state \<Rightarrow> survivors_state" where
  "survivors_record b r st =
     (let off = base_offset b + scast (rec_offset_delta r) in
      case rec_key r of
        None \<Rightarrow> st\<lparr>ss_unkeyed := insert off (ss_unkeyed st)\<rparr>
      | Some key \<Rightarrow>
          let ts = base_timestamp b + rec_timestamp_delta r;
              entry = (off, rec_value r = None, ts) in
          (case map_of (ss_latest st) key of
             None \<Rightarrow> st\<lparr>ss_latest := AList.update key entry (ss_latest st)\<rparr>
           | Some e \<Rightarrow>
               if sint off > sint (fst e) then st\<lparr>ss_latest := AList.update key entry (ss_latest st)\<rparr>
               else st))"

fun survivors_scan :: "codec_env \<Rightarrow> record_batch list \<Rightarrow> survivors_state \<Rightarrow> batch_error + survivors_state" where
  "survivors_scan env [] st = Inr st"
| "survivors_scan env (b # bs) st =
     (if is_control b
      then survivors_scan env bs (st\<lparr>ss_control := ss_control st @ [base_offset b]\<rparr>)
      else rbind (iterate_records env (records_decompressed env b)) (\<lambda>rs.
        survivors_scan env bs (fold (survivors_record b) rs st)))"

definition survivors_until :: "codec_env \<Rightarrow> record_batch list \<Rightarrow> i64 \<Rightarrow> batch_error + survivors_rec" where
  "survivors_until env batches tombstone_cutoff =
     rbind (survivors_scan env batches \<lparr>ss_latest = [], ss_control = [], ss_unkeyed = {}\<rparr>) (\<lambda>st.
       let offsets = set (map (\<lambda>(k, off, tomb, ts). off)
             (filter (\<lambda>(k, off, tomb, ts). \<not> (tomb \<and> sint ts < sint tombstone_cutoff)) (ss_latest st)))
       in Inr \<lparr>sv_offsets = offsets \<union> ss_unkeyed st, sv_control_batches = ss_control st,
               sv_keys = length (ss_latest st)\<rparr>)"

definition I64_MIN :: i64 where
  "I64_MIN = 0x8000000000000000"

definition survivors :: "codec_env \<Rightarrow> record_batch list \<Rightarrow> batch_error + survivors_rec" where
  "survivors env batches = survivors_until env batches I64_MIN"

definition keeps :: "survivors_rec \<Rightarrow> i64 \<Rightarrow> bool" where
  "keeps s off \<longleftrightarrow> off \<in> sv_offsets s"

definition keeps_control_batch :: "survivors_rec \<Rightarrow> i64 \<Rightarrow> bool" where
  "keeps_control_batch s off \<longleftrightarrow> off \<in> set (sv_control_batches s)"

subsection \<open>The offset map\<close>

type_synonym fingerprint = "128 word"

record offset_map =
  om_latest :: "(fingerprint \<times> i64) list"
  om_end :: i64

definition offset_map_default :: offset_map where
  "offset_map_default = \<lparr>om_latest = [], om_end = - 1\<rparr>"

text \<open>\<open>*e = (*e).max(offset)\<close> on the entry of \<open>f\<close>, inserted if vacant.\<close>

definition raise_latest :: "fingerprint \<Rightarrow> i64 \<Rightarrow> (fingerprint \<times> i64) list \<Rightarrow> (fingerprint \<times> i64) list" where
  "raise_latest f off l =
     AList.update f (case map_of l f of None \<Rightarrow> off | Some o' \<Rightarrow> max_i64 o' off) l"

text \<open>The loop over the batch's keys: \<open>None\<close> when the map would pass \<open>max_keys\<close>.\<close>

fun add_keys :: "(bytes \<Rightarrow> fingerprint) \<Rightarrow> (fingerprint \<times> i64) list \<Rightarrow> nat \<Rightarrow> i64 \<Rightarrow>
    (fingerprint \<times> i64) list \<Rightarrow> nat \<Rightarrow> (batch_error + record_ref) list \<Rightarrow>
    batch_error + (fingerprint \<times> i64) list option" where
  "add_keys fp latest max_keys base found new [] = Inr (Some found)"
| "add_keys fp latest max_keys base found new (Inl e # rs) = Inl e"
| "add_keys fp latest max_keys base found new (Inr r # rs) =
     (case rec_key r of
        None \<Rightarrow> add_keys fp latest max_keys base found new rs
      | Some key \<Rightarrow>
          let f = fp key;
              off = base + scast (rec_offset_delta r);
              new = (if map_of found f = None \<and> map_of latest f = None then new + 1 else new);
              found = raise_latest f off found
          in if latest \<noteq> [] \<and> length latest + new > max_keys then Inr None
             else add_keys fp latest max_keys base found new rs)"

definition add_batch :: "codec_env \<Rightarrow> (bytes \<Rightarrow> fingerprint) \<Rightarrow> offset_map \<Rightarrow> record_batch \<Rightarrow> nat \<Rightarrow>
    batch_error + (bool \<times> offset_map)" where
  "add_batch env fp m b max_keys =
     (if is_control b then Inr (True, m\<lparr>om_end := max_i64 (om_end m) (last_offset b)\<rparr>)
      else rbind (stream_keys env b) (\<lambda>it.
        rbind (add_keys fp (om_latest m) max_keys (base_offset b) [] 0 (record_iter_all env it)) (\<lambda>res.
          case res of
            None \<Rightarrow> Inr (False, m)
          | Some found \<Rightarrow>
              Inr (True, \<lparr>om_latest = fold (\<lambda>(f, off). raise_latest f off) found (om_latest m),
                          om_end = max_i64 (om_end m) (last_offset b)\<rparr>))))"

definition superseded :: "(bytes \<Rightarrow> fingerprint) \<Rightarrow> offset_map \<Rightarrow> bytes \<Rightarrow> i64 \<Rightarrow> bool" where
  "superseded fp m key off \<longleftrightarrow>
     (case map_of (om_latest m) (fp key) of None \<Rightarrow> False | Some l \<Rightarrow> sint l > sint off)"

subsection \<open>Cleaning one batch\<close>

definition kept_of :: "record_batch \<Rightarrow> record_ref \<Rightarrow> kept_record" where
  "kept_of b r = \<lparr>kept_offset = base_offset b + scast (rec_offset_delta r),
     kept_timestamp = base_timestamp b + rec_timestamp_delta r, kept_key = rec_key r,
     kept_value = rec_value r, kept_headers = rec_headers r, kept_attributes = rec_attributes r\<rparr>"

definition record_goes :: "(bytes \<Rightarrow> fingerprint) \<Rightarrow> offset_map \<Rightarrow> (i64 \<Rightarrow> bool) \<Rightarrow> record_batch \<Rightarrow> record_ref \<Rightarrow> bool" where
  "record_goes fp m tombstone_goes b r =
     (let off = base_offset b + scast (rec_offset_delta r) in
      sint off \<le> sint (om_end m)
      \<and> (case rec_key r of
           None \<Rightarrow> False
         | Some key \<Rightarrow> superseded fp m key off \<or> (rec_value r = None \<and> tombstone_goes off)))"

definition field_len :: "bytes option \<Rightarrow> nat" where
  "field_len f = (case f of None \<Rightarrow> 0 | Some b \<Rightarrow> length b)"

definition record_memory :: "codec_env \<Rightarrow> nat \<Rightarrow> record_ref \<Rightarrow> nat" where
  "record_memory env kept_size r =
     kept_size + (field_len (rec_key r) + field_len (rec_value r))
     + sum_list (map (\<lambda>(n, v). header_entry_size env + length n + field_len v) (rec_headers r))"

text \<open>The loop of \<open>clean_batch\<close>, with \<open>kept\<close>, \<open>kept_bytes\<close> and \<open>dropped\<close> so far.\<close>

fun clean_records :: "codec_env \<Rightarrow> nat \<Rightarrow> (record_ref \<Rightarrow> bool) \<Rightarrow> record_batch \<Rightarrow> kept_record list \<Rightarrow> nat \<Rightarrow> bool \<Rightarrow>
    (batch_error + record_ref) list \<Rightarrow> batch_error + kept_record list option" where
  "clean_records env kept_size goes b kept kept_bytes dropped [] = Inr (if dropped then Some kept else None)"
| "clean_records env kept_size goes b kept kept_bytes dropped (Inl e # rs) =
     (if e = DecompressedTooLarge then Inr None else Inl e)"
| "clean_records env kept_size goes b kept kept_bytes dropped (Inr r # rs) =
     (if goes r then clean_records env kept_size goes b kept kept_bytes True rs
      else if compression_type b \<noteq> 0 \<and> kept_bytes + record_memory env kept_size r > MAX_DECOMPRESSED_BYTES
        then Inr None
      else clean_records env kept_size goes b (kept @ [kept_of b r])
             (if compression_type b \<noteq> 0 then kept_bytes + record_memory env kept_size r else kept_bytes)
             dropped rs)"

definition clean_batch :: "codec_env \<Rightarrow> nat \<Rightarrow> (bytes \<Rightarrow> fingerprint) \<Rightarrow> record_batch \<Rightarrow> offset_map \<Rightarrow>
    (i64 \<Rightarrow> bool) \<Rightarrow> batch_error + kept_record list option" where
  "clean_batch env kept_size fp b m tombstone_goes =
     (if is_control b \<or> sint (base_offset b) > sint (om_end m) then Inr None
      else case stream_records env b of
        Inl e \<Rightarrow> (if e = DecompressedTooLarge then Inr None else Inl e)
      | Inr it \<Rightarrow> clean_records env kept_size (record_goes fp m tombstone_goes b) b [] 0 False
                     (record_iter_all env it))"

subsection \<open>Rewriting a batch\<close>

fun put_headers :: "bytes \<Rightarrow> (bytes \<times> bytes option) list \<Rightarrow> bytes" where
  "put_headers one [] = one"
| "put_headers one ((name, v) # hs) =
     put_headers (put_opt_field (put_varint_i32 one (word_of_nat (length name)) @ name) v) hs"

definition put_kept_record :: "i64 \<Rightarrow> i64 \<Rightarrow> kept_record \<Rightarrow> bytes \<Rightarrow> bytes" where
  "put_kept_record base_off base_ts r body =
     (let one = put_i8 [] (kept_attributes r);
          one = put_varint_i64 one (kept_timestamp r - base_ts);
          one = put_varint_i32 one (ucast (kept_offset r - base_off));
          one = put_opt_field one (kept_key r);
          one = put_opt_field one (kept_value r);
          one = put_varint_i32 one (word_of_nat (length (kept_headers r)));
          one = put_headers one (kept_headers r)
      in put_varint_i32 body (word_of_nat (length one)) @ one)"

definition rebuild_batch :: "(bytes \<Rightarrow> u32) \<Rightarrow> record_batch \<Rightarrow> kept_record list \<Rightarrow> bytes option" where
  "rebuild_batch crc src kept =
     (case kept of
        [] \<Rightarrow> None
      | k # _ \<Rightarrow>
          let base_off = kept_offset k;
              last_delta = ucast (kept_offset (last kept) - base_off);
              base_ts = kept_timestamp k;
              max_ts = foldl max_i64 base_ts (map kept_timestamp kept);
              body = fold (put_kept_record base_off base_ts) kept [];
              b = batch_header base_off (partition_leader_epoch src) (attributes src AND NOT 0x07)
                    last_delta base_ts max_ts (producer_id src) (producer_epoch src) (base_sequence src)
                    (word_of_nat (length kept))
          in Some (seal_batch crc (b @ body)))"

subsection \<open>The latest offset of a fingerprint\<close>

definition join_latest :: "i64 option \<Rightarrow> i64 option \<Rightarrow> i64 option" where
  "join_latest a b = (case (a, b) of (None, _) \<Rightarrow> b | (_, None) \<Rightarrow> a | (Some x, Some y) \<Rightarrow> Some (max_i64 x y))"

lemma max_i64_assoc: "max_i64 (max_i64 a b) c = max_i64 a (max_i64 b c)"
  by (auto simp: max_i64_def)

lemma sint_max_i64: "sint (max_i64 a b) = max (sint a) (sint b)"
  by (simp add: max_i64_def max_def)

lemma join_latest_simps [simp]:
  "join_latest None b = b" "join_latest a None = a" "join_latest (Some x) (Some y) = Some (max_i64 x y)"
  by (simp_all add: join_latest_def split: option.split)

lemma join_latest_assoc: "join_latest (join_latest a b) c = join_latest a (join_latest b c)"
  by (cases a; cases b; cases c) (simp_all add: max_i64_assoc)

text \<open>The keyed records of a batch with their absolute offsets, and the highest of one fingerprint.\<close>

fun keyed :: "i64 \<Rightarrow> record_ref list \<Rightarrow> (bytes \<times> i64) list" where
  "keyed base [] = []"
| "keyed base (r # rs) = (case rec_key r of None \<Rightarrow> keyed base rs
     | Some k \<Rightarrow> (k, base + scast (rec_offset_delta r)) # keyed base rs)"

fun latest_in :: "(bytes \<Rightarrow> fingerprint) \<Rightarrow> fingerprint \<Rightarrow> (bytes \<times> i64) list \<Rightarrow> i64 option" where
  "latest_in fp f [] = None"
| "latest_in fp f ((k, off) # rs) =
     (if fp k = f then join_latest (Some off) (latest_in fp f rs) else latest_in fp f rs)"

lemma latest_in_append: "latest_in fp f (xs @ ys) = join_latest (latest_in fp f xs) (latest_in fp f ys)"
  by (induction xs) (auto simp: join_latest_assoc)

lemma latest_in_iff:
  "(\<exists>l. latest_in fp f rs = Some l \<and> off < sint l) \<longleftrightarrow> (\<exists>(k, o') \<in> set rs. fp k = f \<and> off < sint o')"
proof (induction rs)
  case (Cons p rs)
  obtain k o' where p: "p = (k, o')" by (cases p)
  show ?case
  proof (cases "fp k = f")
    case True
    then show ?thesis
      using Cons by (cases "latest_in fp f rs") (auto simp: p sint_max_i64 less_max_iff_disj)
  next
    case False
    then show ?thesis using Cons by (auto simp: p)
  qed
qed simp

lemma map_of_raise_latest:
  "map_of (raise_latest f off l) g = (if g = f then join_latest (map_of l f) (Some off) else map_of l g)"
  by (simp add: raise_latest_def update_conv' split: option.split)

lemma distinct_raise_latest: "distinct (map fst l) \<Longrightarrow> distinct (map fst (raise_latest f off l))"
  by (simp add: raise_latest_def distinct_update)

lemma map_of_merge:
  "distinct (map fst found) \<Longrightarrow> map_of (fold (\<lambda>(f, off). raise_latest f off) found l) g
     = join_latest (map_of l g) (map_of found g)"
proof (induction found arbitrary: l)
  case (Cons p found)
  obtain f off where p: "p = (f, off)" by (cases p)
  have "map_of found f = None"
    using Cons.prems p by (simp add: map_of_eq_None_iff)
  then show ?case
    using Cons by (auto simp: p map_of_raise_latest)
qed simp

lemma distinct_merge:
  "distinct (map fst l) \<Longrightarrow> distinct (map fst (fold (\<lambda>(f, off). raise_latest f off) found l))"
  by (induction found arbitrary: l) (auto simp: distinct_raise_latest)

lemma add_keys_found:
  assumes "add_keys fp latest max_keys base found new items = Inr (Some found')"
    and "distinct (map fst found)"
  shows "distinct (map fst found') \<and> (\<exists>rs. items = map Inr rs
     \<and> (\<forall>g. map_of found' g = join_latest (map_of found g) (latest_in fp g (keyed base rs))))"
  using assms
proof (induction fp latest max_keys base found new items rule: add_keys.induct)
  case (3 fp latest max_keys base found new r rs)
  show ?case
  proof (cases "rec_key r")
    case None
    with 3 show ?thesis by (force simp: Cons_eq_map_conv)
  next
    case (Some k)
    let ?off = "base + scast (rec_offset_delta r)"
    let ?found = "raise_latest (fp k) ?off found"
    let ?new = "if map_of found (fp k) = None \<and> map_of latest (fp k) = None then new + 1 else new"
    from "3.prems"(1) Some have go: "\<not> (latest \<noteq> [] \<and> length latest + ?new > max_keys)"
      and rec: "add_keys fp latest max_keys base ?found ?new rs = Inr (Some found')"
      by (auto simp: Let_def split: if_splits)
    have "distinct (map fst found') \<and> (\<exists>rs'. rs = map Inr rs'
       \<and> (\<forall>g. map_of found' g = join_latest (map_of ?found g) (latest_in fp g (keyed base rs'))))"
      using "3.IH"(2) [OF Some refl refl refl refl go rec] distinct_raise_latest [OF "3.prems"(2)] by blast
    then obtain rs' where "distinct (map fst found')" and rs': "rs = map Inr rs'"
      and m: "\<forall>g. map_of found' g = join_latest (map_of ?found g) (latest_in fp g (keyed base rs'))"
      by blast
    moreover have "\<forall>g. map_of found' g = join_latest (map_of found g) (latest_in fp g (keyed base (r # rs')))"
      using m Some by (simp add: map_of_raise_latest join_latest_assoc)
    moreover have "Inr r # rs = map Inr (r # rs')" using rs' by simp
    ultimately show ?thesis by metis
  qed
qed simp_all

subsection \<open>The map of a stretch of log\<close>

definition log_keys :: "codec_env \<Rightarrow> record_batch \<Rightarrow> (bytes \<times> i64) list" where
  "log_keys env b =
     (if is_control b then []
      else case iterate_records env (stream_keys env b) of Inl e \<Rightarrow> [] | Inr rs \<Rightarrow> keyed (base_offset b) rs)"

text \<open>The map after every batch of a stretch has been added, \<open>None\<close> if one did not fit or decode.\<close>

fun build_map :: "codec_env \<Rightarrow> (bytes \<Rightarrow> fingerprint) \<Rightarrow> nat \<Rightarrow> offset_map \<Rightarrow> record_batch list \<Rightarrow> offset_map option" where
  "build_map env fp max_keys m [] = Some m"
| "build_map env fp max_keys m (b # bs) =
     (case add_batch env fp m b max_keys of
        Inl e \<Rightarrow> None
      | Inr (added, m') \<Rightarrow> if added then build_map env fp max_keys m' bs else None)"

lemma collect_map_Inr [simp]: "collect_results (map Inr xs) = Inr xs"
  by (induction xs) auto

lemma collect_results_Inr_iff: "collect_results items = Inr xs \<longleftrightarrow> items = map Inr xs"
proof (induction items arbitrary: xs)
  case (Cons i items)
  then show ?case by (cases i) (auto simp: rbind_eq_Inr Cons_eq_map_conv)
qed auto

lemma add_batch_latest:
  assumes "add_batch env fp m b max_keys = Inr (True, m')" and "distinct (map fst (om_latest m))"
  shows "distinct (map fst (om_latest m'))
     \<and> (\<forall>g. map_of (om_latest m') g = join_latest (map_of (om_latest m) g) (latest_in fp g (log_keys env b)))
     \<and> om_end m' = max_i64 (om_end m) (last_offset b)"
proof (cases "is_control b")
  case True
  with assms show ?thesis by (auto simp: add_batch_def log_keys_def)
next
  case False
  with assms(1) obtain it found where it: "stream_keys env b = Inr it"
      and keys: "add_keys fp (om_latest m) max_keys (base_offset b) [] 0 (record_iter_all env it) = Inr (Some found)"
      and m': "m' = \<lparr>om_latest = fold (\<lambda>(f, off). raise_latest f off) found (om_latest m),
         om_end = max_i64 (om_end m) (last_offset b)\<rparr>"
    by (auto simp: add_batch_def rbind_eq_Inr split: option.splits)
  from add_keys_found [OF keys] obtain rs where d: "distinct (map fst found)"
      and items: "record_iter_all env it = map Inr rs"
      and found: "\<forall>g. map_of found g = latest_in fp g (keyed (base_offset b) rs)"
    by auto
  have "log_keys env b = keyed (base_offset b) rs"
    using False it items by (simp add: log_keys_def iterate_records_def)
  then show ?thesis
    using m' d found assms(2) by (simp add: map_of_merge distinct_merge)
qed

lemma build_map_latest:
  assumes "build_map env fp max_keys m bs = Some m'" and "distinct (map fst (om_latest m))"
  shows "map_of (om_latest m') g
     = join_latest (map_of (om_latest m) g) (latest_in fp g (concat (map (log_keys env) bs)))"
  using assms
proof (induction env fp max_keys m bs rule: build_map.induct)
  case (2 env fp max_keys m b bs)
  then obtain m1 where step: "add_batch env fp m b max_keys = Inr (True, m1)"
      and rest: "build_map env fp max_keys m1 bs = Some m'"
    by (auto split: sum.splits if_splits)
  note one = add_batch_latest [OF step "2.prems"(2)]
  have "map_of (om_latest m') g
     = join_latest (map_of (om_latest m1) g) (latest_in fp g (concat (map (log_keys env) bs)))"
    using "2.IH" [OF step refl _ rest] one by simp
  with one show ?case by (simp add: latest_in_append join_latest_assoc)
qed simp

lemma superseded_iff:
  assumes "build_map env fp max_keys offset_map_default bs = Some m"
  shows "superseded fp m key off \<longleftrightarrow>
     (\<exists>(k, o') \<in> set (concat (map (log_keys env) bs)). fp k = fp key \<and> sint off < sint o')"
  using build_map_latest [OF assms, of "fp key"] latest_in_iff [of fp "fp key" "concat (map (log_keys env) bs)" "sint off"]
  by (auto simp: superseded_def offset_map_default_def split: option.splits)

subsection \<open>What cleaning keeps\<close>

lemma clean_records_Some:
  assumes "clean_records env ks goes b kept kb dropped items = Inr (Some out)"
  shows "\<exists>rs. items = map Inr rs \<and> out = kept @ map (kept_of b) (filter (\<lambda>r. \<not> goes r) rs)
     \<and> (dropped \<or> (\<exists>r \<in> set rs. goes r))"
  using assms
proof (induction env ks goes b kept kb dropped items rule: clean_records.induct)
  case (1 env ks goes b kept kb dropped)
  then show ?case by (simp split: if_splits)
next
  case (2 env ks goes b kept kb dropped e rs)
  then show ?case by (simp split: if_splits)
next
  case (3 env ks goes b kept kb dropped r rs)
  show ?case
  proof (cases "goes r")
    case True
    with 3 obtain rs' where "rs = map Inr rs'" "out = kept @ map (kept_of b) (filter (\<lambda>r. \<not> goes r) rs')"
      by auto
    with True show ?thesis by (intro exI [of _ "r # rs'"]) simp
  next
    case False
    with "3.prems" have c: "\<not> (compression_type b \<noteq> 0 \<and> kb + record_memory env ks r > MAX_DECOMPRESSED_BYTES)"
      by (auto split: if_splits)
    with False "3.prems" "3.IH"(2) [OF False c] obtain rs' where
      "rs = map Inr rs'" "out = (kept @ [kept_of b r]) @ map (kept_of b) (filter (\<lambda>r. \<not> goes r) rs')"
      "dropped \<or> (\<exists>r \<in> set rs'. goes r)"
      by auto
    with False show ?thesis by (intro exI [of _ "r # rs'"]) auto
  qed
qed

lemma clean_records_None:
  assumes "clean_records env ks goes b kept kb dropped (map Inr rs) = Inr None" and "compression_type b = 0"
  shows "\<not> dropped \<and> (\<forall>r \<in> set rs. \<not> goes r)"
  using assms by (induction rs arbitrary: kept kb dropped) (auto split: if_splits)

lemma clean_batch_Some:
  assumes "clean_batch env ks fp b m tg = Inr (Some kept)"
  shows "\<exists>rs. iterate_records env (stream_records env b) = Inr rs
     \<and> kept = map (kept_of b) (filter (\<lambda>r. \<not> record_goes fp m tg b r) rs)
     \<and> (\<exists>r \<in> set rs. record_goes fp m tg b r)"
  using assms
  by (auto simp: clean_batch_def iterate_records_def split: if_splits sum.splits dest!: clean_records_Some)

subsection \<open>What rewriting writes\<close>

definition kept_ref :: "i64 \<Rightarrow> i64 \<Rightarrow> kept_record \<Rightarrow> record_ref" where
  "kept_ref base_off base_ts k = \<lparr>rec_offset_delta = ucast (kept_offset k - base_off),
     rec_timestamp_delta = kept_timestamp k - base_ts, rec_key = kept_key k, rec_value = kept_value k,
     rec_headers = kept_headers k, rec_attributes = kept_attributes k\<rparr>"

lemma put_headers_wire: "put_headers one hs = one @ concat (map header_wire hs)"
proof (induction hs arbitrary: one)
  case (Cons h hs)
  then show ?case
    by (cases h) (simp add: put_opt_field_wire put_varint_i32_leb header_wire_def [of h] header_wire_def [of "(_, _)"])
qed simp

lemma put_kept_record_wire:
  "put_kept_record base_off base_ts k body = body @ record_wire (kept_ref base_off base_ts k)"
  by (simp add: put_kept_record_def Let_def put_i8_def put_varint_i64_leb put_varint_i32_leb
      put_opt_field_wire put_headers_wire record_wire_def record_body_def kept_ref_def add.assoc)

lemma put_kept_records_wire:
  "fold (put_kept_record base_off base_ts) kept body
     = body @ concat (map record_wire (map (kept_ref base_off base_ts) kept))"
  by (induction kept arbitrary: body) (simp_all add: put_kept_record_wire)

lemma rebuild_batch_wire:
  assumes "kept \<noteq> []"
  shows "rebuild_batch crc src kept = Some (batch_wire crc (kept_offset (hd kept)) (partition_leader_epoch src)
     (attributes src AND NOT 7) (ucast (kept_offset (last kept) - kept_offset (hd kept)))
     (kept_timestamp (hd kept)) (foldl max_i64 (kept_timestamp (hd kept)) (map kept_timestamp kept))
     (producer_id src) (producer_epoch src) (base_sequence src) (word_of_nat (length kept))
     (concat (map record_wire (map (kept_ref (kept_offset (hd kept)) (kept_timestamp (hd kept))) kept))))"
  using assms
  by (cases kept) (simp_all add: rebuild_batch_def Let_def seal_batch_wire put_kept_records_wire put_kept_record_wire)

lemma scast_ucast_i32:
  assumes "- 2147483648 \<le> sint d" and "sint d \<le> 2147483647"
  shows "(scast (ucast d :: i32) :: i64) = d" and "sint (ucast d :: i32) = sint d"
proof -
  have "(ucast d :: i32) = word_of_int (sint d)"
    by (rule bit_word_eqI) (auto simp: bit_simps)
  then show s: "sint (ucast d :: i32) = sint d"
    using assms sint_word_of_int [where 'a = 32, of "sint d"] by simp
  have "(scast (ucast d :: i32) :: i64) = word_of_int (sint (ucast d :: i32))"
    by simp
  then show "(scast (ucast d :: i32) :: i64) = d"
    unfolding s by simp
qed

text \<open>Every offset a batch can hold is its base plus a delta the wire form carries.\<close>

definition kept_span_ok :: "kept_record list \<Rightarrow> bool" where
  "kept_span_ok kept \<longleftrightarrow> (\<forall>k \<in> set kept. sint (kept_offset (hd kept)) \<le> sint (kept_offset k)
     \<and> sint (kept_offset k) - sint (kept_offset (hd kept)) \<le> 2147483647)"

lemma kept_delta:
  assumes "kept_span_ok kept" and "k \<in> set kept"
  shows "kept_offset (hd kept) + scast (ucast (kept_offset k - kept_offset (hd kept)) :: i32) = kept_offset k"
    and "0 \<le> sint (ucast (kept_offset k - kept_offset (hd kept)) :: i32)"
proof -
  let ?d = "kept_offset k - kept_offset (hd kept)"
  from assms have d: "sint ?d = sint (kept_offset k) - sint (kept_offset (hd kept))"
    by (intro sint_sub_exact) (auto simp: kept_span_ok_def)
  with assms have r: "0 \<le> sint ?d" "sint ?d \<le> 2147483647"
    by (auto simp: kept_span_ok_def)
  then show "kept_offset (hd kept) + scast (ucast ?d :: i32) = kept_offset k"
    by (simp add: scast_ucast_i32)
  show "0 \<le> sint (ucast ?d :: i32)"
    using r by (simp add: scast_ucast_i32)
qed

lemma rebuild_batch_iterate:
  assumes rb: "rebuild_batch crc src kept = Some out" and len: "length out \<le> 2147483647"
    and span: "kept_span_ok kept"
  defines "b \<equiv> RecordBatch out"
  shows "validated crc out = Inr (ValidatedBatch b)"
    and "\<exists>refs. iterate_records env (records b) = Inr refs \<and> map (kept_of b) refs = kept"
    and "base_offset b = kept_offset (hd kept)" and "last_offset b = kept_offset (last kept)"
    and "compression_type b = 0" and "partition_leader_epoch b = partition_leader_epoch src"
    and "producer_id b = producer_id src" and "producer_epoch b = producer_epoch src"
    and "base_sequence b = base_sequence src" and "is_transactional b = is_transactional src"
proof -
  from rb have ne: "kept \<noteq> []" by (auto simp: rebuild_batch_def)
  let ?o = "kept_offset (hd kept)" and ?t = "kept_timestamp (hd kept)"
  let ?refs = "map (kept_ref ?o ?t) kept"
  let ?body = "concat (map record_wire ?refs)"
  let ?ld = "ucast (kept_offset (last kept) - ?o) :: i32"
  have out: "out = batch_wire crc ?o (partition_leader_epoch src) (attributes src AND NOT 7) ?ld ?t
      (foldl max_i64 ?t (map kept_timestamp kept)) (producer_id src) (producer_epoch src)
      (base_sequence src) (word_of_nat (length ?refs)) ?body"
    using rb rebuild_batch_wire [OF ne, of crc src] by simp
  note fields = batch_wire_fields [of crc ?o "partition_leader_epoch src" "attributes src AND NOT 7" ?ld ?t
      "foldl max_i64 ?t (map kept_timestamp kept)" "producer_id src" "producer_epoch src"
      "base_sequence src" "word_of_nat (length ?refs)" ?body, folded out, folded b_def]
  have small: "length ?body + 49 < 2 ^ 31"
    using fields(14) len by (simp add: b_def del: length_concat)
  then have n: "length kept < 2 ^ 31"
    using record_wires_small(1) [of ?refs] by (simp del: length_concat)
  have low: "(attributes src AND NOT 7) AND 7 = 0"
    by (simp add: and.assoc)
  show "validated crc out = Inr (ValidatedBatch b)"
    unfolding b_def out using small n kept_delta(2) [OF span] ne
    by (intro batch_wire_validated) (simp_all add: sint_nat31 del: length_concat)
  have "iterate_records env (records b) = Inr ?refs"
    unfolding b_def out using small low by (intro batch_wire_iterate(1)) (simp_all del: length_concat)
  moreover have "map (kept_of b) ?refs = kept"
    using kept_delta(1) [OF span] by (intro map_idI [of kept "kept_of b \<circ> kept_ref ?o ?t", unfolded map_map [symmetric]])
      (simp add: kept_of_def kept_ref_def fields)
  ultimately show "\<exists>refs. iterate_records env (records b) = Inr refs \<and> map (kept_of b) refs = kept"
    by blast
  show "last_offset b = kept_offset (last kept)"
    using kept_delta(1) [OF span, of "last kept"] ne by (simp add: last_offset_def fields)
  show "compression_type b = 0"
    using low by (simp add: compression_type_def fields COMPRESSION_MASK_def)
  show "is_transactional b = is_transactional src"
    by (simp add: is_transactional_def fields TRANSACTIONAL_FLAG_def and.assoc)
  show "base_offset b = kept_offset (hd kept)" and "partition_leader_epoch b = partition_leader_epoch src"
    and "producer_id b = producer_id src" and "producer_epoch b = producer_epoch src"
    and "base_sequence b = base_sequence src"
    by (simp_all add: fields)
qed

end
