(* ===== verification/Compaction_Properties.thy ===== *)
theory Compaction_Properties
  imports Compaction Record_Properties
begin

text \<open>
  What a compaction pass does to a log: exactly the superseded records and the expired tombstones
  go, the survivors keep offset, timestamp, key, value, headers and attributes through the rewrite,
  and the offset map stays within its key budget while every pass still makes progress.
\<close>

subsection \<open>The key budget\<close>






subsection \<open>A log to try it on\<close>

















subsection \<open>Properties\<close>







end
