(* ===== verification/Producer.thy ===== *)
theory Producer
  imports Word_Facts "HOL-Library.Multiset"
begin

text \<open>
  Idempotent producers (\<open>src/extension/src/producer.rs\<close>): producer ids and epochs, the five-deep
  window of sequence ranges, the verdict on an incoming batch, and the sweep of idle producers.

  The state is the three tables the statements touch, as lists of rows, and the two sequences that
  number them (\<open>src/extension/src/init040.rs\<close> and \<open>init150.rs\<close> declare them). A statement is a
  function on that state. Times are milliseconds. \<open>producer_epoch\<close> is a \<open>smallint\<close>, so an increment
  past 32767 fails the statement: \<open>NumericOutOfRange\<close>.
\<close>

datatype pg_error = NumericOutOfRange

record producer_row =
  pr_producer_id :: i64
  pr_producer_epoch :: i16
  pr_transactional_id :: "bytes option"
  pr_retired_producer_id :: "i64 option"
  pr_retired_epoch :: "i16 option"
  pr_retired_committed :: "bool option"
  pr_last_ts :: int

record batch_row =
  br_producer_id :: i64
  br_topic_id :: u32
  br_partition :: i32
  br_epoch :: i16
  br_first_seq :: i32
  br_last_seq :: i32
  br_base_offset :: i64
  br_added_seq :: nat

text \<open>\<open>kafgres_txns\<close> (\<open>init090.rs\<close>, \<open>init190.rs\<close>), one row per producer id. Its epoch column is an \<open>int\<close>
  that only ever holds an \<open>i16\<close>.\<close>

datatype txn_state = TxnEmpty | TxnOngoing | TxnCommitted | TxnAborted

record txn_row =
  tx_producer_id :: i64
  tx_producer_epoch :: i16
  tx_transactional_id :: bytes
  tx_state :: txn_state
  tx_started_at :: int
  tx_timeout_ms :: i32
  tx_forced_result :: "bool option"
  tx_offsets_partitions :: "i32 list"

record producer_db =
  db_producers :: "producer_row list"
  db_batches :: "batch_row list"
  db_txns :: "txn_row list"
  db_producer_id_seq :: i64
  db_batch_seq :: nat
  db_epoch_start :: "u32 \<Rightarrow> i32 \<Rightarrow> i64 option"

definition RETAINED_BATCHES :: nat where "RETAINED_BATCHES = 5"
definition NO_PRODUCER_ID :: i64 where "NO_PRODUCER_ID = - 1"
definition NO_SEQUENCE :: i32 where "NO_SEQUENCE = - 1"
definition LAST_TS_GRANULARITY_MS :: int where "LAST_TS_GRANULARITY_MS = 60 * 1000"
definition SWEEP_BATCH :: nat where "SWEEP_BATCH = 500"
definition EVICTION_FLOOR_MS :: int where "EVICTION_FLOOR_MS = 300 * 1000"
definition EPOCH_CEILING :: int where "EPOCH_CEILING = 32767 - 1"
definition I32_MAX :: int where "I32_MAX = 2147483647"

subsection \<open>Sequence arithmetic\<close>

definition increment_sequence :: "i32 \<Rightarrow> i32 \<Rightarrow> i32" where
  "increment_sequence sequence increment =
     (let s = sint sequence; i = sint increment in
      if s > I32_MAX - i then word_of_int (i - (I32_MAX - s) - 1) else word_of_int (s + i))"

definition in_sequence :: "i32 \<Rightarrow> i32 \<Rightarrow> bool" where
  "in_sequence last_seq next_seq \<longleftrightarrow>
     sint next_seq = sint last_seq + 1 \<or> (next_seq = 0 \<and> sint last_seq = I32_MAX)"

subsection \<open>Ids and epochs\<close>

definition bump_on_conflict :: "int \<Rightarrow> producer_row \<Rightarrow> producer_row" where
  "bump_on_conflict now r = r\<lparr>pr_producer_epoch := pr_producer_epoch r + 1, pr_retired_producer_id := None,
     pr_retired_epoch := None, pr_retired_committed := None, pr_last_ts := now\<rparr>"

definition fresh_producer :: "i64 \<Rightarrow> bytes option \<Rightarrow> int \<Rightarrow> producer_row" where
  "fresh_producer pid txn_id now = \<lparr>pr_producer_id = pid, pr_producer_epoch = 0,
     pr_transactional_id = txn_id, pr_retired_producer_id = None, pr_retired_epoch = None,
     pr_retired_committed = None, pr_last_ts = now\<rparr>"

text \<open>\<open>nextval\<close> is taken before the conflict is found, so an upsert that updates still spends an id.\<close>

definition init_producer_id :: "int \<Rightarrow> bytes option \<Rightarrow> producer_db \<Rightarrow> pg_error + ((i64 \<times> i16) \<times> producer_db)" where
  "init_producer_id now transactional_id db =
     (let pid = db_producer_id_seq db;
          db' = db\<lparr>db_producer_id_seq := pid + 1\<rparr>;
          inserted = Inr ((pid, 0), db'\<lparr>db_producers := db_producers db @ [fresh_producer pid transactional_id now]\<rparr>)
      in case transactional_id of
           None \<Rightarrow> inserted
         | Some txn_id \<Rightarrow>
             (case List.find (\<lambda>r. pr_transactional_id r = Some txn_id) (db_producers db) of
                None \<Rightarrow> inserted
              | Some r \<Rightarrow>
                  if sint (pr_producer_epoch r) = 32767 then Inl NumericOutOfRange
                  else Inr ((pr_producer_id r, pr_producer_epoch r + 1),
                    db'\<lparr>db_producers := map (\<lambda>q. if pr_transactional_id q = Some txn_id
                         then bump_on_conflict now q else q) (db_producers db)\<rparr>)))"

text \<open>The first statement of \<open>bump_epoch_for_next_txn\<close>, below the ceiling, and the second, which moves
  the transactional id to a fresh producer id.\<close>

definition retire_and_bump :: "int \<Rightarrow> bool \<Rightarrow> producer_row \<Rightarrow> producer_row" where
  "retire_and_bump now committed r = r\<lparr>pr_retired_producer_id := Some (pr_producer_id r),
     pr_retired_epoch := Some (pr_producer_epoch r), pr_retired_committed := Some committed,
     pr_producer_epoch := pr_producer_epoch r + 1, pr_last_ts := now\<rparr>"

definition move_to_fresh_id :: "int \<Rightarrow> bool \<Rightarrow> producer_row \<Rightarrow> producer_db \<Rightarrow> producer_db" where
  "move_to_fresh_id now committed r db =
     (let pid = pr_producer_id r; fresh = db_producer_id_seq db in
      db\<lparr>db_producer_id_seq := fresh + 1,
         db_producers := filter (\<lambda>q. pr_producer_id q \<noteq> pid) (db_producers db)
           @ [\<lparr>pr_producer_id = fresh, pr_producer_epoch = 0, pr_transactional_id = pr_transactional_id r,
               pr_retired_producer_id = Some pid, pr_retired_epoch = Some (pr_producer_epoch r),
               pr_retired_committed = Some committed, pr_last_ts = now\<rparr>],
         db_txns := map (\<lambda>t. if tx_producer_id t = pid
             then t\<lparr>tx_producer_id := fresh, tx_producer_epoch := 0\<rparr> else t) (db_txns db),
         db_batches := filter (\<lambda>b. br_producer_id b \<noteq> pid) (db_batches db)\<rparr>)"

definition bump_epoch_for_next_txn :: "int \<Rightarrow> i64 \<Rightarrow> bool \<Rightarrow> producer_db \<Rightarrow> (i64 \<times> i16) \<times> producer_db" where
  "bump_epoch_for_next_txn now pid committed db =
     (case List.find (\<lambda>r. pr_producer_id r = pid) (db_producers db) of
        None \<Rightarrow> ((pid, - 1), db)
      | Some r \<Rightarrow>
          if sint (pr_producer_epoch r) < EPOCH_CEILING
          then ((pid, pr_producer_epoch r + 1),
                db\<lparr>db_producers := map (\<lambda>q. if pr_producer_id q = pid
                     then retire_and_bump now committed q else q) (db_producers db)\<rparr>)
          else ((db_producer_id_seq db, 0), move_to_fresh_id now committed r db))"

subsection \<open>The window\<close>

datatype sequence_check =
    CheckAppend
  | CheckDuplicate i64
  | CheckOutOfOrder i32 i32
  | CheckStale
  | CheckFenced i16

definition mine :: "i64 \<Rightarrow> u32 \<Rightarrow> i32 \<Rightarrow> batch_row \<Rightarrow> bool" where
  "mine pid topic part r \<longleftrightarrow> br_producer_id r = pid \<and> br_topic_id r = topic \<and> br_partition r = part"

definition window :: "i64 \<Rightarrow> u32 \<Rightarrow> i32 \<Rightarrow> producer_db \<Rightarrow> batch_row list" where
  "window pid topic part db = sort_key br_added_seq (filter (mine pid topic part) (db_batches db))"

definition epoch_start_of :: "u32 \<Rightarrow> i32 \<Rightarrow> producer_db \<Rightarrow> i64" where
  "epoch_start_of topic part db = (case db_epoch_start db topic part of None \<Rightarrow> 0 | Some o' \<Rightarrow> o')"

definition check_window :: "batch_row list \<Rightarrow> i64 \<Rightarrow> i16 \<Rightarrow> i32 \<Rightarrow> i32 \<Rightarrow> sequence_check" where
  "check_window retained epoch_start epoch first_seq last_seq =
     (if retained = [] then CheckAppend
      else let newest = last retained; current_epoch = br_epoch newest in
        if sint epoch < sint current_epoch then CheckFenced current_epoch
        else if sint epoch > sint current_epoch then
          (if first_seq \<noteq> 0 then CheckOutOfOrder 0 first_seq else CheckAppend)
        else case List.find (\<lambda>r. br_epoch r = current_epoch \<and> br_first_seq r = first_seq
                                 \<and> br_last_seq r = last_seq) retained of
            Some dup \<Rightarrow> CheckDuplicate (br_base_offset dup)
          | None \<Rightarrow>
              if in_sequence (br_last_seq newest) first_seq then CheckAppend
              else if sint (br_base_offset newest) \<ge> 0 \<and> sint (br_base_offset newest) < sint epoch_start
                then CheckStale
              else CheckOutOfOrder (increment_sequence (br_last_seq newest) 1) first_seq)"

definition check :: "i64 \<Rightarrow> i16 \<Rightarrow> i32 \<Rightarrow> i32 \<Rightarrow> u32 \<Rightarrow> i32 \<Rightarrow> producer_db \<Rightarrow> sequence_check" where
  "check pid epoch first_seq last_seq topic part db =
     check_window (window pid topic part db) (epoch_start_of topic part db) epoch first_seq last_seq"

text \<open>The three statements of \<open>record\<close>: the upsert on \<open>(producer_id, topic_id, partition, first_seq)\<close>,
  which numbers the row anew either way; the prune; the refresh of \<open>last_ts\<close>.\<close>

definition upsert_batch :: "i64 \<Rightarrow> i16 \<Rightarrow> u32 \<Rightarrow> i32 \<Rightarrow> i32 \<Rightarrow> i32 \<Rightarrow> i64 \<Rightarrow> producer_db \<Rightarrow> producer_db" where
  "upsert_batch pid epoch topic part first_seq last_seq off db =
     (let s = db_batch_seq db;
          clash = (\<lambda>r. mine pid topic part r \<and> br_first_seq r = first_seq) in
      if (\<exists>r \<in> set (db_batches db). clash r)
      then db\<lparr>db_batch_seq := s + 2,
              db_batches := map (\<lambda>r. if clash r then r\<lparr>br_epoch := epoch, br_last_seq := last_seq,
                br_base_offset := off, br_added_seq := s + 1\<rparr> else r) (db_batches db)\<rparr>
      else db\<lparr>db_batch_seq := s + 1,
              db_batches := db_batches db @ [\<lparr>br_producer_id = pid, br_topic_id = topic, br_partition = part,
                br_epoch = epoch, br_first_seq = first_seq, br_last_seq = last_seq,
                br_base_offset = off, br_added_seq = s\<rparr>]\<rparr>)"

definition prune_batches :: "i64 \<Rightarrow> u32 \<Rightarrow> i32 \<Rightarrow> producer_db \<Rightarrow> producer_db" where
  "prune_batches pid topic part db =
     (let newest_first = rev (window pid topic part db) in
      if length newest_first < RETAINED_BATCHES then db
      else let cut = br_added_seq (newest_first ! (RETAINED_BATCHES - 1)) in
        db\<lparr>db_batches := filter (\<lambda>r. \<not> (mine pid topic part r \<and> br_added_seq r < cut)) (db_batches db)\<rparr>)"

definition touch_producer :: "int \<Rightarrow> i64 \<Rightarrow> producer_db \<Rightarrow> producer_db" where
  "touch_producer now pid db =
     db\<lparr>db_producers := map (\<lambda>r. if pr_producer_id r = pid \<and> pr_last_ts r < now - LAST_TS_GRANULARITY_MS
          then r\<lparr>pr_last_ts := now\<rparr> else r) (db_producers db)\<rparr>"

definition record_batch_seq :: "int \<Rightarrow> i64 \<Rightarrow> i16 \<Rightarrow> u32 \<Rightarrow> i32 \<Rightarrow> i32 \<Rightarrow> i32 \<Rightarrow> i64 \<Rightarrow> producer_db \<Rightarrow> producer_db" where
  "record_batch_seq now pid epoch topic part first_seq last_seq off db =
     touch_producer now pid (prune_batches pid topic part
       (upsert_batch pid epoch topic part first_seq last_seq off db))"

definition forget_past :: "u32 \<Rightarrow> i32 \<Rightarrow> i64 \<Rightarrow> producer_db \<Rightarrow> producer_db" where
  "forget_past topic part end_off db =
     db\<lparr>db_batches := filter (\<lambda>r. \<not> (br_topic_id r = topic \<and> br_partition r = part
          \<and> sint (br_base_offset r) \<ge> sint end_off)) (db_batches db)\<rparr>"

definition stamp_batch :: "i64 \<Rightarrow> u32 \<Rightarrow> i32 \<Rightarrow> i32 \<Rightarrow> i64 \<Rightarrow> producer_db \<Rightarrow> producer_db" where
  "stamp_batch pid topic part first_seq off db =
     db\<lparr>db_batches := map (\<lambda>r. if mine pid topic part r \<and> br_first_seq r = first_seq
          then r\<lparr>br_base_offset := off\<rparr> else r) (db_batches db)\<rparr>"

definition release_batch :: "i64 \<Rightarrow> u32 \<Rightarrow> i32 \<Rightarrow> i32 \<Rightarrow> producer_db \<Rightarrow> producer_db" where
  "release_batch pid topic part first_seq db =
     db\<lparr>db_batches := filter (\<lambda>r. \<not> (mine pid topic part r \<and> br_first_seq r = first_seq
          \<and> sint (br_base_offset r) < 0)) (db_batches db)\<rparr>"

subsection \<open>The sweep\<close>

text \<open>\<open>FOR UPDATE ... SKIP LOCKED\<close>: rows another session holds locked are passed over; \<open>locked\<close> says
  which. SQL leaves the order of rows with equal \<open>last_ts\<close> open; the model takes table order.\<close>

record retention =
  expiration_ms :: i64
  max_ids :: i64

definition has_open_txn :: "producer_db \<Rightarrow> i64 \<Rightarrow> bool" where
  "has_open_txn db pid \<longleftrightarrow> (\<exists>t \<in> set (db_txns db). tx_producer_id t = pid \<and> tx_state t = TxnOngoing)"

definition drop_victims :: "(i64 \<Rightarrow> bool) \<Rightarrow> (producer_row \<Rightarrow> bool) \<Rightarrow> producer_db \<Rightarrow> nat \<times> producer_db" where
  "drop_victims locked eligible db =
     (let victims = map pr_producer_id (take SWEEP_BATCH (sort_key pr_last_ts
            (filter (\<lambda>p. eligible p \<and> \<not> has_open_txn db (pr_producer_id p) \<and> \<not> locked (pr_producer_id p))
               (db_producers db)))) in
      (length (filter (\<lambda>p. pr_producer_id p \<in> set victims) (db_producers db)),
       db\<lparr>db_producers := filter (\<lambda>p. pr_producer_id p \<notin> set victims) (db_producers db),
          db_batches := filter (\<lambda>b. br_producer_id b \<notin> set victims) (db_batches db)\<rparr>))"

definition sweep_expired :: "int \<Rightarrow> (i64 \<Rightarrow> bool) \<Rightarrow> i64 \<Rightarrow> producer_db \<Rightarrow> nat \<times> producer_db" where
  "sweep_expired now locked expiration db =
     (if sint expiration > 0
      then drop_victims locked (\<lambda>p. pr_last_ts p < now - sint expiration) db
      else (0, db))"

text \<open>\<open>ORDER BY last_ts DESC, producer_id DESC OFFSET max_ids LIMIT 1\<close> is the row the ceiling cuts at.\<close>

definition recency_order :: "producer_row list \<Rightarrow> producer_row list" where
  "recency_order ps = rev (sort_key pr_last_ts (sort_key (\<lambda>p. sint (pr_producer_id p)) ps))"

definition sweep_surplus :: "int \<Rightarrow> (i64 \<Rightarrow> bool) \<Rightarrow> i64 \<Rightarrow> producer_db \<Rightarrow> nat \<times> producer_db" where
  "sweep_surplus now locked ceiling db =
     (if sint ceiling > 0 \<and> nat (sint ceiling) < length (db_producers db)
      then let cut = pr_last_ts (recency_order (db_producers db) ! nat (sint ceiling)) in
        drop_victims locked (\<lambda>p. pr_last_ts p \<le> cut \<and> pr_last_ts p < now - EVICTION_FLOOR_MS) db
      else (0, db))"

definition sweep :: "int \<Rightarrow> (i64 \<Rightarrow> bool) \<Rightarrow> retention \<Rightarrow> producer_db \<Rightarrow> nat \<times> producer_db" where
  "sweep now locked policy db =
     (let (n, db) = sweep_expired now locked (expiration_ms policy) db;
          (n', db) = sweep_surplus now locked (max_ids policy) db
      in (n + n', db))"

subsection \<open>Invariants\<close>

text \<open>The sequence numbers rows uniquely, below its next value, and the primary keys hold.\<close>

definition batches_ok :: "producer_db \<Rightarrow> bool" where
  "batches_ok db \<longleftrightarrow>
     distinct (map br_added_seq (db_batches db))
     \<and> (\<forall>r \<in> set (db_batches db). br_added_seq r < db_batch_seq db)
     \<and> distinct (map (\<lambda>r. (br_producer_id r, br_topic_id r, br_partition r, br_first_seq r)) (db_batches db))"

lemma sort_key_eqI:
  assumes "mset ys = mset xs" and "sorted (map f ys)" and "distinct (map f xs)"
  shows "sort_key f xs = ys"
proof (rule map_sorted_distinct_set_unique [of f])
  have s: "set ys = set xs" using assms(1) by (metis set_mset_mset)
  have "length ys = length xs" using assms(1) by (metis size_mset)
  then have d: "distinct (map f ys)"
    using assms(1,3) by (metis distinct_map mset_eq_imp_distinct_iff mset_map)
  show "inj_on f (set (sort_key f xs) \<union> set ys)"
    using assms(3) s by (simp add: distinct_map)
  show "sorted (map f (sort_key f xs))" by simp
  show "distinct (map f (sort_key f xs))"
    using assms(3) by (simp add: distinct_map)
  show "sorted (map f ys)" using assms(2) .
  show "distinct (map f ys)" using d .
  show "set (sort_key f xs) = set ys" using s by simp
qed

lemma window_sorted [simp]: "sorted (map br_added_seq (window pid topic part db))"
  by (simp add: window_def)

lemma window_set: "set (window pid topic part db) = {r \<in> set (db_batches db). mine pid topic part r}"
  by (auto simp: window_def)

lemma window_mset: "mset (window pid topic part db) = filter_mset (mine pid topic part) (mset (db_batches db))"
  by (simp add: window_def)

lemma window_distinct: "batches_ok db \<Longrightarrow> distinct (map br_added_seq (window pid topic part db))"
  by (auto simp: batches_ok_def window_def distinct_map inj_on_def)

lemma window_eqI:
  assumes "batches_ok db" and "mset ys = filter_mset (mine pid topic part) (mset (db_batches db))"
    and "sorted (map br_added_seq ys)"
  shows "window pid topic part db = ys"
  unfolding window_def
proof (rule sort_key_eqI)
  show "distinct (map br_added_seq (filter (mine pid topic part) (db_batches db)))"
    using assms(1) by (auto simp: batches_ok_def distinct_map inj_on_def)
qed (use assms in simp_all)

subsection \<open>The window as a bounded queue\<close>

text \<open>What the window is meant to be: at most five ranges, the newest last, at most one per
  \<open>first_seq\<close>.\<close>

type_synonym seq_entry = "i16 \<times> i32 \<times> i32 \<times> i64"

definition entry_of :: "batch_row \<Rightarrow> seq_entry" where
  "entry_of r = (br_epoch r, br_first_seq r, br_last_seq r, br_base_offset r)"

definition entry_first :: "seq_entry \<Rightarrow> i32" where
  "entry_first x = (case x of (e, f, l, b) \<Rightarrow> f)"

definition last_n :: "nat \<Rightarrow> 'a list \<Rightarrow> 'a list" where
  "last_n n xs = drop (length xs - n) xs"

definition push_window :: "seq_entry list \<Rightarrow> seq_entry \<Rightarrow> seq_entry list" where
  "push_window w x = last_n RETAINED_BATCHES (filter (\<lambda>y. entry_first y \<noteq> entry_first x) w @ [x])"

lemma filter_from_nth:
  fixes f :: "'a \<Rightarrow> nat"
  assumes "sorted (map f w)" and "distinct (map f w)" and "k < length w"
  shows "filter (\<lambda>r. \<not> f r < f (w ! k)) w = drop k w"
proof -
  have lt: "f (w ! i) < f (w ! k)" if "i < k" for i
    using assms that sorted_nth_mono [of "map f w" i k] nth_eq_iff_index_eq [of "map f w" i k]
    by (metis le_neq_implies_less length_map less_or_eq_imp_le nat_neq_iff nth_map order.strict_trans)
  have ge: "\<not> f (w ! i) < f (w ! k)" if "k \<le> i" "i < length w" for i
    using assms that sorted_nth_mono [of "map f w" k i] by (simp add: not_less)
  have "filter (\<lambda>r. \<not> f r < f (w ! k)) (take k w) = []"
    using lt assms(3) by (auto simp: filter_empty_conv in_set_conv_nth)
  moreover have "filter (\<lambda>r. \<not> f r < f (w ! k)) (drop k w) = drop k w"
    using ge by (auto simp: filter_id_conv in_set_conv_nth)
  ultimately show ?thesis
    by (metis append_Nil append_take_drop_id filter_append)
qed

lemma batches_ok_filter:
  "batches_ok db \<Longrightarrow> batches_ok (db\<lparr>db_batches := filter P (db_batches db)\<rparr>)"
  by (auto simp: batches_ok_def distinct_map inj_on_def)

lemma window_filter:
  assumes "batches_ok db"
  shows "window pid topic part (db\<lparr>db_batches := filter P (db_batches db)\<rparr>) = filter P (window pid topic part db)"
proof (rule window_eqI)
  show "batches_ok (db\<lparr>db_batches := filter P (db_batches db)\<rparr>)"
    using assms by (rule batches_ok_filter)
  show "mset (filter P (window pid topic part db))
      = filter_mset (mine pid topic part) (mset (db_batches (db\<lparr>db_batches := filter P (db_batches db)\<rparr>)))"
    by (simp add: window_mset filter_filter_mset conj_commute)
  show "sorted (map br_added_seq (filter P (window pid topic part db)))"
    using window_sorted by (rule sorted_filter)
qed

lemma prune_ok: "batches_ok db \<Longrightarrow> batches_ok (prune_batches pid topic part db)"
  by (simp add: prune_batches_def Let_def batches_ok_filter)

lemma prune_window:
  assumes "batches_ok db"
  shows "window pid topic part (prune_batches pid topic part db) = last_n RETAINED_BATCHES (window pid topic part db)"
proof (cases "length (window pid topic part db) < RETAINED_BATCHES")
  case True
  then show ?thesis by (simp add: prune_batches_def last_n_def)
next
  case False
  let ?w = "window pid topic part db"
  let ?k = "length ?w - RETAINED_BATCHES"
  have k: "?k < length ?w" and rn: "rev ?w ! (RETAINED_BATCHES - 1) = ?w ! ?k"
    using False by (simp_all add: RETAINED_BATCHES_def rev_nth)
  have "window pid topic part (prune_batches pid topic part db)
      = filter (\<lambda>r. \<not> (mine pid topic part r \<and> br_added_seq r < br_added_seq (?w ! ?k))) ?w"
    using False rn by (simp add: prune_batches_def Let_def window_filter [OF assms])
  also have "\<dots> = filter (\<lambda>r. \<not> br_added_seq r < br_added_seq (?w ! ?k)) ?w"
    by (rule filter_cong) (auto simp: window_set)
  also have "\<dots> = drop ?k ?w"
    using k window_distinct [OF assms] by (intro filter_from_nth) simp_all
  finally show ?thesis by (simp add: last_n_def)
qed

definition new_row :: "i64 \<Rightarrow> i16 \<Rightarrow> u32 \<Rightarrow> i32 \<Rightarrow> i32 \<Rightarrow> i32 \<Rightarrow> i64 \<Rightarrow> nat \<Rightarrow> batch_row" where
  "new_row pid epoch topic part first_seq last_seq off s = \<lparr>br_producer_id = pid, br_topic_id = topic,
     br_partition = part, br_epoch = epoch, br_first_seq = first_seq, br_last_seq = last_seq,
     br_base_offset = off, br_added_seq = s\<rparr>"

text \<open>Either way the upsert leaves the table as the other rows and one new row, numbered last.\<close>

lemma upsert_cases:
  assumes "batches_ok db"
  obtains s where "db_batch_seq db \<le> s"
    and "s < db_batch_seq (upsert_batch pid epoch topic part first_seq last_seq off db)"
    and "mset (db_batches (upsert_batch pid epoch topic part first_seq last_seq off db))
       = add_mset (new_row pid epoch topic part first_seq last_seq off s)
           (filter_mset (\<lambda>r. \<not> (mine pid topic part r \<and> br_first_seq r = first_seq)) (mset (db_batches db)))"
proof (cases "\<exists>r \<in> set (db_batches db). mine pid topic part r \<and> br_first_seq r = first_seq")
  case False
  then have "filter_mset (\<lambda>r. \<not> (mine pid topic part r \<and> br_first_seq r = first_seq)) (mset (db_batches db))
      = mset (db_batches db)"
    by (auto simp: filter_mset_eq_conv)
  with False show ?thesis
    by (intro that [of "db_batch_seq db"]) (auto simp: upsert_batch_def Let_def new_row_def)
next
  case True
  let ?clash = "\<lambda>r. mine pid topic part r \<and> br_first_seq r = first_seq"
  let ?upd = "\<lambda>r. if ?clash r then r\<lparr>br_epoch := epoch, br_last_seq := last_seq,
      br_base_offset := off, br_added_seq := db_batch_seq db + 1\<rparr> else r"
  from True obtain c ys zs where split: "db_batches db = ys @ c # zs" and c: "?clash c"
    by (metis split_list)
  let ?key = "\<lambda>r. (br_producer_id r, br_topic_id r, br_partition r, br_first_seq r)"
  have d: "?key c \<notin> ?key ` (set ys \<union> set zs)"
    using assms unfolding batches_ok_def split by auto
  have others: "\<not> ?clash r" if "r \<in> set ys \<union> set zs" for r
  proof
    assume "?clash r"
    with c have "?key r = ?key c" by (simp add: mine_def)
    moreover have "?key r \<in> ?key ` (set ys \<union> set zs)"
      using that by (rule imageI)
    ultimately show False using d by (simp only: not_True_eq_False)
  qed
  have same: "?upd r = r" if "r \<in> set ys \<union> set zs" for r
    using others [OF that] by (simp only: if_False)
  have ys: "map ?upd ys = ys" and zs: "map ?upd zs = zs"
    using same by (simp_all add: map_idI)
  have row: "?upd c = new_row pid epoch topic part first_seq last_seq off (db_batch_seq db + 1)"
    using c by (cases c) (simp add: mine_def new_row_def)
  have fys: "filter_mset (\<lambda>r. \<not> ?clash r) (mset ys) = mset ys"
      and fzs: "filter_mset (\<lambda>r. \<not> ?clash r) (mset zs) = mset zs"
    using others by (simp_all add: filter_mset_eq_conv)
  have db': "upsert_batch pid epoch topic part first_seq last_seq off db
      = db\<lparr>db_batch_seq := db_batch_seq db + 2, db_batches := map ?upd (db_batches db)\<rparr>"
    unfolding upsert_batch_def Let_def using True by (simp only: if_True)
  have upd: "map ?upd (db_batches db)
      = ys @ new_row pid epoch topic part first_seq last_seq off (db_batch_seq db + 1) # zs"
    unfolding split map_append list.map ys zs row ..
  show ?thesis
  proof (rule that [of "db_batch_seq db + 1"])
    show "mset (db_batches (upsert_batch pid epoch topic part first_seq last_seq off db))
        = add_mset (new_row pid epoch topic part first_seq last_seq off (db_batch_seq db + 1))
            (filter_mset (\<lambda>r. \<not> ?clash r) (mset (db_batches db)))"
      unfolding db' using c fys fzs by (simp add: upd) (simp add: split)
  qed (simp_all add: db')
qed

lemma upsert_ok:
  assumes "batches_ok db"
  shows "batches_ok (upsert_batch pid epoch topic part first_seq last_seq off db)"
proof -
  let ?db = "upsert_batch pid epoch topic part first_seq last_seq off db"
  obtain s where s: "db_batch_seq db \<le> s" "s < db_batch_seq ?db"
      and m0: "mset (db_batches ?db) = add_mset (new_row pid epoch topic part first_seq last_seq off s)
        (filter_mset (\<lambda>r. \<not> (mine pid topic part r \<and> br_first_seq r = first_seq)) (mset (db_batches db)))"
    by (rule upsert_cases [OF assms, of pid epoch topic part first_seq last_seq off])
  let ?xs = "new_row pid epoch topic part first_seq last_seq off s
        # filter (\<lambda>r. \<not> (mine pid topic part r \<and> br_first_seq r = first_seq)) (db_batches db)"
  have m: "mset (db_batches ?db) = mset ?xs"
    unfolding m0 by simp
  from assms have old: "distinct (map br_added_seq (db_batches db))"
      "\<And>r. r \<in> set (db_batches db) \<Longrightarrow> br_added_seq r < db_batch_seq db"
      "distinct (map (\<lambda>r. (br_producer_id r, br_topic_id r, br_partition r, br_first_seq r)) (db_batches db))"
    by (simp_all add: batches_ok_def)
  let ?key = "\<lambda>r. (br_producer_id r, br_topic_id r, br_partition r, br_first_seq r)"
  have "s \<notin> br_added_seq ` set (db_batches db)"
  proof
    assume "s \<in> br_added_seq ` set (db_batches db)"
    then obtain r where "r \<in> set (db_batches db)" "s = br_added_seq r" by blast
    with old(2) [of r] s(1) show False by linarith
  qed
  then have 1: "distinct (map br_added_seq ?xs)"
    using old(1) by (auto simp: new_row_def distinct_map_filter)
  have 2: "br_added_seq r < db_batch_seq ?db" if "r \<in> set ?xs" for r
  proof (cases "r \<in> set (db_batches db)")
    case True
    then show ?thesis using old(2) [OF True] s by linarith
  next
    case False
    with that have "br_added_seq r = s" by (auto simp: new_row_def)
    then show ?thesis using s by simp
  qed
  have 3: "distinct (map ?key ?xs)"
    using old(3) by (auto simp: new_row_def mine_def distinct_map_filter)
  have "distinct (map br_added_seq (db_batches ?db))"
    using mset_eq_imp_distinct_iff [OF arg_cong [OF m, of "image_mset br_added_seq", folded mset_map]] 1 by blast
  moreover have "distinct (map ?key (db_batches ?db))"
    using mset_eq_imp_distinct_iff [OF arg_cong [OF m, of "image_mset ?key", folded mset_map]] 3 by blast
  moreover have "set (db_batches ?db) = set ?xs"
    using arg_cong [OF m, of set_mset] by (simp only: set_mset_mset)
  ultimately show ?thesis
    unfolding batches_ok_def using 2 by blast
qed

lemma upsert_window:
  assumes "batches_ok db"
  obtains s where "window pid topic part (upsert_batch pid epoch topic part first_seq last_seq off db)
     = filter (\<lambda>r. br_first_seq r \<noteq> first_seq) (window pid topic part db)
       @ [new_row pid epoch topic part first_seq last_seq off s]"
proof -
  let ?db = "upsert_batch pid epoch topic part first_seq last_seq off db"
  let ?w = "filter (\<lambda>r. br_first_seq r \<noteq> first_seq) (window pid topic part db)"
  obtain s where s: "db_batch_seq db \<le> s"
      and m: "mset (db_batches ?db) = add_mset (new_row pid epoch topic part first_seq last_seq off s)
        (filter_mset (\<lambda>r. \<not> (mine pid topic part r \<and> br_first_seq r = first_seq)) (mset (db_batches db)))"
    by (rule upsert_cases [OF assms, of pid epoch topic part first_seq last_seq off])
  let ?row = "new_row pid epoch topic part first_seq last_seq off s"
  have row: "mine pid topic part ?row" by (simp add: mine_def new_row_def)
  have le: "br_added_seq r \<le> br_added_seq ?row" if "r \<in> set ?w" for r
  proof -
    from that have "r \<in> set (db_batches db)" by (simp add: window_set)
    with assms have "br_added_seq r < db_batch_seq db" by (simp add: batches_ok_def)
    with s show ?thesis by (simp add: new_row_def)
  qed
  have "window pid topic part ?db = ?w @ [?row]"
  proof (rule window_eqI)
    show "batches_ok ?db" using assms by (rule upsert_ok)
    have "filter_mset (mine pid topic part) (filter_mset (\<lambda>r. \<not> (mine pid topic part r \<and> br_first_seq r = first_seq))
          (mset (db_batches db)))
        = filter_mset (\<lambda>r. br_first_seq r \<noteq> first_seq) (filter_mset (mine pid topic part) (mset (db_batches db)))"
      unfolding filter_filter_mset by (rule filter_mset_cong) auto
    then show "mset (?w @ [?row]) = filter_mset (mine pid topic part) (mset (db_batches ?db))"
      unfolding m using row by (simp add: window_mset)
    show "sorted (map br_added_seq (?w @ [?row]))"
      using le sorted_filter [OF window_sorted, of "\<lambda>r. br_first_seq r \<noteq> first_seq" pid topic part db]
      by (simp add: sorted_append)
  qed
  then show ?thesis by (rule that)
qed

lemma touch_batches [simp]: "db_batches (touch_producer now pid db) = db_batches db"
    "db_batch_seq (touch_producer now pid db) = db_batch_seq db"
  by (simp_all add: touch_producer_def)

lemma window_touch [simp]: "window p t q (touch_producer now pid db) = window p t q db"
  by (simp add: window_def)

lemma record_ok:
  "batches_ok db \<Longrightarrow> batches_ok (record_batch_seq now pid epoch topic part first_seq last_seq off db)"
  using prune_ok [OF upsert_ok] by (simp add: record_batch_seq_def batches_ok_def)

lemma filter_entry_first:
  "map entry_of (filter (\<lambda>r. br_first_seq r \<noteq> f) w) = filter (\<lambda>y. entry_first y \<noteq> f) (map entry_of w)"
  by (induction w) (auto simp: entry_of_def entry_first_def)

lemma map_last_n: "map f (last_n n xs) = last_n n (map f xs)"
  by (simp add: last_n_def drop_map)

text \<open>The refinement: the two statements on the table are one push on the queue.\<close>

lemma record_refines_push:
  assumes "batches_ok db"
  shows "map entry_of (window pid topic part (record_batch_seq now pid epoch topic part first_seq last_seq off db))
     = push_window (map entry_of (window pid topic part db)) (epoch, first_seq, last_seq, off)"
proof -
  obtain s where w: "window pid topic part (upsert_batch pid epoch topic part first_seq last_seq off db)
     = filter (\<lambda>r. br_first_seq r \<noteq> first_seq) (window pid topic part db)
       @ [new_row pid epoch topic part first_seq last_seq off s]"
    using upsert_window [OF assms] .
  have "map entry_of (window pid topic part (upsert_batch pid epoch topic part first_seq last_seq off db))
     = filter (\<lambda>y. entry_first y \<noteq> first_seq) (map entry_of (window pid topic part db))
       @ [(epoch, first_seq, last_seq, off)]"
    unfolding w map_append filter_entry_first by (simp add: entry_of_def new_row_def)
  then show ?thesis
    using prune_window [OF upsert_ok [OF assms, of pid epoch topic part first_seq last_seq off], of pid topic part]
    by (simp add: record_batch_seq_def push_window_def map_last_n entry_first_def [of "(_, _)"])
qed

end
