(* ===== verification/Producer_Properties.thy ===== *)
theory Producer_Properties
  imports Producer
begin

text \<open>
  What the producer window promises: it is a queue of the five newest ranges; a retry of any batch
  still in it is answered with the offset the batch got; a batch is accepted exactly when it is the
  producer's next one; an older epoch is fenced; epochs advance without passing their ceiling; and
  the sweep never takes a producer that is active or has a transaction open.
\<close>

subsection \<open>Sequences\<close>

lemma in_sequence_increment: "in_sequence l n \<longleftrightarrow> n = increment_sequence l 1"
proof (cases "sint l = I32_MAX")
  case True
  moreover have "sint n < 2147483648" using sint_bounds [of n] by simp
  ultimately show ?thesis
    by (auto simp: in_sequence_def increment_sequence_def I32_MAX_def)
next
  case False
  then have lt: "sint l < I32_MAX" using sint_bounds [of l] by (simp add: I32_MAX_def)
  then have inc: "increment_sequence l 1 = word_of_int (sint l + 1)"
    by (simp add: increment_sequence_def I32_MAX_def)
  have s: "sint (word_of_int (sint l + 1) :: i32) = sint l + 1"
    using lt sint_bounds [of l] by (intro sint_word_of_int) (simp_all add: I32_MAX_def)
  have "sint n = sint l + 1 \<longleftrightarrow> n = word_of_int (sint l + 1)"
  proof
    assume "sint n = sint l + 1"
    moreover have "n = word_of_int (sint n)" by simp
    ultimately show "n = word_of_int (sint l + 1)" by metis
  qed (simp only: s)
  with False show ?thesis unfolding inc by (simp add: in_sequence_def)
qed

subsection \<open>The queue\<close>

lemma window_firsts_distinct:
  assumes "batches_ok db"
  shows "distinct (map br_first_seq (window pid topic part db))"
proof -
  have "distinct (map (\<lambda>r. (br_producer_id r, br_topic_id r, br_partition r, br_first_seq r)) (window pid topic part db))"
    using assms by (auto simp: batches_ok_def window_def distinct_map inj_on_def)
  then show ?thesis
    by (auto simp: distinct_map inj_on_def window_set mine_def)
qed

text \<open>An entry with at most \<open>k\<close> newer ones, all of its epoch.\<close>

definition recent :: "nat \<Rightarrow> seq_entry \<Rightarrow> seq_entry list \<Rightarrow> bool" where
  "recent k x w \<longleftrightarrow> (\<exists>A B. w = A @ x # B \<and> length B \<le> k \<and> (\<forall>y \<in> set B. fst y = fst x))"

lemma recent_pushed: "recent 0 x (push_window w x)"
proof -
  let ?w = "filter (\<lambda>y. entry_first y \<noteq> entry_first x) w"
  have "length (?w @ [x]) - RETAINED_BATCHES \<le> length ?w" by (simp add: RETAINED_BATCHES_def)
  then have "push_window w x = drop (length (?w @ [x]) - RETAINED_BATCHES) ?w @ x # []"
    by (simp add: push_window_def last_n_def)
  then show ?thesis unfolding recent_def by (metis empty_iff empty_set le0 list.size(3))
qed

lemma recent_push:
  assumes "recent k x w" and "Suc k < RETAINED_BATCHES" and "entry_first y \<noteq> entry_first x" and "fst y = fst x"
  shows "recent (Suc k) x (push_window w y)"
proof -
  obtain A B where w: "w = A @ x # B" and B: "length B \<le> k" "\<forall>z \<in> set B. fst z = fst x"
    using assms(1) unfolding recent_def by blast
  let ?f = "filter (\<lambda>z. entry_first z \<noteq> entry_first y)"
  have fw: "?f w @ [y] = ?f A @ x # (?f B @ [y])" using assms(3) by (simp add: w)
  have lB: "length (?f B) \<le> k" using B(1) length_filter_le order_trans by blast
  then have "length (?f w @ [y]) - RETAINED_BATCHES \<le> length (?f A)"
    using assms(2) by (simp add: fw)
  then have "push_window w y = drop (length (?f w @ [y]) - RETAINED_BATCHES) (?f A) @ x # (?f B @ [y])"
    unfolding push_window_def last_n_def by (simp add: fw)
  moreover have "length (?f B @ [y]) \<le> Suc k" using lB by simp
  moreover have "\<forall>z \<in> set (?f B @ [y]). fst z = fst x" using B(2) assms(4) by auto
  ultimately show ?thesis unfolding recent_def by blast
qed

lemma recent_duplicate:
  assumes ok: "batches_ok db"
    and r: "recent k (epoch, first_seq, last_seq, off) (map entry_of (window pid topic part db))"
  shows "check pid epoch first_seq last_seq topic part db = CheckDuplicate off"
proof -
  let ?w = "window pid topic part db"
  obtain A B where w: "map entry_of ?w = A @ (epoch, first_seq, last_seq, off) # B" and B: "\<forall>y \<in> set B. fst y = epoch"
    using r unfolding recent_def by auto
  have ne: "?w \<noteq> []" using w by auto
  have "br_epoch (last ?w) = fst (last (map entry_of ?w))"
    using ne by (simp add: last_map entry_of_def)
  also have "\<dots> = epoch" unfolding w using B by (cases "B = []") simp_all
  finally have ep: "br_epoch (last ?w) = epoch" .
  have "(epoch, first_seq, last_seq, off) \<in> entry_of ` set ?w"
    using w by (metis in_set_conv_decomp list.set_map)
  then obtain x where x: "x \<in> set ?w" "entry_of x = (epoch, first_seq, last_seq, off)" by auto
  let ?P = "\<lambda>r. br_epoch r = epoch \<and> br_first_seq r = first_seq \<and> br_last_seq r = last_seq"
  have "?P x" using x by (simp add: entry_of_def)
  with x(1) have "List.find ?P ?w \<noteq> None"
    unfolding find_None_iff by blast
  then obtain d where d: "List.find ?P ?w = Some d" by blast
  then have "d \<in> set ?w" and "?P d" by (auto simp: find_Some_iff)
  then have "d = x"
    using x window_firsts_distinct [OF ok, of pid topic part]
    by (auto simp: distinct_map inj_on_def entry_of_def)
  then have "br_base_offset d = off" using x(2) by (simp add: entry_of_def)
  with d ne ep show ?thesis
    by (simp add: check_def check_window_def Let_def)
qed

text \<open>A run of further batches of one producer at one epoch on one partition.\<close>

definition record_run :: "int \<Rightarrow> i64 \<Rightarrow> i16 \<Rightarrow> u32 \<Rightarrow> i32 \<Rightarrow> (i32 \<times> i32 \<times> i64) list \<Rightarrow> producer_db \<Rightarrow> producer_db" where
  "record_run now pid epoch topic part = fold (\<lambda>(f, l, off). record_batch_seq now pid epoch topic part f l off)"

lemma record_run_recent:
  assumes "batches_ok db" and "recent k (epoch, first_seq, last_seq, off) (map entry_of (window pid topic part db))"
    and "k + length later < RETAINED_BATCHES" and "\<forall>(f, l, o') \<in> set later. f \<noteq> first_seq"
  shows "batches_ok (record_run now pid epoch topic part later db)
     \<and> recent (k + length later) (epoch, first_seq, last_seq, off)
         (map entry_of (window pid topic part (record_run now pid epoch topic part later db)))"
  using assms
proof (induction later arbitrary: db k)
  case Nil
  then show ?case by (simp add: record_run_def)
next
  case (Cons y later)
  obtain f l o' where y: "y = (f, l, o')" by (cases y)
  let ?db = "record_batch_seq now pid epoch topic part f l o' db"
  have "recent (Suc k) (epoch, first_seq, last_seq, off) (map entry_of (window pid topic part ?db))"
    unfolding record_refines_push [OF Cons.prems(1)]
    using Cons.prems(2-4) by (intro recent_push) (simp_all add: y entry_first_def)
  from Cons.IH [OF record_ok [OF Cons.prems(1)] this] Cons.prems(3,4) show ?case
    by (simp add: record_run_def y)
qed

lemma record_other_window:
  assumes "batches_ok db" and other: "(pid', topic', part') \<noteq> (pid, topic, part)"
  shows "window pid' topic' part' (record_batch_seq now pid epoch topic part first_seq last_seq off db)
     = window pid' topic' part' db"
proof -
  let ?up = "upsert_batch pid epoch topic part first_seq last_seq off db"
  obtain s where m: "mset (db_batches ?up) = add_mset (new_row pid epoch topic part first_seq last_seq off s)
        (filter_mset (\<lambda>r. \<not> (mine pid topic part r \<and> br_first_seq r = first_seq)) (mset (db_batches db)))"
    by (rule upsert_cases [OF assms(1), of pid epoch topic part first_seq last_seq off])
  have excl: "\<not> mine pid topic part r" if "mine pid' topic' part' r" for r
    using that other by (auto simp: mine_def)
  have "\<not> mine pid' topic' part' (new_row pid epoch topic part first_seq last_seq off s)"
    using other by (auto simp: mine_def new_row_def)
  moreover have "filter_mset (mine pid' topic' part') (filter_mset (\<lambda>r. \<not> (mine pid topic part r \<and> br_first_seq r = first_seq))
      (mset (db_batches db))) = filter_mset (mine pid' topic' part') (mset (db_batches db))"
    unfolding filter_filter_mset using excl by (intro filter_mset_cong) auto
  ultimately have "window pid' topic' part' ?up = window pid' topic' part' db"
    using upsert_ok [OF assms(1)] by (intro window_eqI) (simp_all add: m window_mset)
  moreover have "window pid' topic' part' (prune_batches pid topic part ?up) = window pid' topic' part' ?up"
    unfolding prune_batches_def Let_def
    using excl by (auto simp: window_filter [OF upsert_ok [OF assms(1)]] window_set filter_id_conv)
  ultimately show ?thesis by (simp add: record_batch_seq_def)
qed

subsection \<open>Properties of the window\<close>

text \<open>C15: Recording a batch is a push onto a queue of the five newest ranges: the entry for the same
  first sequence goes, the new one comes last, and of more than five the oldest go. No other
  producer's or partition's window changes.\<close>

theorem record_is_push:
  assumes "batches_ok db"
  shows "let db' = record_batch_seq now pid epoch topic part first_seq last_seq off db in
     batches_ok db'
     \<and> map entry_of (window pid topic part db')
       = push_window (map entry_of (window pid topic part db)) (epoch, first_seq, last_seq, off)
     \<and> length (window pid topic part db') \<le> RETAINED_BATCHES
     \<and> ((pid', topic', part') \<noteq> (pid, topic, part) \<longrightarrow>
          window pid' topic' part' db' = window pid' topic' part' db)"
proof -
  have "length (window pid topic part (record_batch_seq now pid epoch topic part first_seq last_seq off db)) \<le> RETAINED_BATCHES"
    using arg_cong [OF record_refines_push [OF assms, of pid topic part now epoch first_seq last_seq off], of length]
    by (simp add: push_window_def last_n_def)
  then show ?thesis
    using record_ok [OF assms] record_refines_push [OF assms] record_other_window [OF assms]
    by (simp add: Let_def)
qed

definition sample_db :: producer_db where
  "sample_db = \<lparr>db_producers = [], db_batches =
       [new_row 7 0 1 0 0 4 100 0, new_row 7 0 1 0 5 9 105 1, new_row 8 0 1 0 0 0 50 2],
     db_txns = [], db_producer_id_seq = 9, db_batch_seq = 3, db_epoch_start = (\<lambda>t p. Some 0)\<rparr>"

lemma sample_db_ok: "batches_ok sample_db"
  by (simp add: batches_ok_def sample_db_def new_row_def)

theorem record_is_push_witness:
  "let db' = record_batch_seq 0 7 0 1 0 10 12 110 sample_db in
     batches_ok db'
     \<and> map entry_of (window 7 1 0 db')
       = push_window (map entry_of (window 7 1 0 sample_db)) (0, 10, 12, 110)
     \<and> length (window 7 1 0 db') \<le> RETAINED_BATCHES
     \<and> ((8, 1, 0) \<noteq> (7 :: i64, 1 :: u32, 0 :: i32) \<longrightarrow> window 8 1 0 db' = window 8 1 0 sample_db)"
  by (rule record_is_push [OF sample_db_ok])

text \<open>C14: A retry is answered with the offset of the original append. After a batch is recorded, and up
  to four more of the same producer at the same epoch with other first sequences, checking the same
  range again gives \<open>CheckDuplicate\<close> with the recorded offset.\<close>

theorem retry_is_duplicate:
  assumes "batches_ok db" and "length later < RETAINED_BATCHES" and "\<forall>(f, l, o') \<in> set later. f \<noteq> first_seq"
  shows "check pid epoch first_seq last_seq topic part (record_run now pid epoch topic part later
      (record_batch_seq now pid epoch topic part first_seq last_seq off db)) = CheckDuplicate off"
proof -
  let ?db = "record_batch_seq now pid epoch topic part first_seq last_seq off db"
  have ok: "batches_ok ?db" using assms(1) by (rule record_ok)
  have "recent 0 (epoch, first_seq, last_seq, off) (map entry_of (window pid topic part ?db))"
    unfolding record_refines_push [OF assms(1)] by (rule recent_pushed)
  from record_run_recent [OF ok this] assms(2,3)
  have "batches_ok (record_run now pid epoch topic part later ?db)"
    and "recent (length later) (epoch, first_seq, last_seq, off)
      (map entry_of (window pid topic part (record_run now pid epoch topic part later ?db)))"
    by auto
  then show ?thesis by (rule recent_duplicate)
qed

theorem retry_is_duplicate_witness:
  "check 7 0 10 12 1 0 (record_run 0 7 0 1 0 [(13, 13, 113), (14, 20, 114), (21, 30, 121), (31, 31, 131)]
     (record_batch_seq 0 7 0 1 0 10 12 110 sample_db)) = CheckDuplicate 110"
  by (rule retry_is_duplicate [OF sample_db_ok]) (simp_all add: RETAINED_BATCHES_def)

text \<open>C16: A batch is accepted exactly when it is the producer's next one: the producer has no window
  here; or the epoch is new and the sequence restarts at 0; or the epoch is current, the range is not
  a replay, and it starts right after the newest range, wrapping from \<open>i32::MAX\<close> to 0. It is
  fenced exactly when its epoch is older than the newest range's.\<close>

theorem accept_exactly_next:
  "(check pid epoch first_seq last_seq topic part db = CheckAppend \<longleftrightarrow>
      (let w = window pid topic part db; newest = last w in
       w = []
       \<or> (sint epoch > sint (br_epoch newest) \<and> first_seq = 0)
       \<or> (epoch = br_epoch newest \<and> first_seq = increment_sequence (br_last_seq newest) 1
          \<and> list_all (\<lambda>r. (br_epoch r, br_first_seq r, br_last_seq r) \<noteq> (epoch, first_seq, last_seq)) w)))
   \<and> (\<exists>e. check pid epoch first_seq last_seq topic part db = CheckFenced e)
     = (let w = window pid topic part db in w \<noteq> [] \<and> sint epoch < sint (br_epoch (last w)))"
proof -
  let ?w = "window pid topic part db"
  let ?P = "\<lambda>r. br_epoch r = epoch \<and> br_first_seq r = first_seq \<and> br_last_seq r = last_seq"
  consider (none) "?w = []" | (older) "?w \<noteq> []" "sint epoch < sint (br_epoch (last ?w))"
    | (newer) "?w \<noteq> []" "sint epoch > sint (br_epoch (last ?w))"
    | (same) "?w \<noteq> []" "epoch = br_epoch (last ?w)"
    by (metis linorder_less_linear signed_word_eqI)
  then show ?thesis
  proof cases
    case same
    have "List.find ?P ?w = None \<longleftrightarrow> list_all (\<lambda>r. (br_epoch r, br_first_seq r, br_last_seq r) \<noteq> (epoch, first_seq, last_seq)) ?w"
      by (auto simp: find_None_iff list_all_iff)
    with same show ?thesis
      by (auto simp: check_def check_window_def Let_def in_sequence_increment split: option.splits)
  qed (auto simp: check_def check_window_def Let_def)
qed

subsection \<open>Properties of ids and epochs\<close>

text \<open>Ending a transaction moves its producer on. Below the ceiling the epoch goes up by one under
  the same id; at the ceiling the id is replaced by a fresh one at epoch 0, its window is dropped and
  its transaction follows. Either way the returned pair is the row's, no epoch passes 32766, and the
  pair just retired, with its outcome, is on the row, so a retried end is recognised.\<close>

theorem bump_epoch_advances:
  assumes "List.find (\<lambda>r. pr_producer_id r = pid) (db_producers db) = Some r"
  shows "let ((pid', e'), db') = bump_epoch_for_next_txn now pid committed db in
     (if sint (pr_producer_epoch r) < EPOCH_CEILING
      then pid' = pid \<and> sint e' = sint (pr_producer_epoch r) + 1 \<and> db_batches db' = db_batches db
      else pid' = db_producer_id_seq db \<and> e' = 0 \<and> window pid topic part db' = []
           \<and> list_all (\<lambda>t. pid' = pid \<or> tx_producer_id t \<noteq> pid) (db_txns db'))
     \<and> sint e' \<le> EPOCH_CEILING
     \<and> (\<exists>r' \<in> set (db_producers db'). pr_producer_id r' = pid' \<and> pr_producer_epoch r' = e'
        \<and> pr_transactional_id r' = pr_transactional_id r \<and> pr_retired_producer_id r' = Some pid
        \<and> pr_retired_epoch r' = Some (pr_producer_epoch r) \<and> pr_retired_committed r' = Some committed)"
proof -
  from assms have r: "r \<in> set (db_producers db)" "pr_producer_id r = pid"
    by (auto simp: find_Some_iff)
  show ?thesis
  proof (cases "sint (pr_producer_epoch r) < EPOCH_CEILING")
    case True
    have e: "sint (pr_producer_epoch r + 1) = sint (pr_producer_epoch r) + 1"
      using True sint_bounds [of "pr_producer_epoch r"] sint_add_exact [of "pr_producer_epoch r" 1]
      by (simp add: EPOCH_CEILING_def)
    have "retire_and_bump now committed r \<in> set (map (\<lambda>q. if pr_producer_id q = pid
        then retire_and_bump now committed q else q) (db_producers db))"
      using r by force
    moreover have "pr_producer_id (retire_and_bump now committed r) = pid
        \<and> pr_producer_epoch (retire_and_bump now committed r) = pr_producer_epoch r + 1
        \<and> pr_transactional_id (retire_and_bump now committed r) = pr_transactional_id r
        \<and> pr_retired_producer_id (retire_and_bump now committed r) = Some pid
        \<and> pr_retired_epoch (retire_and_bump now committed r) = Some (pr_producer_epoch r)
        \<and> pr_retired_committed (retire_and_bump now committed r) = Some committed"
      using r(2) by (simp add: retire_and_bump_def)
    ultimately show ?thesis
      using True e assms unfolding bump_epoch_for_next_txn_def
      by (simp only: option.case if_True Let_def prod.case producer_db.simps) auto
  next
    case False
    then show ?thesis
      using assms r(2)
      by (auto simp: bump_epoch_for_next_txn_def move_to_fresh_id_def Let_def window_def mine_def
          EPOCH_CEILING_def list_all_iff filter_empty_conv)
  qed
qed

definition sample_producer :: producer_row where
  "sample_producer = \<lparr>pr_producer_id = 7, pr_producer_epoch = 32766,
     pr_transactional_id = Some [0x74], pr_retired_producer_id = None, pr_retired_epoch = None,
     pr_retired_committed = None, pr_last_ts = 5\<rparr>"

definition sample_txn_db :: producer_db where
  "sample_txn_db = sample_db\<lparr>db_producers := [sample_producer],
     db_txns := [\<lparr>tx_producer_id = 7, tx_producer_epoch = 32766, tx_transactional_id = [],
       tx_state = TxnOngoing, tx_started_at = 0, tx_timeout_ms = 60000, tx_forced_result = None,
       tx_offsets_partitions = []\<rparr>]\<rparr>"

theorem bump_epoch_advances_witness:
  "let ((pid', e'), db') = bump_epoch_for_next_txn 100 7 True sample_txn_db; r = sample_producer in
     (if sint (pr_producer_epoch r) < EPOCH_CEILING
      then pid' = 7 \<and> sint e' = sint (pr_producer_epoch r) + 1 \<and> db_batches db' = db_batches sample_txn_db
      else pid' = db_producer_id_seq sample_txn_db \<and> e' = 0 \<and> window 7 1 0 db' = []
           \<and> list_all (\<lambda>t. pid' = 7 \<or> tx_producer_id t \<noteq> 7) (db_txns db'))
     \<and> sint e' \<le> EPOCH_CEILING
     \<and> (\<exists>r' \<in> set (db_producers db'). pr_producer_id r' = pid' \<and> pr_producer_epoch r' = e'
        \<and> pr_transactional_id r' = pr_transactional_id r \<and> pr_retired_producer_id r' = Some 7
        \<and> pr_retired_epoch r' = Some (pr_producer_epoch r) \<and> pr_retired_committed r' = Some True)"
proof -
  have "List.find (\<lambda>r. pr_producer_id r = 7) (db_producers sample_txn_db) = Some sample_producer"
    by (simp add: sample_txn_db_def sample_producer_def)
  from bump_epoch_advances [OF this, of 100 True 1 0] show ?thesis
    by (simp only: Let_def)
qed



subsection \<open>Properties of the sweep\<close>

lemma drop_victims_spares:
  assumes "drop_victims locked eligible db = (n, db')" and "distinct (map pr_producer_id (db_producers db))"
  shows "(\<forall>p \<in> set (db_producers db). p \<in> set (db_producers db')
        \<or> (eligible p \<and> \<not> has_open_txn db (pr_producer_id p) \<and> \<not> locked (pr_producer_id p)))
     \<and> set (db_producers db') \<subseteq> set (db_producers db) \<and> distinct (map pr_producer_id (db_producers db'))
     \<and> n \<le> SWEEP_BATCH \<and> n + length (db_producers db') = length (db_producers db)
     \<and> db_txns db' = db_txns db
     \<and> db_batches db' = filter (\<lambda>b. br_producer_id b \<in> pr_producer_id ` set (db_producers db')
           \<or> br_producer_id b \<notin> pr_producer_id ` set (db_producers db)) (db_batches db)"
proof -
  let ?el = "\<lambda>p. eligible p \<and> \<not> has_open_txn db (pr_producer_id p) \<and> \<not> locked (pr_producer_id p)"
  define vs where "vs = map pr_producer_id (take SWEEP_BATCH (sort_key pr_last_ts (filter ?el (db_producers db))))"
  have n: "n = length (filter (\<lambda>p. pr_producer_id p \<in> set vs) (db_producers db))"
    and ps: "db_producers db' = filter (\<lambda>p. pr_producer_id p \<notin> set vs) (db_producers db)"
    and bs: "db_batches db' = filter (\<lambda>b. br_producer_id b \<notin> set vs) (db_batches db)"
    and tx: "db_txns db' = db_txns db"
    using assms(1) by (auto simp: drop_victims_def Let_def vs_def)
  have v: "\<exists>q \<in> set (db_producers db). pr_producer_id q = i \<and> ?el q" if "i \<in> set vs" for i
    using that unfolding vs_def by (auto dest!: in_set_takeD)
  have el: "?el p" if "p \<in> set (db_producers db)" "pr_producer_id p \<in> set vs" for p
    using v [OF that(2)] that(1) assms(2) by (auto simp: distinct_map inj_on_def)
  have "n = card (pr_producer_id ` set (filter (\<lambda>p. pr_producer_id p \<in> set vs) (db_producers db)))"
    unfolding n using assms(2) distinct_card [of "map pr_producer_id (filter (\<lambda>p. pr_producer_id p \<in> set vs) (db_producers db))"]
    by (simp add: distinct_map_filter)
  also have "\<dots> \<le> card (set vs)" by (intro card_mono) auto
  also have "\<dots> \<le> SWEEP_BATCH"
    using card_length [of vs] by (simp add: vs_def)
  finally have le: "n \<le> SWEEP_BATCH" .
  have "br_producer_id b \<notin> set vs \<longleftrightarrow> br_producer_id b \<in> pr_producer_id ` set (db_producers db')
           \<or> br_producer_id b \<notin> pr_producer_id ` set (db_producers db)" for b
    using v [of "br_producer_id b"] by (auto simp: ps) (metis imageI)
  then have "db_batches db' = filter (\<lambda>b. br_producer_id b \<in> pr_producer_id ` set (db_producers db')
           \<or> br_producer_id b \<notin> pr_producer_id ` set (db_producers db)) (db_batches db)"
    unfolding bs by (intro filter_cong refl)
  moreover have "n + length (db_producers db') = length (db_producers db)"
    unfolding n ps using sum_length_filter_compl [of "\<lambda>p. pr_producer_id p \<in> set vs" "db_producers db"] by simp
  moreover have "\<forall>p \<in> set (db_producers db). p \<in> set (db_producers db') \<or> ?el p"
    using el ps by auto
  moreover have "set (db_producers db') \<subseteq> set (db_producers db)" and "distinct (map pr_producer_id (db_producers db'))"
    using assms(2) by (auto simp: ps distinct_map_filter)
  ultimately show ?thesis using le tx by blast
qed

text \<open>C37: The sweep takes only what it may. A producer it drops has no transaction open and is not locked
  by another session, and either has been idle past the expiration or, when the ceiling asks for it,
  past the eviction floor. At most two batches of producers go, the count returned is how many went,
  and of the windows only those of dropped producers go with them.\<close>

theorem sweep_spares_active:
  assumes "distinct (map pr_producer_id (db_producers db))"
  shows "let (n, db') = sweep now locked policy db in
     n \<le> 2 * SWEEP_BATCH \<and> n + length (db_producers db') = length (db_producers db)
     \<and> (\<forall>p \<in> set (db_producers db). p \<in> set (db_producers db')
        \<or> (\<not> has_open_txn db (pr_producer_id p) \<and> \<not> locked (pr_producer_id p)
           \<and> (0 < sint (expiration_ms policy) \<and> pr_last_ts p < now - sint (expiration_ms policy)
              \<or> 0 < sint (max_ids policy) \<and> pr_last_ts p < now - EVICTION_FLOOR_MS)))
     \<and> (\<forall>b \<in> set (db_batches db). b \<in> set (db_batches db')
        \<or> br_producer_id b \<in> pr_producer_id ` (set (db_producers db) - set (db_producers db')))"
proof -
  obtain n1 db1 where s1: "sweep_expired now locked (expiration_ms policy) db = (n1, db1)"
    by (cases "sweep_expired now locked (expiration_ms policy) db")
  obtain n2 db2 where s2: "sweep_surplus now locked (max_ids policy) db1 = (n2, db2)"
    by (cases "sweep_surplus now locked (max_ids policy) db1")
  have 1: "(\<forall>p \<in> set (db_producers db). p \<in> set (db_producers db1)
        \<or> (0 < sint (expiration_ms policy) \<and> pr_last_ts p < now - sint (expiration_ms policy)
           \<and> \<not> has_open_txn db (pr_producer_id p) \<and> \<not> locked (pr_producer_id p)))
     \<and> set (db_producers db1) \<subseteq> set (db_producers db) \<and> distinct (map pr_producer_id (db_producers db1))
     \<and> n1 \<le> SWEEP_BATCH \<and> n1 + length (db_producers db1) = length (db_producers db) \<and> db_txns db1 = db_txns db
     \<and> db_batches db1 = filter (\<lambda>b. br_producer_id b \<in> pr_producer_id ` set (db_producers db1)
           \<or> br_producer_id b \<notin> pr_producer_id ` set (db_producers db)) (db_batches db)"
    using s1 drop_victims_spares [OF _ assms] assms unfolding sweep_expired_def
    by (cases "0 < sint (expiration_ms policy)") (fastforce simp: filter_id_conv)+
  have 2: "(\<forall>p \<in> set (db_producers db1). p \<in> set (db_producers db2)
        \<or> (0 < sint (max_ids policy) \<and> pr_last_ts p < now - EVICTION_FLOOR_MS
           \<and> \<not> has_open_txn db1 (pr_producer_id p) \<and> \<not> locked (pr_producer_id p)))
     \<and> set (db_producers db2) \<subseteq> set (db_producers db1)
     \<and> n2 \<le> SWEEP_BATCH \<and> n2 + length (db_producers db2) = length (db_producers db1)
     \<and> db_batches db2 = filter (\<lambda>b. br_producer_id b \<in> pr_producer_id ` set (db_producers db2)
           \<or> br_producer_id b \<notin> pr_producer_id ` set (db_producers db1)) (db_batches db1)"
    using s2 drop_victims_spares [of locked _ db1] 1 unfolding sweep_surplus_def Let_def
    by (cases "0 < sint (max_ids policy) \<and> nat (sint (max_ids policy)) < length (db_producers db1)")
      (fastforce simp: filter_id_conv)+
  have open_eq: "has_open_txn db1 = has_open_txn db"
    using 1 by (auto simp: has_open_txn_def)
  have sw: "sweep now locked policy db = (n1 + n2, db2)"
    by (simp add: sweep_def s1 s2)
  show ?thesis
    unfolding sw Let_def prod.case using 1 2 open_eq by auto
qed

theorem sweep_spares_active_witness:
  "let (n, db') = sweep 1000000 (\<lambda>_. False) \<lparr>expiration_ms = 1000, max_ids = 1\<rparr> sample_txn_db in
     n \<le> 2 * SWEEP_BATCH \<and> n + length (db_producers db') = length (db_producers sample_txn_db)
     \<and> (\<forall>p \<in> set (db_producers sample_txn_db). p \<in> set (db_producers db')
        \<or> (\<not> has_open_txn sample_txn_db (pr_producer_id p) \<and> \<not> (\<lambda>_. False) (pr_producer_id p)
           \<and> (0 < sint (expiration_ms \<lparr>expiration_ms = 1000, max_ids = 1\<rparr>)
                \<and> pr_last_ts p < 1000000 - sint (expiration_ms \<lparr>expiration_ms = 1000, max_ids = 1\<rparr>)
              \<or> 0 < sint (max_ids \<lparr>expiration_ms = 1000, max_ids = 1\<rparr>)
                \<and> pr_last_ts p < 1000000 - EVICTION_FLOOR_MS)))
     \<and> (\<forall>b \<in> set (db_batches sample_txn_db). b \<in> set (db_batches db')
        \<or> br_producer_id b \<in> pr_producer_id ` (set (db_producers sample_txn_db) - set (db_producers db')))"
  by (rule sweep_spares_active) (simp add: sample_txn_db_def)

end
