(* ===== verification/GroupCoordinator.thy ===== *)
theory GroupCoordinator
  imports Errors
begin

text \<open>
  The classic group coordinator (\<open>src/extension/src/group.rs\<close>,
  \<open>src/extension/src/handlers/join_sync.rs\<close>, heartbeat and leave of
  \<open>src/extension/src/handlers/coordinator.rs\<close>, and the parked joins of
  \<open>src/extension/src/server/mod.rs\<close>): groups, their members, the rebalance state machine and the
  requests that drive it.

  The state is the rows of \<open>kafgres_groups\<close> and \<open>kafgres_group_members\<close>, and the keys of
  \<open>kafgres_offsets\<close>, each a list; a statement is a function on them. \<open>now\<close> is the transaction's
  \<open>now()\<close> in milliseconds. \<open>ORDER BY member_id\<close> uses the database's collation, the parameter
  \<open>collate\<close>; random member ids are \<open>uuid\<close>; an authorizer's refusal is the argument \<open>denied\<close>.
  Generations are integers: the column is an \<open>int\<close>, and \<open>2 ^ 31\<close> rebalances of one group would fail
  the statement.
\<close>

datatype group_state = GEmpty | PreparingRebalance | CompletingRebalance | GStable

definition state_as_str :: "group_state \<Rightarrow> string" where
  "state_as_str s = (case s of GEmpty \<Rightarrow> ''Empty'' | PreparingRebalance \<Rightarrow> ''PreparingRebalance''
     | CompletingRebalance \<Rightarrow> ''CompletingRebalance'' | GStable \<Rightarrow> ''Stable'')"

definition state_parse :: "string \<Rightarrow> group_state" where
  "state_parse s =
     (if s = ''PreparingRebalance'' then PreparingRebalance
      else if s = ''CompletingRebalance'' then CompletingRebalance
      else if s = ''Stable'' then GStable
      else GEmpty)"

record group_row =
  gr_group_id :: bytes
  gr_generation :: int
  gr_state :: group_state
  gr_protocol_type :: "bytes option"
  gr_protocol_name :: "bytes option"
  gr_leader_member :: "bytes option"
  gr_rebalance_deadline :: "int option"
  gr_join_window_until :: "int option"

record member_row =
  gm_group_id :: bytes
  gm_member_id :: bytes
  gm_group_instance_id :: "bytes option"
  gm_client_id :: bytes
  gm_client_host :: bytes
  gm_session_timeout_ms :: int
  gm_rebalance_timeout_ms :: int
  gm_metadata :: bytes
  gm_protocols :: "bytes list"
  gm_assignment :: "bytes option"
  gm_joined_generation :: int
  gm_last_heartbeat :: int

record group_db =
  gd_groups :: "group_row list"
  gd_members :: "member_row list"
  gd_offsets :: "(bytes \<times> u32 \<times> i32) list"

definition MAX_SESSION_TIMEOUT_MS :: int where "MAX_SESSION_TIMEOUT_MS = 300000"
definition MIN_SESSION_TIMEOUT_MS :: int where "MIN_SESSION_TIMEOUT_MS = 1000"
definition MAX_REBALANCE_TIMEOUT_MS :: int where "MAX_REBALANCE_TIMEOUT_MS = 300000"

definition clamp_session_timeout :: "int \<Rightarrow> int" where
  "clamp_session_timeout ms = min MAX_SESSION_TIMEOUT_MS (max MIN_SESSION_TIMEOUT_MS ms)"

definition clamp_rebalance_timeout :: "int \<Rightarrow> int" where
  "clamp_rebalance_timeout ms = (if ms \<le> 0 then 60000 else min ms MAX_REBALANCE_TIMEOUT_MS)"

definition new_member_id :: "bytes \<Rightarrow> bytes \<Rightarrow> bytes" where
  "new_member_id uuid client_id =
     (if client_id = [] then [0x63, 0x6f, 0x6e, 0x73, 0x75, 0x6d, 0x65, 0x72] else client_id) @ [0x2d] @ uuid"

subsection \<open>Statements\<close>

text \<open>\<open>UPDATE ... WHERE group_id = $1\<close> on each table.\<close>

definition update_group :: "bytes \<Rightarrow> (group_row \<Rightarrow> group_row) \<Rightarrow> group_db \<Rightarrow> group_db" where
  "update_group gid f db =
     db\<lparr>gd_groups := map (\<lambda>g. if gr_group_id g = gid then f g else g) (gd_groups db)\<rparr>"

definition update_members :: "bytes \<Rightarrow> (member_row \<Rightarrow> member_row) \<Rightarrow> group_db \<Rightarrow> group_db" where
  "update_members gid f db =
     db\<lparr>gd_members := map (\<lambda>m. if gm_group_id m = gid then f m else m) (gd_members db)\<rparr>"

definition delete_members :: "(member_row \<Rightarrow> bool) \<Rightarrow> group_db \<Rightarrow> group_db" where
  "delete_members P db = db\<lparr>gd_members := filter (\<lambda>m. \<not> P m) (gd_members db)\<rparr>"

definition load_group :: "bytes \<Rightarrow> group_db \<Rightarrow> group_row option" where
  "load_group gid db = List.find (\<lambda>g. gr_group_id g = gid) (gd_groups db)"

definition ensure_group :: "bytes \<Rightarrow> group_db \<Rightarrow> group_db" where
  "ensure_group gid db =
     (if load_group gid db = None
      then db\<lparr>gd_groups := gd_groups db @ [\<lparr>gr_group_id = gid, gr_generation = 0, gr_state = GEmpty,
             gr_protocol_type = None, gr_protocol_name = None, gr_leader_member = None,
             gr_rebalance_deadline = None, gr_join_window_until = None\<rparr>]\<rparr>
      else db)"

definition members_of :: "bytes \<Rightarrow> group_db \<Rightarrow> member_row list" where
  "members_of gid db = filter (\<lambda>m. gm_group_id m = gid) (gd_members db)"

definition members :: "(bytes \<Rightarrow> 'k::linorder) \<Rightarrow> bytes \<Rightarrow> group_db \<Rightarrow> member_row list" where
  "members collate gid db = sort_key (\<lambda>m. collate (gm_member_id m)) (members_of gid db)"

definition member :: "(bytes \<Rightarrow> 'k::linorder) \<Rightarrow> bytes \<Rightarrow> bytes \<Rightarrow> group_db \<Rightarrow> member_row option" where
  "member collate gid mid db = List.find (\<lambda>m. gm_member_id m = mid) (members collate gid db)"

definition protocol_type_conflicts :: "bytes \<Rightarrow> bytes \<Rightarrow> group_db \<Rightarrow> bool" where
  "protocol_type_conflicts gid ptype db =
     (case load_group gid db of
        None \<Rightarrow> False
      | Some g \<Rightarrow> (case gr_protocol_type g of None \<Rightarrow> False | Some t \<Rightarrow> t \<noteq> [] \<and> t \<noteq> ptype))"

definition clear_assignments :: "bytes \<Rightarrow> group_db \<Rightarrow> group_db" where
  "clear_assignments gid = update_members gid (\<lambda>m. m\<lparr>gm_assignment := None\<rparr>)"

text \<open>The upsert of a joining member: a row already there keeps its assignment.\<close>

definition upsert_member :: "member_row \<Rightarrow> group_db \<Rightarrow> group_db" where
  "upsert_member row db =
     (let same = (\<lambda>m. gm_group_id m = gm_group_id row \<and> gm_member_id m = gm_member_id row) in
      if (\<exists>m \<in> set (gd_members db). same m)
      then db\<lparr>gd_members := map (\<lambda>m. if same m then row\<lparr>gm_assignment := gm_assignment m\<rparr> else m) (gd_members db)\<rparr>
      else db\<lparr>gd_members := gd_members db @ [row]\<rparr>)"

definition join_member :: "int \<Rightarrow> int \<Rightarrow> bytes \<Rightarrow> bytes \<Rightarrow> bytes option \<Rightarrow> bytes \<Rightarrow> bytes \<Rightarrow> int \<Rightarrow> int \<Rightarrow> bytes \<Rightarrow>
    bytes list \<Rightarrow> bytes \<Rightarrow> group_db \<Rightarrow> group_db" where
  "join_member now delay gid mid instance_id client_id client_host session_ms rebalance_ms ptype protocols meta db =
     (let db = ensure_group gid db in
      case load_group gid db of
        None \<Rightarrow> db
      | Some g \<Rightarrow>
          let timeout = clamp_rebalance_timeout rebalance_ms;
              db = upsert_member \<lparr>gm_group_id = gid, gm_member_id = mid, gm_group_instance_id = instance_id,
                     gm_client_id = client_id, gm_client_host = client_host,
                     gm_session_timeout_ms = clamp_session_timeout session_ms,
                     gm_rebalance_timeout_ms = timeout, gm_metadata = meta, gm_protocols = protocols,
                     gm_assignment = None, gm_joined_generation = gr_generation g + 1,
                     gm_last_heartbeat = now\<rparr> db
          in if gr_state g \<noteq> PreparingRebalance
             then let opens_window = (delay > 0 \<and> gr_state g = GEmpty) in
               clear_assignments gid (update_group gid (\<lambda>g. g\<lparr>gr_state := PreparingRebalance,
                   gr_protocol_type := (if ptype = [] then gr_protocol_type g else Some ptype),
                   gr_rebalance_deadline := Some (now + timeout),
                   gr_join_window_until := (if opens_window then Some (now + min delay timeout) else None)\<rparr>) db)
             else if delay > 0
             then update_group gid (\<lambda>g. if gr_join_window_until g = None then g
                   else g\<lparr>gr_join_window_until := Some (case gr_rebalance_deadline g of
                      None \<Rightarrow> now + delay | Some d \<Rightarrow> min (now + delay) d)\<rparr>) db
             else db)"

definition join_window_closed :: "int \<Rightarrow> bytes \<Rightarrow> group_db \<Rightarrow> bool" where
  "join_window_closed now gid db =
     (case load_group gid db of
        None \<Rightarrow> True
      | Some g \<Rightarrow>
          (list_all (\<lambda>m. \<not> gm_joined_generation m \<le> gr_generation g) (members_of gid db)
           \<and> (case gr_join_window_until g of None \<Rightarrow> True | Some t \<Rightarrow> now \<ge> t))
          \<or> (case gr_rebalance_deadline g of None \<Rightarrow> False | Some d \<Rightarrow> d < now))"

text \<open>\<open>reduce\<close> over the members' protocol lists, then the first of what is left.\<close>

definition common_protocol :: "member_row list \<Rightarrow> bytes option" where
  "common_protocol ms =
     (case map gm_protocols ms of
        [] \<Rightarrow> None
      | p # ps \<Rightarrow> (case foldl (\<lambda>acc q. filter (\<lambda>x. x \<in> set q) acc) p ps of [] \<Rightarrow> None | c # _ \<Rightarrow> Some c))"

datatype join_completion = Completed | NoCommonProtocol

definition complete_join :: "(bytes \<Rightarrow> 'k::linorder) \<Rightarrow> bytes \<Rightarrow> group_db \<Rightarrow> join_completion \<times> group_db" where
  "complete_join collate gid db =
     (let db = (case load_group gid db of
                  None \<Rightarrow> db
                | Some g \<Rightarrow> delete_members (\<lambda>m. gm_group_id m = gid \<and> gm_joined_generation m \<le> gr_generation g) db);
          remaining = members collate gid db in
      if remaining = []
      then (Completed, update_group gid (\<lambda>g. g\<lparr>gr_state := GEmpty, gr_leader_member := None,
              gr_protocol_name := None, gr_generation := gr_generation g + 1,
              gr_rebalance_deadline := None, gr_join_window_until := None\<rparr>) db)
      else case common_protocol remaining of
          None \<Rightarrow> (NoCommonProtocol, db)
        | Some p \<Rightarrow>
            (Completed, update_group gid (\<lambda>g. g\<lparr>gr_generation := gr_generation g + 1,
               gr_state := CompletingRebalance, gr_protocol_name := Some p,
               gr_leader_member := Some (gm_member_id (hd remaining)),
               gr_rebalance_deadline := None, gr_join_window_until := None\<rparr>) db))"

definition apply_assignments :: "bytes \<Rightarrow> (bytes \<times> bytes) list \<Rightarrow> group_db \<Rightarrow> group_db" where
  "apply_assignments gid assignments db =
     (let db = fold (\<lambda>(mid, a). update_members gid (\<lambda>m. if gm_member_id m = mid
                 then m\<lparr>gm_assignment := Some a\<rparr> else m)) assignments db;
          db = update_members gid (\<lambda>m. if gm_assignment m = None then m\<lparr>gm_assignment := Some []\<rparr> else m) db
      in update_group gid (\<lambda>g. g\<lparr>gr_state := GStable\<rparr>) db)"

definition touch_heartbeat :: "int \<Rightarrow> bytes \<Rightarrow> bytes \<Rightarrow> group_db \<Rightarrow> group_db" where
  "touch_heartbeat now gid mid =
     update_members gid (\<lambda>m. if gm_member_id m = mid then m\<lparr>gm_last_heartbeat := now\<rparr> else m)"

definition touch_parked :: "int \<Rightarrow> (bytes \<times> bytes) list \<Rightarrow> group_db \<Rightarrow> group_db" where
  "touch_parked now entries = fold (\<lambda>(gid, mid). touch_heartbeat now gid mid) entries"

definition max_rebalance_timeout :: "member_row list \<Rightarrow> int" where
  "max_rebalance_timeout ms =
     (case map gm_rebalance_timeout_ms ms of [] \<Rightarrow> 60000 | t # ts \<Rightarrow> foldl max t ts)"

definition open_rebalance :: "int \<Rightarrow> bytes \<Rightarrow> group_db \<Rightarrow> group_db" where
  "open_rebalance now gid db =
     (let ms = members_of gid db in
      clear_assignments gid (update_group gid (\<lambda>g. g\<lparr>
        gr_state := (if ms \<noteq> [] then PreparingRebalance else GEmpty),
        gr_rebalance_deadline := Some (now + max_rebalance_timeout ms),
        gr_join_window_until := None\<rparr>) db))"

definition leave_member :: "int \<Rightarrow> bytes \<Rightarrow> bytes \<Rightarrow> group_db \<Rightarrow> bool \<times> group_db" where
  "leave_member now gid mid db =
     (let gone = (\<lambda>m. gm_group_id m = gid \<and> gm_member_id m = mid) in
      if (\<exists>m \<in> set (gd_members db). gone m)
      then (True, open_rebalance now gid (delete_members gone db))
      else (False, db))"

datatype delete_outcome = Deleted | NotFound | NotEmpty

fun delete_outcome_code :: "delete_outcome \<Rightarrow> error_code" where
  "delete_outcome_code Deleted = E_None"
| "delete_outcome_code NotFound = E_GroupIdNotFound"
| "delete_outcome_code NotEmpty = E_NonEmptyGroup"

definition existence :: "bytes \<Rightarrow> group_db \<Rightarrow> bool \<times> bool" where
  "existence gid db =
     (load_group gid db \<noteq> None \<or> (\<exists>x \<in> set (gd_offsets db). fst x = gid), members_of gid db \<noteq> [])"

definition delete_group :: "bytes \<Rightarrow> group_db \<Rightarrow> delete_outcome \<times> group_db" where
  "delete_group gid db =
     (if \<not> fst (existence gid db) then (NotFound, db)
      else if members_of gid db \<noteq> [] then (NotEmpty, db)
      else (Deleted, db\<lparr>gd_offsets := filter (\<lambda>x. fst x \<noteq> gid) (gd_offsets db),
                        gd_groups := filter (\<lambda>g. gr_group_id g \<noteq> gid) (gd_groups db)\<rparr>))"

definition delete_offset :: "bytes \<Rightarrow> u32 \<Rightarrow> i32 \<Rightarrow> group_db \<Rightarrow> bool \<times> group_db" where
  "delete_offset gid topic part db =
     ((gid, topic, part) \<in> set (gd_offsets db),
      db\<lparr>gd_offsets := filter (\<lambda>x. x \<noteq> (gid, topic, part)) (gd_offsets db)\<rparr>)"

definition sweep_members :: "int \<Rightarrow> group_db \<Rightarrow> bytes list \<times> group_db" where
  "sweep_members now db =
     (let dead = (\<lambda>m. gm_last_heartbeat m < now - gm_session_timeout_ms m);
          changed = remdups (map gm_group_id (filter dead (gd_members db)))
      in (changed, fold (open_rebalance now) changed (delete_members dead db)))"

definition groups_past_deadline :: "int \<Rightarrow> group_db \<Rightarrow> bytes list" where
  "groups_past_deadline now db =
     map gr_group_id (filter (\<lambda>g. gr_state g = PreparingRebalance
       \<and> ((case gr_rebalance_deadline g of None \<Rightarrow> False | Some d \<Rightarrow> d < now)
          \<or> (case gr_join_window_until g of None \<Rightarrow> False | Some t \<Rightarrow> t < now))) (gd_groups db))"

end
