(* ===== verification/Handlers.thy ===== *)
theory Handlers
  imports Header
begin

text \<open>
  What the request handlers share (\<open>src/extension/src/handlers/mod.rs\<close>): the handler error, the
  caps on list lengths, the parse of a frame into a request with its negotiation verdict, and the
  writing of a response frame.

  A response body is anything \<open>Encodable\<close>, so \<open>write_response\<close> takes the two methods of that trait
  (\<open>src/codec/src/lib.rs\<close>) as a record. The text of an internal error is not modelled.
\<close>

definition MAX_RESPONSE_BYTES :: nat where "MAX_RESPONSE_BYTES = 8 * 1024 * 1024"
definition RESPONSE_HEADROOM :: nat where "RESPONSE_HEADROOM = 2 * 1024 * 1024"
definition MAX_ADMIN_ITEMS :: nat where "MAX_ADMIN_ITEMS = 1000"

datatype handler_error = HCodec codec_error | TooLarge string nat | Internal | Busy

definition check_admin_len :: "string \<Rightarrow> nat \<Rightarrow> handler_error + unit" where
  "check_admin_len what n = (if n > MAX_ADMIN_ITEMS then Inl (TooLarge what n) else Inr ())"

definition check_nested_len :: "string \<Rightarrow> string \<Rightarrow> 'a list \<Rightarrow> ('a \<Rightarrow> nat) \<Rightarrow> handler_error + unit" where
  "check_nested_len outer_what inner_what outer inner =
     rbind (check_admin_len outer_what (length outer)) (\<lambda>_.
       check_admin_len inner_what (sum_list (map inner outer)))"

definition handler_codec :: "codec_error + 'a \<Rightarrow> handler_error + 'a" where
  "handler_codec r = (case r of Inl e \<Rightarrow> Inl (HCodec e) | Inr x \<Rightarrow> Inr x)"

record request =
  rq_api_key :: i16
  rq_api_version :: i16
  rq_correlation_id :: i32
  rq_client_id :: "bytes option"
  rq_body :: bytes

text \<open>The header version follows the body version, so a version that is not served leaves it to a
  rule of its own.\<close>

definition parse_header_version :: "negotiation \<Rightarrow> i16 \<Rightarrow> i16 \<Rightarrow> codec_error + i16" where
  "parse_header_version outcome key version =
     (if outcome = Supported then request_header_version key version
      else Inr (if sint version \<ge> 3 \<and> key = API_VERSIONS_KEY then 2 else 1))"

definition parse :: "bytes \<Rightarrow> codec_error + (request \<times> negotiation)" where
  "parse frame =
     rbind (peek_api frame) (\<lambda>(key, version).
       let outcome = negotiate key version in
       rbind (parse_header_version outcome key version) (\<lambda>header_version.
         rbind (request_header_decode header_version frame) (\<lambda>(header, body).
           Inr (\<lparr>rq_api_key = key, rq_api_version = version,
                 rq_correlation_id = correlation_id header, rq_client_id = client_id header,
                 rq_body = body\<rparr>, outcome))))"

record encodable =
  body_size :: "i16 \<Rightarrow> nat"
  body_encode :: "i16 \<Rightarrow> bytes \<Rightarrow> codec_error + bytes"

definition write_response :: "bytes \<Rightarrow> i16 \<Rightarrow> i16 \<Rightarrow> i32 \<Rightarrow> encodable \<Rightarrow> handler_error + bytes" where
  "write_response out key version corr body =
     rbind (handler_codec (response_header_version key version)) (\<lambda>header_version.
       let header = \<lparr>resp_correlation_id = corr, resp_unknown_tagged_fields = []\<rparr>;
           total = response_header_size header header_version + body_size body version in
       if total > MAX_RESPONSE_BYTES + RESPONSE_HEADROOM then Inl (TooLarge ''response'' total)
       else handler_codec (write_frame out (\<lambda>b.
              rbind (response_header_encode header b header_version) (body_encode body version))))"

text \<open>Text literals of the source, as the bytes a wire string has.\<close>

definition ascii :: "string \<Rightarrow> bytes" where
  "ascii s = map of_char s"

lemma ascii_simps [simp]:
  "ascii [] = []" "ascii (c # s) = of_char c # ascii s"
  by (simp_all add: ascii_def)

lemma check_admin_len_ok [simp]:
  "check_admin_len what n = Inr () \<longleftrightarrow> n \<le> MAX_ADMIN_ITEMS"
  by (auto simp: check_admin_len_def)

lemma check_nested_len_ok [simp]:
  "check_nested_len a b outer inner = Inr () \<longleftrightarrow>
     length outer \<le> MAX_ADMIN_ITEMS \<and> sum_list (map inner outer) \<le> MAX_ADMIN_ITEMS"
  by (auto simp: check_nested_len_def check_admin_len_def)

lemma handler_codec_simps [simp]:
  "handler_codec (Inl e) = Inl (HCodec e)" "handler_codec (Inr x) = Inr x"
  by (simp_all add: handler_codec_def)

lemma handler_codec_eq_Inr [simp]: "handler_codec r = Inr x \<longleftrightarrow> r = Inr x"
  by (cases r) simp_all

end
