(* ===== verification/Acl.thy ===== *)
theory Acl
  imports Handlers "HOL-Library.Char_ord"
begin

text \<open>
  Authorization (\<open>src/extension/src/acl.rs\<close>) and the three ACL requests
  (\<open>src/extension/src/handlers/acls.rs\<close>): the rules of \<open>kafgres_acls\<close>, the cache that a decision
  reads, the decision itself, and describing, creating and deleting rules.

  The state is the list of rows of \<open>kafgres_acls\<close>. Columns under a \<open>CHECK\<close> constraint hold the
  constraint's words as \<open>string\<close>s; principals, hosts and resource names come from the wire and are
  \<open>bytes\<close>. A \<open>WHERE\<close> clause with its arguments is a predicate on rows; \<open>ORDER BY\<close> follows the
  database's collation, the parameter \<open>order_key\<close>; the database refusing a statement is the
  parameter \<open>refused\<close>. Error messages, the log, and the age of the cache are not modelled.
\<close>

datatype resource_type = Topic | Group | Cluster | TransactionalId

fun resource_as_str :: "resource_type \<Rightarrow> string" where
  "resource_as_str Topic = ''TOPIC''"
| "resource_as_str Group = ''GROUP''"
| "resource_as_str Cluster = ''CLUSTER''"
| "resource_as_str TransactionalId = ''TRANSACTIONAL_ID''"

definition resource_parse :: "string \<Rightarrow> resource_type option" where
  "resource_parse s =
     (if s = ''TOPIC'' then Some Topic
      else if s = ''GROUP'' then Some Group
      else if s = ''CLUSTER'' then Some Cluster
      else if s = ''TRANSACTIONAL_ID'' then Some TransactionalId
      else None)"

fun denied_code :: "resource_type \<Rightarrow> error_code" where
  "denied_code Topic = E_TopicAuthorizationFailed"
| "denied_code Group = E_GroupAuthorizationFailed"
| "denied_code Cluster = E_ClusterAuthorizationFailed"
| "denied_code TransactionalId = E_TransactionalIdAuthorizationFailed"

datatype operation = Read | Write | Create | Delete | Alter | Describe | DescribeConfigs
  | AlterConfigs | IdempotentWrite | ClusterAction

fun acl_code :: "operation \<Rightarrow> nat" where
  "acl_code Read = 3"
| "acl_code Write = 4"
| "acl_code Create = 5"
| "acl_code Delete = 6"
| "acl_code Alter = 7"
| "acl_code Describe = 8"
| "acl_code ClusterAction = 9"
| "acl_code DescribeConfigs = 10"
| "acl_code AlterConfigs = 11"
| "acl_code IdempotentWrite = 12"

fun operations_for :: "resource_type \<Rightarrow> operation list" where
  "operations_for Topic = [Read, Write, Create, Delete, Alter, Describe, DescribeConfigs, AlterConfigs]"
| "operations_for Group = [Read, Delete, Describe]"
| "operations_for Cluster = [Create, ClusterAction, Alter, Describe, DescribeConfigs, AlterConfigs, IdempotentWrite]"
| "operations_for TransactionalId = [Write, Describe]"

fun operation_as_str :: "operation \<Rightarrow> string" where
  "operation_as_str Read = ''READ''"
| "operation_as_str Write = ''WRITE''"
| "operation_as_str Create = ''CREATE''"
| "operation_as_str Delete = ''DELETE''"
| "operation_as_str Alter = ''ALTER''"
| "operation_as_str Describe = ''DESCRIBE''"
| "operation_as_str DescribeConfigs = ''DESCRIBE_CONFIGS''"
| "operation_as_str AlterConfigs = ''ALTER_CONFIGS''"
| "operation_as_str IdempotentWrite = ''IDEMPOTENT_WRITE''"
| "operation_as_str ClusterAction = ''CLUSTER_ACTION''"

definition implied_by :: "operation \<Rightarrow> string \<Rightarrow> bool" where
  "implied_by op granted =
     (if granted = ''ALL'' \<or> granted = operation_as_str op then True
      else case op of
          Describe \<Rightarrow> granted \<in> {''READ'', ''WRITE'', ''DELETE'', ''ALTER''}
        | DescribeConfigs \<Rightarrow> granted = ''ALTER_CONFIGS''
        | _ \<Rightarrow> False)"

datatype pattern_type = Literal | Prefixed

record acl =
  acl_principal :: bytes
  acl_host :: bytes
  acl_operation :: string
  permission_allow :: bool
  acl_resource_type :: resource_type
  acl_resource_name :: bytes
  acl_pattern :: pattern_type

definition acl_matches :: "acl \<Rightarrow> bytes \<Rightarrow> bytes \<Rightarrow> operation \<Rightarrow> resource_type \<Rightarrow> bytes \<Rightarrow> bool" where
  "acl_matches a who host op rt name =
     (if acl_resource_type a \<noteq> rt then False
      else if acl_principal a \<noteq> ascii ''User:*'' \<and> acl_principal a \<noteq> who then False
      else if acl_host a \<noteq> ascii ''*'' \<and> acl_host a \<noteq> host then False
      else if \<not> implied_by op (acl_operation a) then False
      else case acl_pattern a of
          Literal \<Rightarrow> acl_resource_name a = ascii ''*'' \<or> acl_resource_name a = name
        | Prefixed \<Rightarrow> take (length (acl_resource_name a)) name = acl_resource_name a)"

record principal =
  pr_name :: bytes
  pr_host :: bytes

definition principal_user :: "bytes \<Rightarrow> bytes \<Rightarrow> principal" where
  "principal_user role host = \<lparr>pr_name = ascii ''User:'' @ role, pr_host = host\<rparr>"

definition principal_certificate :: "bytes \<Rightarrow> bytes \<Rightarrow> principal" where
  "principal_certificate dn host = \<lparr>pr_name = ascii ''User:'' @ dn, pr_host = host\<rparr>"

definition principal_anonymous :: "bytes \<Rightarrow> principal" where
  "principal_anonymous host = \<lparr>pr_name = ascii ''User:ANONYMOUS'', pr_host = host\<rparr>"

text \<open>A row of \<open>kafgres_acls\<close>; also the handlers' \<open>Rule\<close>.\<close>

record acl_rule =
  ru_principal :: bytes
  ru_host :: bytes
  ru_operation :: string
  ru_permission :: string
  ru_resource_type :: string
  ru_resource_name :: bytes
  ru_pattern_type :: string

record acl_cache =
  ca_acls :: "acl list"
  ca_enabled :: bool
  ca_superusers :: "bytes list"

text \<open>\<open>split(';')\<close>, \<open>trim\<close> (of the ASCII white space) and the filter of the empty names.\<close>

fun split_on :: "'a \<Rightarrow> 'a list \<Rightarrow> 'a list list" where
  "split_on c [] = [[]]"
| "split_on c (x # xs) =
     (if x = c then [] # split_on c xs
      else case split_on c xs of [] \<Rightarrow> [[x]] | p # ps \<Rightarrow> (x # p) # ps)"

definition is_space :: "u8 \<Rightarrow> bool" where
  "is_space b \<longleftrightarrow> b = 0x20 \<or> (0x09 \<le> b \<and> b \<le> 0x0d)"

definition trim :: "bytes \<Rightarrow> bytes" where
  "trim s = rev (dropWhile is_space (rev (dropWhile is_space s)))"

definition parse_superusers :: "bytes \<Rightarrow> bytes list" where
  "parse_superusers s = filter (\<lambda>n. n \<noteq> []) (map trim (split_on 0x3b s))"

definition load_rule :: "acl_rule \<Rightarrow> acl option" where
  "load_rule r =
     (case resource_parse (ru_resource_type r) of
        None \<Rightarrow> None
      | Some rt \<Rightarrow> Some \<lparr>acl_principal = ru_principal r, acl_host = ru_host r, acl_operation = ru_operation r,
          permission_allow = (ru_permission r = ''ALLOW''), acl_resource_type = rt,
          acl_resource_name = ru_resource_name r,
          acl_pattern = (if ru_pattern_type r = ''PREFIXED'' then Prefixed else Literal)\<rparr>)"

definition acl_load :: "bool \<Rightarrow> bytes \<Rightarrow> acl_rule list \<Rightarrow> acl_cache" where
  "acl_load enabled superusers rules =
     \<lparr>ca_acls = (if enabled then List.map_filter load_rule rules else []),
      ca_enabled = enabled, ca_superusers = parse_superusers superusers\<rparr>"

definition allows :: "acl_cache \<Rightarrow> principal \<Rightarrow> operation \<Rightarrow> resource_type \<Rightarrow> bytes \<Rightarrow> bool" where
  "allows c who op rt name =
     (if \<not> ca_enabled c then True
      else if pr_name who \<in> set (ca_superusers c) then True
      else let matching = (\<lambda>allow. list_ex (\<lambda>a. acl_matches a (pr_name who) (pr_host who) op rt name)
                                    (filter (\<lambda>a. permission_allow a = allow) (ca_acls c)))
           in if matching False then False else matching True)"

record authz =
  az_acls :: acl_cache
  az_principal :: principal

definition authz_check :: "authz \<Rightarrow> operation \<Rightarrow> resource_type \<Rightarrow> bytes \<Rightarrow> error_code + unit" where
  "authz_check az op rt name =
     (if allows (az_acls az) (az_principal az) op rt name then Inr () else Inl (denied_code rt))"

text \<open>The bitfield of the operations a principal may perform on one resource.\<close>

definition authorized_operations :: "authz \<Rightarrow> resource_type \<Rightarrow> bytes \<Rightarrow> i32" where
  "authorized_operations az rt name =
     fold (\<lambda>op bits. if authz_check az op rt name = Inr () then bits OR push_bit (acl_code op) 1 else bits)
       (operations_for rt) 0"

text \<open>A backend's own snapshot is reloaded when \<open>stale\<close>, and is returned.\<close>

definition sql_caller_may_write :: "bool \<Rightarrow> bool \<Rightarrow> bool \<Rightarrow> bytes \<Rightarrow> acl_rule list \<Rightarrow> acl_cache \<Rightarrow>
    bytes \<Rightarrow> bytes \<Rightarrow> bytes \<Rightarrow> bool \<times> acl_cache" where
  "sql_caller_may_write enabled pg_superuser stale superusers rules cache role host topic =
     (if \<not> enabled \<or> pg_superuser then (True, cache)
      else let cache = (if stale then acl_load enabled superusers rules else cache) in
        (allows cache (principal_user role host) Write Topic topic, cache))"

subsection \<open>Wire enumerations\<close>

definition resource_type_from_wire :: "i8 \<Rightarrow> resource_type option" where
  "resource_type_from_wire c =
     (if c = 2 then Some Topic else if c = 3 then Some Group else if c = 4 then Some Cluster
      else if c = 5 then Some TransactionalId else None)"

definition resource_type_to_wire :: "string \<Rightarrow> i8" where
  "resource_type_to_wire s =
     (if s = ''TOPIC'' then 2 else if s = ''GROUP'' then 3 else if s = ''CLUSTER'' then 4
      else if s = ''TRANSACTIONAL_ID'' then 5 else 0)"

definition pattern_type_from_wire :: "i8 \<Rightarrow> string option" where
  "pattern_type_from_wire c = (if c = 3 then Some ''LITERAL'' else if c = 4 then Some ''PREFIXED'' else None)"

definition pattern_type_to_wire :: "string \<Rightarrow> i8" where
  "pattern_type_to_wire s = (if s = ''LITERAL'' then 3 else if s = ''PREFIXED'' then 4 else 0)"

definition operation_from_wire :: "i8 \<Rightarrow> string option" where
  "operation_from_wire c =
     (if c = 2 then Some ''ALL'' else if c = 3 then Some ''READ'' else if c = 4 then Some ''WRITE''
      else if c = 5 then Some ''CREATE'' else if c = 6 then Some ''DELETE'' else if c = 7 then Some ''ALTER''
      else if c = 8 then Some ''DESCRIBE'' else if c = 9 then Some ''CLUSTER_ACTION''
      else if c = 10 then Some ''DESCRIBE_CONFIGS'' else if c = 11 then Some ''ALTER_CONFIGS''
      else if c = 12 then Some ''IDEMPOTENT_WRITE'' else None)"

definition operation_to_wire :: "string \<Rightarrow> i8" where
  "operation_to_wire s =
     (if s = ''ALL'' then 2 else if s = ''READ'' then 3 else if s = ''WRITE'' then 4
      else if s = ''CREATE'' then 5 else if s = ''DELETE'' then 6 else if s = ''ALTER'' then 7
      else if s = ''DESCRIBE'' then 8 else if s = ''CLUSTER_ACTION'' then 9
      else if s = ''DESCRIBE_CONFIGS'' then 10 else if s = ''ALTER_CONFIGS'' then 11
      else if s = ''IDEMPOTENT_WRITE'' then 12 else 0)"

definition permission_from_wire :: "i8 \<Rightarrow> string option" where
  "permission_from_wire c = (if c = 2 then Some ''DENY'' else if c = 3 then Some ''ALLOW'' else None)"

definition permission_to_wire :: "string \<Rightarrow> i8" where
  "permission_to_wire s = (if s = ''DENY'' then 2 else if s = ''ALLOW'' then 3 else 0)"

definition is_any :: "i8 \<Rightarrow> bool" where
  "is_any c \<longleftrightarrow> c = 1"

subsection \<open>The table and the requests\<close>

text \<open>The \<open>CHECK\<close> and \<open>UNIQUE\<close> constraints of \<open>kafgres_acls\<close> (\<open>src/extension/src/init060.rs\<close>).\<close>

definition rule_ok :: "acl_rule \<Rightarrow> bool" where
  "rule_ok r \<longleftrightarrow>
     ru_operation r \<in> {''READ'', ''WRITE'', ''CREATE'', ''DELETE'', ''ALTER'', ''DESCRIBE'', ''DESCRIBE_CONFIGS'',
       ''ALTER_CONFIGS'', ''IDEMPOTENT_WRITE'', ''CLUSTER_ACTION'', ''ALL''}
     \<and> ru_permission r \<in> {''ALLOW'', ''DENY''}
     \<and> ru_resource_type r \<in> {''TOPIC'', ''GROUP'', ''CLUSTER'', ''TRANSACTIONAL_ID''}
     \<and> ru_pattern_type r \<in> {''LITERAL'', ''PREFIXED''}"

definition acl_table_ok :: "acl_rule list \<Rightarrow> bool" where
  "acl_table_ok rules \<longleftrightarrow> distinct rules \<and> list_all rule_ok rules"

text \<open>\<open>INSERT ... ON CONFLICT DO NOTHING\<close>.\<close>

definition insert_rule :: "acl_rule \<Rightarrow> acl_rule list \<Rightarrow> acl_rule list" where
  "insert_rule r rules = (if r \<in> set rules then rules else rules @ [r])"

record acl_filter =
  fi_resource_type :: i8
  fi_resource_name :: "bytes option"
  fi_pattern_type :: i8
  fi_principal :: "bytes option"
  fi_host :: "bytes option"
  fi_operation :: i8
  fi_permission :: i8

definition enum_clause :: "i8 \<Rightarrow> string option \<Rightarrow> (acl_rule \<Rightarrow> string) \<Rightarrow> error_code + (acl_rule \<Rightarrow> bool)" where
  "enum_clause c word col =
     (if is_any c then Inr (\<lambda>_. True)
      else case word of
          Some w \<Rightarrow> Inr (\<lambda>r. col r = w)
        | None \<Rightarrow> if c \<noteq> 0 then Inr (\<lambda>_. False) else Inl E_InvalidRequest)"

definition nonempty :: "bytes option \<Rightarrow> bytes option" where
  "nonempty x = (case x of Some (b # bs) \<Rightarrow> Some (b # bs) | _ \<Rightarrow> None)"

definition text_clause :: "bytes option \<Rightarrow> (acl_rule \<Rightarrow> bytes) \<Rightarrow> acl_rule \<Rightarrow> bool" where
  "text_clause x col r = (case nonempty x of Some v \<Rightarrow> col r = v | None \<Rightarrow> True)"

definition match_clause :: "bytes \<Rightarrow> acl_rule \<Rightarrow> bool" where
  "match_clause name r \<longleftrightarrow>
     (ru_pattern_type r = ''LITERAL'' \<and> (ru_resource_name r = name \<or> ru_resource_name r = ascii ''*''))
     \<or> (ru_pattern_type r = ''PREFIXED'' \<and> take (length (ru_resource_name r)) name = ru_resource_name r)"

definition filter_clause :: "acl_filter \<Rightarrow> error_code + (acl_rule \<Rightarrow> bool)" where
  "filter_clause f =
     rbind (enum_clause (fi_resource_type f)
              (map_option resource_as_str (resource_type_from_wire (fi_resource_type f))) ru_resource_type) (\<lambda>c_type.
     rbind (if fi_pattern_type f = 2
            then Inr (match_clause (case nonempty (fi_resource_name f) of Some n \<Rightarrow> n | None \<Rightarrow> []))
            else enum_clause (fi_pattern_type f) (pattern_type_from_wire (fi_pattern_type f)) ru_pattern_type) (\<lambda>c_pattern.
     rbind (enum_clause (fi_operation f) (operation_from_wire (fi_operation f)) ru_operation) (\<lambda>c_operation.
     rbind (enum_clause (fi_permission f) (permission_from_wire (fi_permission f)) ru_permission) (\<lambda>c_permission.
       Inr (\<lambda>r. c_type r
         \<and> (fi_pattern_type f \<noteq> 2 \<longrightarrow> text_clause (fi_resource_name f) ru_resource_name r)
         \<and> c_pattern r \<and> text_clause (fi_principal f) ru_principal r \<and> text_clause (fi_host f) ru_host r
         \<and> c_operation r \<and> c_permission r)))))"

definition MAX_DESCRIBED_ACLS :: nat where "MAX_DESCRIBED_ACLS = 10000"

definition select_rules :: "(acl_rule \<Rightarrow> 'k::linorder) \<Rightarrow> (acl_rule \<Rightarrow> bool) \<Rightarrow> acl_rule list \<Rightarrow> acl_rule list" where
  "select_rules order_key clause rules = take (MAX_DESCRIBED_ACLS + 1) (sort_key order_key (filter clause rules))"

definition CLUSTER_NAME :: bytes where
  "CLUSTER_NAME = ascii ''kafka-cluster''"

text \<open>Describe: the rules grouped by resource, in the order the resources are first met. The index
  maps a resource to its place in the answer.\<close>

type_synonym resource_key = "i8 \<times> bytes \<times> i8"

record acl_description =
  ad_principal :: bytes
  ad_host :: bytes
  ad_operation :: i8
  ad_permission :: i8

definition resource_key :: "acl_rule \<Rightarrow> resource_key" where
  "resource_key r = (resource_type_to_wire (ru_resource_type r), ru_resource_name r,
     pattern_type_to_wire (ru_pattern_type r))"

definition description_of :: "acl_rule \<Rightarrow> acl_description" where
  "description_of r = \<lparr>ad_principal = ru_principal r, ad_host = ru_host r,
     ad_operation = operation_to_wire (ru_operation r), ad_permission = permission_to_wire (ru_permission r)\<rparr>"

type_synonym acl_grouping = "(resource_key \<rightharpoonup> nat) \<times> (resource_key \<times> acl_description list) list"

fun group_rule :: "acl_rule \<Rightarrow> acl_grouping \<Rightarrow> acl_grouping" where
  "group_rule r (index, resources) =
     (let key = resource_key r; d = description_of r in
      case index key of
        Some at \<Rightarrow> (index, resources[at := (fst (resources ! at), snd (resources ! at) @ [d])])
      | None \<Rightarrow> (index(key \<mapsto> length resources), resources @ [(key, [d])]))"

definition describe_acls :: "(acl_rule \<Rightarrow> 'k::linorder) \<Rightarrow> authz \<Rightarrow> acl_filter \<Rightarrow> acl_rule list \<Rightarrow>
    handler_error + (error_code \<times> (resource_key \<times> acl_description list) list)" where
  "describe_acls order_key az f rules =
     (case authz_check az Describe Cluster CLUSTER_NAME of
        Inl e \<Rightarrow> Inr (e, [])
      | Inr _ \<Rightarrow>
          (case filter_clause f of
             Inl e \<Rightarrow> Inr (e, [])
           | Inr clause \<Rightarrow>
               let selected = select_rules order_key clause rules in
               if length selected > MAX_DESCRIBED_ACLS then Inl (TooLarge ''acl listing'' (length selected))
               else Inr (E_None, snd (fold group_rule selected (Map.empty, [])))))"

record acl_creation =
  cr_resource_type :: i8
  cr_resource_name :: bytes
  cr_pattern_type :: i8
  cr_principal :: bytes
  cr_host :: bytes
  cr_operation :: i8
  cr_permission :: i8

definition parse_creation :: "acl_creation \<Rightarrow> acl_rule option" where
  "parse_creation c =
     (case (resource_type_from_wire (cr_resource_type c), pattern_type_from_wire (cr_pattern_type c),
            operation_from_wire (cr_operation c), permission_from_wire (cr_permission c)) of
        (Some rt, Some pt, Some op, Some perm) \<Rightarrow>
          Some \<lparr>ru_principal = cr_principal c, ru_host = cr_host c, ru_operation = op, ru_permission = perm,
             ru_resource_type = resource_as_str rt, ru_resource_name = cr_resource_name c, ru_pattern_type = pt\<rparr>
      | _ \<Rightarrow> None)"

definition creation_malformed :: "acl_creation \<Rightarrow> bool" where
  "creation_malformed c \<longleftrightarrow> take 5 (cr_principal c) \<noteq> ascii ''User:'' \<or> cr_resource_name c = []"

definition create_one :: "(acl_rule \<Rightarrow> bool) \<Rightarrow> acl_creation \<Rightarrow> acl_rule list \<Rightarrow> error_code \<times> acl_rule list" where
  "create_one refused c rules =
     (if creation_malformed c then (E_InvalidRequest, rules)
      else case parse_creation c of
          None \<Rightarrow> (E_InvalidRequest, rules)
        | Some r \<Rightarrow> if refused r then (E_UnknownServerError, rules) else (E_None, insert_rule r rules))"

fun create_all :: "(acl_rule \<Rightarrow> bool) \<Rightarrow> acl_creation list \<Rightarrow> acl_rule list \<Rightarrow> error_code list \<times> acl_rule list" where
  "create_all refused [] rules = ([], rules)"
| "create_all refused (c # cs) rules =
     (let (e, rules) = create_one refused c rules; (es, rules) = create_all refused cs rules in (e # es, rules))"

definition create_acls :: "(acl_rule \<Rightarrow> bool) \<Rightarrow> authz \<Rightarrow> acl_creation list \<Rightarrow> acl_rule list \<Rightarrow>
    handler_error + (error_code list \<times> acl_rule list)" where
  "create_acls refused az cs rules =
     rbind (check_admin_len ''acl creation list'' (length cs)) (\<lambda>_.
       case authz_check az Alter Cluster CLUSTER_NAME of
         Inl e \<Rightarrow> Inr (map (\<lambda>_. e) cs, rules)
       | Inr _ \<Rightarrow> Inr (create_all refused cs rules))"

type_synonym acl_filter_result = "error_code \<times> (resource_key \<times> acl_description) list"

definition delete_one :: "(acl_rule \<Rightarrow> 'k::linorder) \<Rightarrow> (acl_filter \<Rightarrow> bool) \<Rightarrow> acl_filter \<Rightarrow> acl_rule list \<Rightarrow>
    acl_filter_result \<times> acl_rule list" where
  "delete_one order_key refused f rules =
     (case filter_clause f of
        Inl e \<Rightarrow> ((e, []), rules)
      | Inr clause \<Rightarrow>
          let matched = select_rules order_key clause rules in
          if refused f then ((E_UnknownServerError, []), rules)
          else ((E_None, map (\<lambda>r. (resource_key r, description_of r)) matched),
                filter (\<lambda>r. \<not> clause r) rules))"

fun delete_all :: "(acl_rule \<Rightarrow> 'k::linorder) \<Rightarrow> (acl_filter \<Rightarrow> bool) \<Rightarrow> acl_filter list \<Rightarrow> acl_rule list \<Rightarrow>
    acl_filter_result list \<times> acl_rule list" where
  "delete_all order_key refused [] rules = ([], rules)"
| "delete_all order_key refused (f # fs) rules =
     (let (x, rules) = delete_one order_key refused f rules;
          (xs, rules) = delete_all order_key refused fs rules
      in (x # xs, rules))"

definition delete_acls :: "(acl_rule \<Rightarrow> 'k::linorder) \<Rightarrow> (acl_filter \<Rightarrow> bool) \<Rightarrow> authz \<Rightarrow> acl_filter list \<Rightarrow>
    acl_rule list \<Rightarrow> handler_error + (acl_filter_result list \<times> acl_rule list)" where
  "delete_acls order_key refused az fs rules =
     rbind (check_admin_len ''acl filter list'' (length fs)) (\<lambda>_.
       case authz_check az Alter Cluster CLUSTER_NAME of
         Inl e \<Rightarrow> Inr (map (\<lambda>_. (e, [])) fs, rules)
       | Inr _ \<Rightarrow> Inr (delete_all order_key refused fs rules))"

text \<open>The SQL functions \<open>kafgres_add_acl\<close> and \<open>kafgres_remove_acl\<close>, on ASCII words. An added row that
  breaks a constraint raises, as an untyped principal does.\<close>

definition upper :: "string \<Rightarrow> string" where
  "upper s = map (\<lambda>c. if CHR ''a'' \<le> c \<and> c \<le> CHR ''z'' then char_of (of_char c - 32 :: nat) else c) s"

definition kafgres_add_acl :: "bytes \<Rightarrow> string \<Rightarrow> string \<Rightarrow> bytes \<Rightarrow> string \<Rightarrow> string \<Rightarrow> bytes \<Rightarrow>
    acl_rule list \<Rightarrow> acl_rule list option" where
  "kafgres_add_acl who operation resource name permission pattern host rules =
     (if take 5 who \<noteq> ascii ''User:'' then None
      else let r = \<lparr>ru_principal = who, ru_host = host, ru_operation = upper operation,
                ru_permission = upper permission, ru_resource_type = upper resource,
                ru_resource_name = name, ru_pattern_type = upper pattern\<rparr>
           in if rule_ok r then Some (insert_rule r rules) else None)"

definition kafgres_remove_acl :: "bytes \<Rightarrow> string \<Rightarrow> string \<Rightarrow> bytes \<Rightarrow> acl_rule list \<Rightarrow> nat \<times> acl_rule list" where
  "kafgres_remove_acl who operation resource name rules =
     (let gone = (\<lambda>r. ru_principal r = who \<and> upper (ru_operation r) = upper operation
                \<and> upper (ru_resource_type r) = upper resource \<and> ru_resource_name r = name)
      in (length (filter gone rules), filter (\<lambda>r. \<not> gone r) rules))"

end
