(* ===== verification/GroupHandlers.thy ===== *)
theory GroupHandlers
  imports GroupCoordinator Acl
begin

text \<open>
  The requests of the classic group protocol and the server's bookkeeping for them:
  JoinGroup and SyncGroup (\<open>src/extension/src/handlers/join_sync.rs\<close>), Heartbeat and LeaveGroup
  (\<open>src/extension/src/handlers/coordinator.rs\<close>), DeleteGroups
  (\<open>src/extension/src/handlers/admin.rs\<close>), how the dispatcher parks a join or a sync
  (\<open>src/extension/src/server/dispatch.rs\<close>), the pass that completes parked requests and the tick
  that expires members (\<open>src/extension/src/server/mod.rs\<close>).

  The records of requests and responses hold the fields the handlers read and write; the throttle
  time is always 0 and the tagged fields empty. The server's monotonic clock and the database's
  \<open>now()\<close> are one clock in milliseconds. Requests queued behind a held table lock, parked fetches
  and closed connections are not modelled.
\<close>

definition MEMBER_ID_REQUIRED_FROM :: int where "MEMBER_ID_REQUIRED_FROM = 4"

record join_request =
  jq_group_id :: bytes
  jq_session_timeout_ms :: i32
  jq_rebalance_timeout_ms :: i32
  jq_member_id :: bytes
  jq_group_instance_id :: "bytes option"
  jq_protocol_type :: bytes
  jq_protocols :: "(bytes \<times> bytes) list"

record join_reply =
  jr_error_code :: error_code
  jr_generation_id :: int
  jr_protocol_type :: "bytes option"
  jr_protocol_name :: "bytes option"
  jr_leader :: bytes
  jr_member_id :: bytes
  jr_members :: "(bytes \<times> bytes option \<times> bytes) list"

datatype join_outcome = JoinReply join_reply | JoinPark bytes

definition error_join :: "error_code \<Rightarrow> bytes \<Rightarrow> join_reply" where
  "error_join e mid = \<lparr>jr_error_code = e, jr_generation_id = -1, jr_protocol_type = Some [],
     jr_protocol_name = Some [], jr_leader = [], jr_member_id = mid, jr_members = []\<rparr>"

definition register_and_park :: "int \<Rightarrow> int \<Rightarrow> join_request \<Rightarrow> bytes \<Rightarrow> bytes \<Rightarrow> bytes \<Rightarrow> group_db \<Rightarrow>
    join_outcome \<times> group_db" where
  "register_and_park now delay req mid client client_host db =
     (let protocols = map fst (jq_protocols req) in
      if protocols = [] then (JoinReply (error_join E_InconsistentGroupProtocol mid), db)
      else if protocol_type_conflicts (jq_group_id req) (jq_protocol_type req) db
      then (JoinReply (error_join E_InconsistentGroupProtocol mid), db)
      else (JoinPark mid,
            join_member now delay (jq_group_id req) mid (jq_group_instance_id req) client client_host
              (sint (jq_session_timeout_ms req)) (sint (jq_rebalance_timeout_ms req)) (jq_protocol_type req)
              protocols (snd (hd (jq_protocols req))) db))"

definition join_group :: "bytes \<Rightarrow> int \<Rightarrow> int \<Rightarrow> join_request \<Rightarrow> i16 \<Rightarrow> bytes \<Rightarrow> bytes \<Rightarrow> authz \<Rightarrow> group_db \<Rightarrow>
    join_outcome \<times> group_db" where
  "join_group uuid now delay req version client client_host az db =
     (case authz_check az Read Group (jq_group_id req) of
        Inl e \<Rightarrow> (JoinReply (error_join e (jq_member_id req)), db)
      | Inr _ \<Rightarrow>
          if jq_group_id req = [] then (JoinReply (error_join E_InvalidGroupId []), db)
          else if jq_member_id req = []
          then let mid = new_member_id uuid client in
            if sint version \<ge> MEMBER_ID_REQUIRED_FROM
            then (JoinReply ((error_join E_MemberIdRequired mid)
                    \<lparr>jr_protocol_type := Some (jq_protocol_type req)\<rparr>), db)
            else register_and_park now delay req mid client client_host db
          else register_and_park now delay req (jq_member_id req) client client_host db)"

definition or_empty :: "bytes option \<Rightarrow> bytes" where
  "or_empty x = (case x of Some b \<Rightarrow> b | None \<Rightarrow> [])"

definition join_response :: "(bytes \<Rightarrow> 'k::linorder) \<Rightarrow> bytes \<Rightarrow> bytes \<Rightarrow> group_db \<Rightarrow> join_reply" where
  "join_response collate gid mid db =
     (case load_group gid db of
        None \<Rightarrow> error_join E_UnknownMemberId mid
      | Some g \<Rightarrow>
          let ms = members collate gid db in
          if \<not> list_ex (\<lambda>m. gm_member_id m = mid) ms then error_join E_UnknownMemberId mid
          else \<lparr>jr_error_code = E_None, jr_generation_id = gr_generation g,
                jr_protocol_type = Some (or_empty (gr_protocol_type g)),
                jr_protocol_name = Some (or_empty (gr_protocol_name g)),
                jr_leader = or_empty (gr_leader_member g), jr_member_id = mid,
                jr_members = (if gr_leader_member g = Some mid
                  then map (\<lambda>m. (gm_member_id m, gm_group_instance_id m, gm_metadata m)) ms else [])\<rparr>)"

record sync_request =
  sq_group_id :: bytes
  sq_generation_id :: i32
  sq_member_id :: bytes
  sq_assignments :: "(bytes \<times> bytes) list"

record sync_reply =
  sr_error_code :: error_code
  sr_protocol_type :: "bytes option"
  sr_protocol_name :: "bytes option"
  sr_assignment :: bytes

datatype sync_outcome = SyncReply sync_reply | SyncPark

definition error_sync :: "error_code \<Rightarrow> sync_reply" where
  "error_sync e = \<lparr>sr_error_code = e, sr_protocol_type = Some [], sr_protocol_name = Some [], sr_assignment = []\<rparr>"

definition sync_response :: "(bytes \<Rightarrow> 'k::linorder) \<Rightarrow> bytes \<Rightarrow> bytes \<Rightarrow> group_db \<Rightarrow> sync_reply option" where
  "sync_response collate gid mid db =
     (case load_group gid db of
        None \<Rightarrow> Some (error_sync E_UnknownMemberId)
      | Some g \<Rightarrow>
          (case member collate gid mid db of
             None \<Rightarrow> Some (error_sync E_UnknownMemberId)
           | Some m \<Rightarrow>
               if gr_state g = PreparingRebalance then Some (error_sync E_RebalanceInProgress)
               else case gm_assignment m of
                   None \<Rightarrow> None
                 | Some a \<Rightarrow> Some \<lparr>sr_error_code = E_None,
                     sr_protocol_type = Some (or_empty (gr_protocol_type g)),
                     sr_protocol_name = Some (or_empty (gr_protocol_name g)), sr_assignment = a\<rparr>))"

definition sync_group :: "(bytes \<Rightarrow> 'k::linorder) \<Rightarrow> sync_request \<Rightarrow> authz \<Rightarrow> group_db \<Rightarrow> sync_outcome \<times> group_db" where
  "sync_group collate req az db =
     (case authz_check az Read Group (sq_group_id req) of
        Inl e \<Rightarrow> (SyncReply (error_sync e), db)
      | Inr _ \<Rightarrow>
          (case load_group (sq_group_id req) db of
             None \<Rightarrow> (SyncReply (error_sync E_UnknownMemberId), db)
           | Some g \<Rightarrow>
               if member collate (sq_group_id req) (sq_member_id req) db = None
               then (SyncReply (error_sync E_UnknownMemberId), db)
               else if sint (sq_generation_id req) \<noteq> gr_generation g
               then (SyncReply (error_sync E_IllegalGeneration), db)
               else if gr_state g = PreparingRebalance
               then (SyncReply (error_sync E_RebalanceInProgress), db)
               else let db = (if gr_leader_member g = Some (sq_member_id req) \<and> sq_assignments req \<noteq> []
                              then apply_assignments (sq_group_id req) (sq_assignments req) db else db) in
                 (case sync_response collate (sq_group_id req) (sq_member_id req) db of
                    Some r \<Rightarrow> (SyncReply r, db)
                  | None \<Rightarrow> (SyncPark, db))))"

record heartbeat_request =
  hq_group_id :: bytes
  hq_generation_id :: i32
  hq_member_id :: bytes

definition heartbeat_code :: "(bytes \<Rightarrow> 'k::linorder) \<Rightarrow> int \<Rightarrow> heartbeat_request \<Rightarrow> group_db \<Rightarrow>
    error_code \<times> group_db" where
  "heartbeat_code collate now req db =
     (case load_group (hq_group_id req) db of
        None \<Rightarrow> (E_UnknownMemberId, db)
      | Some g \<Rightarrow>
          if member collate (hq_group_id req) (hq_member_id req) db = None then (E_UnknownMemberId, db)
          else if sint (hq_generation_id req) \<noteq> gr_generation g then (E_IllegalGeneration, db)
          else (case gr_state g of
                  PreparingRebalance \<Rightarrow> E_RebalanceInProgress
                | CompletingRebalance \<Rightarrow> E_RebalanceInProgress
                | GEmpty \<Rightarrow> E_UnknownMemberId
                | GStable \<Rightarrow> E_None,
                touch_heartbeat now (hq_group_id req) (hq_member_id req) db))"

definition heartbeat :: "(bytes \<Rightarrow> 'k::linorder) \<Rightarrow> int \<Rightarrow> heartbeat_request \<Rightarrow> authz \<Rightarrow> group_db \<Rightarrow>
    error_code \<times> group_db" where
  "heartbeat collate now req az db =
     (case authz_check az Read Group (hq_group_id req) of
        Inl e \<Rightarrow> (e, db)
      | Inr _ \<Rightarrow> heartbeat_code collate now req db)"

record leave_request =
  lq_group_id :: bytes
  lq_member_id :: bytes
  lq_members :: "(bytes \<times> bytes option) list"

fun leave_all :: "int \<Rightarrow> bytes \<Rightarrow> (bytes \<times> bytes option) list \<Rightarrow> group_db \<Rightarrow>
    (bytes \<times> bytes option \<times> error_code) list \<times> group_db" where
  "leave_all now gid [] db = ([], db)"
| "leave_all now gid ((mid, instance_id) # leaving) db =
     (let (removed, db) = leave_member now gid mid db;
          (rs, db) = leave_all now gid leaving db
      in ((mid, instance_id, if removed then E_None else E_UnknownMemberId) # rs, db))"

definition leave_group :: "int \<Rightarrow> leave_request \<Rightarrow> i16 \<Rightarrow> authz \<Rightarrow> group_db \<Rightarrow>
    (error_code \<times> (bytes \<times> bytes option \<times> error_code) list) \<times> group_db" where
  "leave_group now req version az db =
     (case authz_check az Read Group (lq_group_id req) of
        Inl e \<Rightarrow> ((e, []), db)
      | Inr _ \<Rightarrow>
          let leaving = (if sint version \<ge> 3 then lq_members req else [(lq_member_id req, None)]);
              (rs, db) = leave_all now (lq_group_id req) leaving db
          in ((E_None, rs), db))"

fun delete_each :: "authz \<Rightarrow> bytes list \<Rightarrow> group_db \<Rightarrow> (bytes \<times> error_code) list \<times> group_db" where
  "delete_each az [] db = ([], db)"
| "delete_each az (gid # gids) db =
     (case authz_check az Delete Group gid of
        Inl e \<Rightarrow> (let (rs, db) = delete_each az gids db in ((gid, e) # rs, db))
      | Inr _ \<Rightarrow>
          (let (outcome, db) = delete_group gid db; (rs, db) = delete_each az gids db
           in ((gid, delete_outcome_code outcome) # rs, db)))"

definition delete_groups :: "bytes list \<Rightarrow> authz \<Rightarrow> group_db \<Rightarrow>
    handler_error + ((bytes \<times> error_code) list \<times> group_db)" where
  "delete_groups gids az db =
     rbind (check_admin_len ''delete groups list'' (length gids)) (\<lambda>_. Inr (delete_each az gids db))"

subsection \<open>Parked requests\<close>

datatype waiting = WaitJoin bytes bytes | WaitSync bytes bytes

record parked =
  pk_conn_id :: i32
  pk_seq :: u64
  pk_deadline :: int
  pk_waiting :: waiting

datatype group_body = JoinBody join_reply | SyncBody sync_reply

record group_server =
  gs_db :: group_db
  gs_parked :: "parked list"
  gs_changed :: "bytes list"

definition MAX_PARKED :: nat where "MAX_PARKED = 4096"

datatype disposition = Reply group_body | Parked

definition serve_join_group :: "bytes \<Rightarrow> int \<Rightarrow> int \<Rightarrow> join_request \<Rightarrow> i16 \<Rightarrow> bytes \<Rightarrow> bytes \<Rightarrow> authz \<Rightarrow>
    i32 \<Rightarrow> u64 \<Rightarrow> group_server \<Rightarrow> disposition \<times> group_server" where
  "serve_join_group uuid now delay req version client peer az conn sq srv =
     (let (outcome, db) = join_group uuid now delay req version client peer az (gs_db srv);
          srv = srv\<lparr>gs_db := db, gs_changed := jq_group_id req # gs_changed srv\<rparr> in
      case outcome of
        JoinReply body \<Rightarrow> (Reply (JoinBody body), srv)
      | JoinPark mid \<Rightarrow>
          if length (gs_parked srv) \<ge> MAX_PARKED
          then (Reply (JoinBody (error_join E_RebalanceInProgress mid)), srv)
          else (Parked, srv\<lparr>gs_parked := gs_parked srv @
                  [\<lparr>pk_conn_id = conn, pk_seq = sq,
                    pk_deadline = now + clamp_rebalance_timeout (sint (jq_rebalance_timeout_ms req)),
                    pk_waiting = WaitJoin (jq_group_id req) mid\<rparr>]\<rparr>))"

definition serve_sync_group :: "(bytes \<Rightarrow> 'k::linorder) \<Rightarrow> int \<Rightarrow> sync_request \<Rightarrow> authz \<Rightarrow> i32 \<Rightarrow> u64 \<Rightarrow>
    group_server \<Rightarrow> disposition \<times> group_server" where
  "serve_sync_group collate now req az conn sq srv =
     (let (outcome, db) = sync_group collate req az (gs_db srv);
          srv = srv\<lparr>gs_db := db, gs_changed := sq_group_id req # gs_changed srv\<rparr> in
      case outcome of
        SyncReply body \<Rightarrow> (Reply (SyncBody body), srv)
      | SyncPark \<Rightarrow>
          if length (gs_parked srv) \<ge> MAX_PARKED
          then (Reply (SyncBody (error_sync E_RebalanceInProgress)), srv)
          else (Parked, srv\<lparr>gs_parked := gs_parked srv @
                  [\<lparr>pk_conn_id = conn, pk_seq = sq, pk_deadline = now + 60000,
                    pk_waiting = WaitSync (sq_group_id req) (sq_member_id req)\<rparr>]\<rparr>))"

text \<open>A parked join is resolved by completing the rebalance when its window has closed or the
  request itself has expired.\<close>

definition resolve_join :: "(bytes \<Rightarrow> 'k::linorder) \<Rightarrow> int \<Rightarrow> bool \<Rightarrow> bytes \<Rightarrow> bytes \<Rightarrow> group_db \<Rightarrow>
    join_reply option \<times> group_db" where
  "resolve_join collate now expired gid mid db =
     (let completes = (map_option gr_state (load_group gid db) = Some PreparingRebalance
                       \<and> (expired \<or> join_window_closed now gid db));
          (outcome, db) = (if completes then complete_join collate gid db else (Completed, db)) in
      if outcome = NoCommonProtocol then (Some (error_join E_InconsistentGroupProtocol mid), db)
      else case map_option gr_state (load_group gid db) of
          Some PreparingRebalance \<Rightarrow> (None, db)
        | None \<Rightarrow> (None, db)
        | _ \<Rightarrow> (Some (join_response collate gid mid db), db))"

definition resolve_sync :: "(bytes \<Rightarrow> 'k::linorder) \<Rightarrow> bool \<Rightarrow> bytes \<Rightarrow> bytes \<Rightarrow> group_db \<Rightarrow> sync_reply option" where
  "resolve_sync collate expired gid mid db =
     (case sync_response collate gid mid db of
        Some r \<Rightarrow> Some r
      | None \<Rightarrow> if expired then Some (error_sync E_RebalanceInProgress) else None)"

fun waiting_group :: "waiting \<Rightarrow> bytes" where
  "waiting_group (WaitJoin gid mid) = gid"
| "waiting_group (WaitSync gid mid) = gid"

definition resolve_parked :: "(bytes \<Rightarrow> 'k::linorder) \<Rightarrow> int \<Rightarrow> bytes list \<Rightarrow> parked \<Rightarrow> group_db \<Rightarrow>
    group_body option \<times> group_db" where
  "resolve_parked collate now changed p db =
     (let expired = (now \<ge> pk_deadline p) in
      if \<not> expired \<and> waiting_group (pk_waiting p) \<notin> set changed then (None, db)
      else case pk_waiting p of
          WaitJoin gid mid \<Rightarrow>
            (let (r, db) = resolve_join collate now expired gid mid db in (map_option JoinBody r, db))
        | WaitSync gid mid \<Rightarrow> (map_option SyncBody (resolve_sync collate expired gid mid db), db))"

fun complete_pass :: "(bytes \<Rightarrow> 'k::linorder) \<Rightarrow> int \<Rightarrow> bytes list \<Rightarrow> parked list \<Rightarrow> group_db \<Rightarrow>
    ((parked \<times> group_body) list \<times> parked list) \<times> group_db" where
  "complete_pass collate now changed [] db = (([], []), db)"
| "complete_pass collate now changed (p # ps) db =
     (let (r, db) = resolve_parked collate now changed p db;
          ((answered, still), db) = complete_pass collate now changed ps db
      in case r of
          Some body \<Rightarrow> (((p, body) # answered, still), db)
        | None \<Rightarrow> ((answered, p # still), db))"

definition complete_parked :: "(bytes \<Rightarrow> 'k::linorder) \<Rightarrow> int \<Rightarrow> group_server \<Rightarrow>
    (parked \<times> group_body) list \<times> group_server" where
  "complete_parked collate now srv =
     (let ((answered, still), db) = complete_pass collate now (gs_changed srv) (gs_parked srv) (gs_db srv)
      in (answered, srv\<lparr>gs_db := db, gs_parked := still, gs_changed := []\<rparr>))"

fun parked_member :: "parked \<Rightarrow> bytes \<times> bytes" where
  "parked_member p = (case pk_waiting p of WaitJoin gid mid \<Rightarrow> (gid, mid) | WaitSync gid mid \<Rightarrow> (gid, mid))"

definition expire_group_members :: "int \<Rightarrow> group_server \<Rightarrow> group_server" where
  "expire_group_members now srv =
     (let db = touch_parked now (map parked_member (gs_parked srv)) (gs_db srv);
          (swept, db) = sweep_members now db;
          due = groups_past_deadline now db
      in srv\<lparr>gs_db := db, gs_changed := due @ swept @ gs_changed srv\<rparr>)"

subsection \<open>The coordinator as a transition system\<close>

text \<open>One step is one request served, one completion pass or one tick. Each rule leaves the time, the
  request, the principal and the random part of a member id open.\<close>

inductive group_step :: "(bytes \<Rightarrow> 'k::linorder) \<Rightarrow> group_server \<Rightarrow> group_server \<Rightarrow> bool"
  for collate :: "bytes \<Rightarrow> 'k::linorder" where
  Join: "serve_join_group uuid now delay req version client peer az conn sq s = (d, s') \<Longrightarrow> group_step collate s s'"
| Sync: "serve_sync_group collate now sreq az conn sq s = (d, s') \<Longrightarrow> group_step collate s s'"
| Heartbeat: "heartbeat collate now hreq az (gs_db s) = (e, db) \<Longrightarrow> group_step collate s (s\<lparr>gs_db := db\<rparr>)"
| Leave: "leave_group now lreq version az (gs_db s) = (r, db) \<Longrightarrow>
    group_step collate s (s\<lparr>gs_db := db, gs_changed := lq_group_id lreq # gs_changed s\<rparr>)"
| DeleteGroups: "delete_groups gids az (gs_db s) = Inr (r, db) \<Longrightarrow> group_step collate s (s\<lparr>gs_db := db\<rparr>)"
| DeleteOffset: "delete_offset gid topic part (gs_db s) = (b, db) \<Longrightarrow> group_step collate s (s\<lparr>gs_db := db\<rparr>)"
| Pass: "complete_parked collate now s = (answered, s') \<Longrightarrow> group_step collate s s'"
| Tick: "group_step collate s (expire_group_members now s)"

inductive_cases group_stepE: "group_step collate s s'"

definition empty_server :: group_server where
  "empty_server = \<lparr>gs_db = \<lparr>gd_groups = [], gd_members = [], gd_offsets = []\<rparr>, gs_parked = [], gs_changed = []\<rparr>"

end
