(* ===== verification/Step_System.thy ===== *)
theory Step_System
  imports Main
begin

text \<open>
  The contract between a component and the proofs about its runs: a step relation, and a predicate
  every step keeps. What holds of the start then holds of everything reached from it.
\<close>

locale step_system =
  fixes step :: "'s \<Rightarrow> 's \<Rightarrow> bool" and inv :: "'s \<Rightarrow> bool"
  assumes step_inv: "step s s' \<Longrightarrow> inv s \<Longrightarrow> inv s'"
begin

lemma reachable_inv: "step\<^sup>*\<^sup>* s s' \<Longrightarrow> inv s \<Longrightarrow> inv s'"
  by (induction rule: rtranclp_induct) (auto intro: step_inv)

lemma reachable_step:
  assumes "step\<^sup>*\<^sup>* s0 s" and "inv s0" and "step s s'" and "\<And>a b. step a b \<Longrightarrow> inv a \<Longrightarrow> R a b"
  shows "R s s'"
  using assms reachable_inv by blast

end

end
