(* ===== verification/Group_Invariant.thy ===== *)
theory Group_Invariant
  imports GroupHandlers Step_System
begin

text \<open>
  The invariant of the group tables and its preservation by every statement and every request of
  \<open>GroupCoordinator\<close> and \<open>GroupHandlers\<close>.

  Each statement touches one group, so the proofs go through two observations of a database:
  \<open>load_group gid\<close> and \<open>members_of gid\<close>. The first subsection says how each statement changes them,
  the second states the invariant group by group, the rest preserves it.
\<close>

named_theorems group_views \<open>how a statement changes the row and the members of a group\<close>

subsection \<open>Observations\<close>

lemma find_map_same:
  "(\<And>x. P (f x) = P x) \<Longrightarrow> List.find P (map f xs) = map_option f (List.find P xs)"
  by (induction xs) auto

lemma find_update:
  assumes "\<And>x. k (f x) = k x"
  shows "List.find (\<lambda>x. k x = j) (map (\<lambda>x. if k x = i then f x else x) xs)
    = (if j = i then map_option f (List.find (\<lambda>x. k x = i) xs) else List.find (\<lambda>x. k x = j) xs)"
  by (induction xs) (auto simp: assms)

lemma find_append:
  "List.find P (xs @ ys) = (case List.find P xs of None \<Rightarrow> List.find P ys | Some x \<Rightarrow> Some x)"
  by (induction xs) auto

lemma load_update_group [group_views]:
  "(\<And>g. gr_group_id (f g) = gr_group_id g) \<Longrightarrow>
   load_group gid' (update_group gid f db) = (if gid' = gid then map_option f (load_group gid db) else load_group gid' db)"
  by (simp add: load_group_def update_group_def find_update)

lemma members_update_group [group_views]: "members_of gid' (update_group gid f db) = members_of gid' db"
  by (simp add: members_of_def update_group_def)

lemma load_update_members [group_views]: "load_group gid' (update_members gid f db) = load_group gid' db"
  by (simp add: load_group_def update_members_def)

lemma filter_update:
  assumes "\<And>x. k (f x) = k x"
  shows "filter (\<lambda>x. k x = j) (map (\<lambda>x. if k x = i then f x else x) xs)
    = (if j = i then map f (filter (\<lambda>x. k x = i) xs) else filter (\<lambda>x. k x = j) xs)"
  by (induction xs) (auto simp: assms)

lemma members_update_members [group_views]:
  "(\<And>m. gm_group_id (f m) = gm_group_id m) \<Longrightarrow>
   members_of gid' (update_members gid f db) = (if gid' = gid then map f (members_of gid db) else members_of gid' db)"
  by (simp add: members_of_def update_members_def filter_update)

lemma load_delete_members [group_views]: "load_group gid' (delete_members P db) = load_group gid' db"
  by (simp add: load_group_def delete_members_def)

lemma members_delete_members [group_views]:
  "members_of gid' (delete_members P db) = filter (\<lambda>m. \<not> P m) (members_of gid' db)"
  by (simp add: members_of_def delete_members_def conj_commute)

lemma members_ensure_group [group_views]: "members_of gid' (ensure_group gid db) = members_of gid' db"
  by (simp add: ensure_group_def members_of_def)

definition fresh_group :: "bytes \<Rightarrow> group_row" where
  "fresh_group gid = \<lparr>gr_group_id = gid, gr_generation = 0, gr_state = GEmpty, gr_protocol_type = None,
     gr_protocol_name = None, gr_leader_member = None, gr_rebalance_deadline = None, gr_join_window_until = None\<rparr>"

lemma load_ensure_group [group_views]:
  "load_group gid' (ensure_group gid db) =
     (if gid' = gid \<and> load_group gid db = None then Some (fresh_group gid) else load_group gid' db)"
  by (auto simp: ensure_group_def load_group_def fresh_group_def find_append split: option.splits)

lemma load_upsert_member [group_views]: "load_group gid' (upsert_member row db) = load_group gid' db"
  by (simp add: load_group_def upsert_member_def Let_def)

lemma load_group_id: "load_group gid db = Some g \<Longrightarrow> gr_group_id g = gid"
  by (auto simp: load_group_def find_Some_iff)

lemma members_of_id: "m \<in> set (members_of gid db) \<Longrightarrow> gm_group_id m = gid"
  by (simp add: members_of_def)

lemma set_members [simp]: "set (members collate gid db) = set (members_of gid db)"
  by (simp add: members_def)

lemma members_Nil [simp]: "members collate gid db = [] \<longleftrightarrow> members_of gid db = []"
  by (metis set_empty set_members)

lemma member_Some: "member collate gid mid db = Some m \<Longrightarrow> m \<in> set (members_of gid db) \<and> gm_member_id m = mid"
  unfolding member_def find_Some_iff by (metis nth_mem set_members)

lemma member_None: "member collate gid mid db = None \<longleftrightarrow> (\<forall>m \<in> set (members_of gid db). gm_member_id m \<noteq> mid)"
  by (auto simp: member_def find_None_iff)

text \<open>What the upsert leaves in the joining group and elsewhere.\<close>

definition upserted :: "member_row \<Rightarrow> member_row list \<Rightarrow> member_row list" where
  "upserted row ms =
     (if \<exists>m \<in> set ms. gm_member_id m = gm_member_id row
      then map (\<lambda>m. if gm_member_id m = gm_member_id row then row\<lparr>gm_assignment := gm_assignment m\<rparr> else m) ms
      else ms @ [row])"

lemma filter_upsert:
  "filter (\<lambda>m. gm_group_id m = gm_group_id row)
     (map (\<lambda>m. if gm_group_id m = gm_group_id row \<and> gm_member_id m = gm_member_id row
             then row\<lparr>gm_assignment := gm_assignment m\<rparr> else m) ms)
   = map (\<lambda>m. if gm_member_id m = gm_member_id row then row\<lparr>gm_assignment := gm_assignment m\<rparr> else m)
       (filter (\<lambda>m. gm_group_id m = gm_group_id row) ms)"
  by (induction ms) auto

lemma filter_upsert_other:
  "gid \<noteq> gm_group_id row \<Longrightarrow> filter (\<lambda>m. gm_group_id m = gid)
     (map (\<lambda>m. if gm_group_id m = gm_group_id row \<and> gm_member_id m = gm_member_id row
             then row\<lparr>gm_assignment := gm_assignment m\<rparr> else m) ms)
   = filter (\<lambda>m. gm_group_id m = gid) ms"
  by (induction ms) auto

lemma members_upsert_member [group_views]:
  "members_of gid' (upsert_member row db) =
     (if gid' = gm_group_id row then upserted row (members_of gid' db) else members_of gid' db)"
proof -
  have ex: "(\<exists>m \<in> set (gd_members db). gm_group_id m = gm_group_id row \<and> gm_member_id m = gm_member_id row) \<longleftrightarrow>
      (\<exists>m \<in> set (members_of (gm_group_id row) db). gm_member_id m = gm_member_id row)"
    by (auto simp: members_of_def)
  show ?thesis
    unfolding upsert_member_def Let_def ex
    by (cases "gid' = gm_group_id row") (auto simp: members_of_def upserted_def filter_upsert filter_upsert_other)
qed

lemma set_upserted:
  "set (upserted row ms) \<subseteq> {m \<in> set ms. gm_member_id m \<noteq> gm_member_id row}
     \<union> {row\<lparr>gm_assignment := gm_assignment m\<rparr> | m. m \<in> set ms} \<union> {row}"
  by (auto simp: upserted_def)

lemma upserted_not_Nil [simp]: "upserted row ms \<noteq> []"
  by (auto simp: upserted_def)

subsection \<open>The invariant\<close>

text \<open>What holds of every member whatever the state: it joined for a generation at most one ahead of
  the group's, and its timeouts are within bounds.\<close>

definition member_ok :: "int \<Rightarrow> member_row \<Rightarrow> bool" where
  "member_ok generation m \<longleftrightarrow> gm_joined_generation m \<le> generation + 1
     \<and> MIN_SESSION_TIMEOUT_MS \<le> gm_session_timeout_ms m \<and> gm_session_timeout_ms m \<le> MAX_SESSION_TIMEOUT_MS
     \<and> 0 < gm_rebalance_timeout_ms m \<and> gm_rebalance_timeout_ms m \<le> MAX_REBALANCE_TIMEOUT_MS"

text \<open>A generation in force: a leader among the members, a protocol they all support, and every
  member joined for exactly this generation.\<close>

definition generation_agreed :: "group_row \<Rightarrow> member_row list \<Rightarrow> bool" where
  "generation_agreed g ms \<longleftrightarrow>
     (\<exists>m \<in> set ms. gr_leader_member g = Some (gm_member_id m))
     \<and> (\<exists>p. gr_protocol_name g = Some p \<and> (\<forall>m \<in> set ms. p \<in> set (gm_protocols m)))
     \<and> (\<forall>m \<in> set ms. gm_joined_generation m = gr_generation g)"

fun state_ok :: "group_state \<Rightarrow> group_row \<Rightarrow> member_row list \<Rightarrow> bool" where
  "state_ok GEmpty g ms \<longleftrightarrow> ms = [] \<and> gr_join_window_until g = None"
| "state_ok PreparingRebalance g ms \<longleftrightarrow> ms \<noteq> [] \<and> (\<forall>m \<in> set ms. gm_assignment m = None)
     \<and> (\<exists>d. gr_rebalance_deadline g = Some d \<and> (\<forall>t. gr_join_window_until g = Some t \<longrightarrow> t \<le> d))"
| "state_ok CompletingRebalance g ms \<longleftrightarrow> generation_agreed g ms \<and> (\<forall>m \<in> set ms. gm_assignment m = None)
     \<and> gr_join_window_until g = None"
| "state_ok GStable g ms \<longleftrightarrow> generation_agreed g ms \<and> (\<forall>m \<in> set ms. gm_assignment m \<noteq> None)
     \<and> gr_join_window_until g = None"

definition members_ok :: "group_row \<Rightarrow> member_row list \<Rightarrow> bool" where
  "members_ok g ms \<longleftrightarrow> (\<forall>m \<in> set ms. member_ok (gr_generation g) m)"

fun view_ok :: "group_row option \<Rightarrow> member_row list \<Rightarrow> bool" where
  "view_ok None ms \<longleftrightarrow> ms = []"
| "view_ok (Some g) ms \<longleftrightarrow> members_ok g ms \<and> state_ok (gr_state g) g ms"

definition keys_ok :: "group_db \<Rightarrow> bool" where
  "keys_ok db \<longleftrightarrow> distinct (map gr_group_id (gd_groups db))
     \<and> distinct (map (\<lambda>m. (gm_group_id m, gm_member_id m)) (gd_members db))"

definition group_inv :: "group_db \<Rightarrow> bool" where
  "group_inv db \<longleftrightarrow> keys_ok db \<and> (\<forall>gid. view_ok (load_group gid db) (members_of gid db))"

lemma group_invD:
  "group_inv db \<Longrightarrow> load_group gid db = Some g \<Longrightarrow> members_ok g (members_of gid db)"
  "group_inv db \<Longrightarrow> load_group gid db = Some g \<Longrightarrow> state_ok (gr_state g) g (members_of gid db)"
  "group_inv db \<Longrightarrow> load_group gid db = None \<Longrightarrow> members_of gid db = []"
  "group_inv db \<Longrightarrow> keys_ok db"
  unfolding group_inv_def by (metis view_ok.simps)+

lemma group_invI:
  "keys_ok db \<Longrightarrow> (\<And>gid. view_ok (load_group gid db) (members_of gid db)) \<Longrightarrow> group_inv db"
  by (simp add: group_inv_def)

text \<open>A statement that changes one group keeps the invariant when that group is left well-formed.\<close>

lemma group_inv_local:
  assumes "group_inv db" and "keys_ok db'"
    and "\<And>gid'. gid' \<noteq> gid \<Longrightarrow> load_group gid' db' = load_group gid' db \<and> members_of gid' db' = members_of gid' db"
    and "view_ok (load_group gid db') (members_of gid db')"
  shows "group_inv db'"
  using assms unfolding group_inv_def by metis

subsection \<open>Keys\<close>

lemma keys_update_group [simp]:
  assumes "\<And>g. gr_group_id (f g) = gr_group_id g"
  shows "keys_ok (update_group gid f db) \<longleftrightarrow> keys_ok db"
proof -
  have "map gr_group_id (map (\<lambda>g. if gr_group_id g = gid then f g else g) gs) = map gr_group_id gs" for gs
    by (simp add: assms)
  then show ?thesis by (simp add: keys_ok_def update_group_def del: map_map)
qed

lemma keys_update_members [simp]:
  assumes "\<And>m. gm_group_id (f m) = gm_group_id m" and "\<And>m. gm_member_id (f m) = gm_member_id m"
  shows "keys_ok (update_members gid f db) \<longleftrightarrow> keys_ok db"
proof -
  have "map (\<lambda>m. (gm_group_id m, gm_member_id m)) (map (\<lambda>m. if gm_group_id m = gid then f m else m) ms)
      = map (\<lambda>m. (gm_group_id m, gm_member_id m)) ms" for ms
    by (simp add: assms)
  then show ?thesis by (simp add: keys_ok_def update_members_def del: map_map)
qed

lemma keys_delete_members [intro]: "keys_ok db \<Longrightarrow> keys_ok (delete_members P db)"
  by (simp add: keys_ok_def delete_members_def distinct_map_filter)

lemma keys_ensure_group [intro]: "keys_ok db \<Longrightarrow> keys_ok (ensure_group gid db)"
  by (auto simp: keys_ok_def ensure_group_def load_group_def find_None_iff)

lemma keys_upsert_member [intro]:
  assumes "keys_ok db"
  shows "keys_ok (upsert_member row db)"
proof -
  have "map (\<lambda>m. (gm_group_id m, gm_member_id m))
      (map (\<lambda>m. if gm_group_id m = gm_group_id row \<and> gm_member_id m = gm_member_id row
                then row\<lparr>gm_assignment := gm_assignment m\<rparr> else m) ms)
      = map (\<lambda>m. (gm_group_id m, gm_member_id m)) ms" for ms
    by auto
  with assms show ?thesis
    by (auto simp: keys_ok_def upsert_member_def Let_def simp del: map_map)
qed

subsection \<open>Choosing the protocol\<close>

lemma set_reduce: "set (foldl (\<lambda>acc q. filter (\<lambda>x. x \<in> set q) acc) p ps) = {x \<in> set p. \<forall>q \<in> set ps. x \<in> set q}"
  by (induction ps arbitrary: p) auto

lemma reduce_filter:
  "foldl (\<lambda>acc q. filter (\<lambda>x. x \<in> set q) acc) p ps = filter (\<lambda>x. \<forall>q \<in> set ps. x \<in> set q) p"
  by (induction ps arbitrary: p) (auto intro: filter_cong)

text \<open>The first protocol of the first member's list that every member lists.\<close>

lemma common_protocol_find:
  "common_protocol ms = (case ms of [] \<Rightarrow> None
     | m # _ \<Rightarrow> List.find (\<lambda>p. \<forall>q \<in> set ms. p \<in> set (gm_protocols q)) (gm_protocols m))"
proof (cases ms)
  case (Cons m ms')
  have hd: "(case filter P xs of [] \<Rightarrow> None | c # _ \<Rightarrow> Some c) = List.find P xs" for P and xs :: "bytes list"
    by (induction xs) auto
  have "List.find (\<lambda>x. \<forall>q \<in> set ms'. x \<in> set (gm_protocols q)) (gm_protocols m)
      = List.find (\<lambda>p. p \<in> set (gm_protocols m) \<and> (\<forall>q \<in> set ms'. p \<in> set (gm_protocols q))) (gm_protocols m)"
    by (intro find_cong) auto
  with Cons show ?thesis by (simp add: common_protocol_def reduce_filter hd)
qed (simp add: common_protocol_def)

lemma common_protocol_Some:
  "common_protocol ms = Some p \<Longrightarrow> m \<in> set ms \<Longrightarrow> p \<in> set (gm_protocols m)"
  by (auto simp: common_protocol_find find_Some_iff split: list.splits)

subsection \<open>Statements keep the invariant\<close>

lemma clamp_bounds [simp]:
  "MIN_SESSION_TIMEOUT_MS \<le> clamp_session_timeout ms" "clamp_session_timeout ms \<le> MAX_SESSION_TIMEOUT_MS"
  "0 < clamp_rebalance_timeout ms" "clamp_rebalance_timeout ms \<le> MAX_REBALANCE_TIMEOUT_MS"
  by (auto simp: clamp_session_timeout_def clamp_rebalance_timeout_def MIN_SESSION_TIMEOUT_MS_def
      MAX_SESSION_TIMEOUT_MS_def MAX_REBALANCE_TIMEOUT_MS_def)

lemma ensure_group_inv: "group_inv db \<Longrightarrow> group_inv (ensure_group gid db)"
  using group_invD(3) [of db gid]
  by (auto simp: group_inv_def group_views fresh_group_def members_ok_def)

lemma members_ok_upserted:
  assumes "members_ok g ms" and "member_ok (gr_generation g) row"
  shows "members_ok g (upserted row ms)"
  using assms unfolding members_ok_def upserted_def by (auto simp: member_ok_def)

lemma no_assignments_upserted:
  assumes "\<forall>m \<in> set ms. gm_assignment m = None" and "gm_assignment row = None"
  shows "\<forall>m \<in> set (upserted row ms). gm_assignment m = None"
  using assms by (auto simp: upserted_def)

definition joining_row :: "int \<Rightarrow> bytes \<Rightarrow> bytes \<Rightarrow> bytes option \<Rightarrow> bytes \<Rightarrow> bytes \<Rightarrow> int \<Rightarrow> int \<Rightarrow> bytes list \<Rightarrow> bytes \<Rightarrow>
    int \<Rightarrow> member_row" where
  "joining_row now gid mid inst client host session rebalance protocols meta generation =
     \<lparr>gm_group_id = gid, gm_member_id = mid, gm_group_instance_id = inst, gm_client_id = client,
      gm_client_host = host, gm_session_timeout_ms = clamp_session_timeout session,
      gm_rebalance_timeout_ms = clamp_rebalance_timeout rebalance, gm_metadata = meta, gm_protocols = protocols,
      gm_assignment = None, gm_joined_generation = generation + 1, gm_last_heartbeat = now\<rparr>"

lemma joining_row_simps [simp]:
  "gm_group_id (joining_row now gid mid inst client host session rebalance protocols meta generation) = gid"
  "gm_member_id (joining_row now gid mid inst client host session rebalance protocols meta generation) = mid"
  "gm_assignment (joining_row now gid mid inst client host session rebalance protocols meta generation) = None"
  "member_ok generation (joining_row now gid mid inst client host session rebalance protocols meta generation)"
  by (simp_all add: joining_row_def member_ok_def)

text \<open>A join upserts its row, then opens the rebalance or extends its window.\<close>

definition opened :: "int \<Rightarrow> int \<Rightarrow> int \<Rightarrow> bytes \<Rightarrow> bool \<Rightarrow> group_row \<Rightarrow> group_row" where
  "opened now delay timeout ptype window g = g\<lparr>gr_state := PreparingRebalance,
     gr_protocol_type := (if ptype = [] then gr_protocol_type g else Some ptype),
     gr_rebalance_deadline := Some (now + timeout),
     gr_join_window_until := (if window then Some (now + min delay timeout) else None)\<rparr>"

definition extended :: "int \<Rightarrow> int \<Rightarrow> group_row \<Rightarrow> group_row" where
  "extended now delay g = (if gr_join_window_until g = None then g
     else g\<lparr>gr_join_window_until := Some (case gr_rebalance_deadline g of
        None \<Rightarrow> now + delay | Some d \<Rightarrow> min (now + delay) d)\<rparr>)"

lemma join_member_eq:
  assumes "load_group gid (ensure_group gid db) = Some g"
  shows "join_member now delay gid mid inst client host session rebalance ptype protocols meta db =
     (let db = upsert_member (joining_row now gid mid inst client host session rebalance protocols meta (gr_generation g))
                 (ensure_group gid db) in
      if gr_state g \<noteq> PreparingRebalance
      then clear_assignments gid (update_group gid
             (opened now delay (clamp_rebalance_timeout rebalance) ptype (delay > 0 \<and> gr_state g = GEmpty)) db)
      else if delay > 0 then update_group gid (extended now delay) db else db)"
  unfolding join_member_def assms opened_def extended_def joining_row_def Let_def by simp

lemma opened_extended_id [simp]:
  "gr_group_id (opened now delay timeout ptype window g) = gr_group_id g"
  "gr_group_id (extended now delay g) = gr_group_id g"
  by (simp_all add: opened_def extended_def)

lemma load_ensure_Some: "\<exists>g. load_group gid (ensure_group gid db) = Some g"
  by (cases "load_group gid db") (simp_all add: load_ensure_group)

lemma join_member_inv:
  assumes "group_inv db"
  shows "group_inv (join_member now delay gid mid inst client host session rebalance ptype protocols meta db)"
proof -
  let ?db1 = "ensure_group gid db"
  have inv1: "group_inv ?db1" using assms by (rule ensure_group_inv)
  obtain g where g: "load_group gid ?db1 = Some g" using load_ensure_Some by blast
  define row where "row = joining_row now gid mid inst client host session rebalance protocols meta (gr_generation g)"
  let ?ms = "members_of gid ?db1"
  have row: "gm_group_id row = gid" "gm_assignment row = None" "member_ok (gr_generation g) row"
    by (simp_all add: row_def)
  have ok: "members_ok g (upserted row ?ms)"
    using group_invD(1) [OF inv1 g] row(3) by (rule members_ok_upserted)
  have keys: "keys_ok (upsert_member row ?db1)" using group_invD(4) [OF inv1] by auto
  show ?thesis
  proof (cases "gr_state g = PreparingRebalance")
    case False
    have "members_ok (opened now delay t p w g) (map (\<lambda>m. m\<lparr>gm_assignment := None\<rparr>) (upserted row ?ms))" for t p w
      using ok by (auto simp: members_ok_def member_ok_def opened_def)
    with False show ?thesis
      unfolding join_member_eq [OF g] row_def [symmetric] Let_def using g row(1) keys
      by (intro group_inv_local [OF inv1, of _ gid])
         (auto simp: group_views clear_assignments_def opened_def)
  next
    case True
    with group_invD(2) [OF inv1 g] obtain d where d: "gr_rebalance_deadline g = Some d"
      and w: "\<forall>t. gr_join_window_until g = Some t \<longrightarrow> t \<le> d" by auto
    have "\<forall>m \<in> set (upserted row ?ms). gm_assignment m = None"
      using group_invD(2) [OF inv1 g] True row(2) by (intro no_assignments_upserted) auto
    with True show ?thesis
      unfolding join_member_eq [OF g] row_def [symmetric] Let_def using g row(1) keys ok d w
      by (intro group_inv_local [OF inv1, of _ gid]) (auto simp: group_views members_ok_def extended_def)
  qed
qed

text \<open>The tables once the members that did not rejoin are gone.\<close>

definition rejoined :: "bytes \<Rightarrow> group_row \<Rightarrow> group_db \<Rightarrow> group_db" where
  "rejoined gid g = delete_members (\<lambda>m. gm_group_id m = gid \<and> gm_joined_generation m \<le> gr_generation g)"

lemma rejoined_views:
  "load_group gid' (rejoined gid g db) = load_group gid' db"
  "members_of gid (rejoined gid g db) = filter (\<lambda>m. gr_generation g < gm_joined_generation m) (members_of gid db)"
  "gid' \<noteq> gid \<Longrightarrow> members_of gid' (rejoined gid g db) = members_of gid' db"
proof -
  show "load_group gid' (rejoined gid g db) = load_group gid' db"
    by (simp add: rejoined_def group_views)
  show "members_of gid (rejoined gid g db) = filter (\<lambda>m. gr_generation g < gm_joined_generation m) (members_of gid db)"
    unfolding rejoined_def members_delete_members by (rule filter_cong) (auto dest: members_of_id)
  show "members_of gid' (rejoined gid g db) = members_of gid' db" if "gid' \<noteq> gid"
    using that unfolding rejoined_def members_delete_members by (intro filter_True) (auto dest: members_of_id)
qed

lemma complete_join_eq:
  assumes "load_group gid db = Some g"
  shows "complete_join collate gid db =
     (let db = rejoined gid g db; remaining = members collate gid db in
      if remaining = []
      then (Completed, update_group gid (\<lambda>g. g\<lparr>gr_state := GEmpty, gr_leader_member := None,
              gr_protocol_name := None, gr_generation := gr_generation g + 1,
              gr_rebalance_deadline := None, gr_join_window_until := None\<rparr>) db)
      else case common_protocol remaining of
          None \<Rightarrow> (NoCommonProtocol, db)
        | Some p \<Rightarrow>
            (Completed, update_group gid (\<lambda>g. g\<lparr>gr_generation := gr_generation g + 1,
               gr_state := CompletingRebalance, gr_protocol_name := Some p,
               gr_leader_member := Some (gm_member_id (hd remaining)),
               gr_rebalance_deadline := None, gr_join_window_until := None\<rparr>) db))"
  unfolding complete_join_def assms rejoined_def by simp

text \<open>Everyone left when a rebalance completes joined for exactly the generation it opens.\<close>

lemma rejoined_members:
  assumes inv: "group_inv db" and g: "load_group gid db = Some g" and m: "m \<in> set (members_of gid (rejoined gid g db))"
  shows "gm_joined_generation m = gr_generation g + 1" and "member_ok (gr_generation g + 1) m"
    and "member_ok (gr_generation g) m" and "gr_state g = PreparingRebalance \<Longrightarrow> gm_assignment m = None"
proof -
  have mem: "m \<in> set (members_of gid db)" and gt: "gr_generation g < gm_joined_generation m"
    using m by (simp_all add: rejoined_views)
  show ok: "member_ok (gr_generation g) m" using group_invD(1) [OF inv g] mem by (simp add: members_ok_def)
  then show "gm_joined_generation m = gr_generation g + 1" and "member_ok (gr_generation g + 1) m"
    using gt by (auto simp: member_ok_def)
  show "gm_assignment m = None" if "gr_state g = PreparingRebalance"
    using group_invD(2) [OF inv g] mem that by simp
qed

lemma complete_join_inv:
  assumes inv: "group_inv db" and g: "load_group gid db = Some g" and prep: "gr_state g = PreparingRebalance"
  shows "group_inv (snd (complete_join collate gid db))"
proof -
  let ?db = "rejoined gid g db"
  let ?rest = "members collate gid ?db"
  note rest = rejoined_members [OF inv g]
  have keys: "keys_ok ?db" using group_invD(4) [OF inv] by (auto simp: rejoined_def)
  have deadline: "\<exists>d. gr_rebalance_deadline g = Some d \<and> (\<forall>t. gr_join_window_until g = Some t \<longrightarrow> t \<le> d)"
    using group_invD(2) [OF inv g] prep by simp
  have ok: "members_ok g' (members_of gid ?db)"
    if "gr_generation g' = gr_generation g \<or> gr_generation g' = gr_generation g + 1" for g'
    using that rest by (auto simp: members_ok_def)
  consider (empty) "?rest = []" | (none) "?rest \<noteq> []" "common_protocol ?rest = None"
    | (some) p where "?rest \<noteq> []" "common_protocol ?rest = Some p" by fastforce
  then show ?thesis
  proof cases
    case empty
    then show ?thesis
      using keys g by (intro group_inv_local [OF inv, of _ gid])
        (auto simp: complete_join_eq [OF g] Let_def group_views rejoined_views(1,3) members_ok_def)
  next
    case none
    then show ?thesis
      using keys g rest(4) [OF _ prep] prep ok deadline by (intro group_inv_local [OF inv, of _ gid])
        (auto simp: complete_join_eq [OF g] Let_def rejoined_views(1,3))
  next
    case some
    have "hd ?rest \<in> set (members_of gid ?db)"
      using some(1) by (metis hd_in_set set_members)
    then show ?thesis
      using some keys g rest(1) rest(4) [OF _ prep] ok common_protocol_Some [OF some(2)]
      by (intro group_inv_local [OF inv, of _ gid])
        (auto simp: complete_join_eq [OF g] Let_def group_views rejoined_views(1,3) generation_agreed_def)
  qed
qed

text \<open>What the leader's sync leaves in each member: its last assignment in the request, or else what
  it had, or else the empty assignment.\<close>

definition assigned :: "(bytes \<times> bytes) list \<Rightarrow> member_row \<Rightarrow> member_row" where
  "assigned as m = m\<lparr>gm_assignment := Some (case map_of (rev as) (gm_member_id m) of
     Some a \<Rightarrow> a | None \<Rightarrow> (case gm_assignment m of Some a \<Rightarrow> a | None \<Rightarrow> []))\<rparr>"

definition partly_assigned :: "(bytes \<times> bytes) list \<Rightarrow> member_row \<Rightarrow> member_row" where
  "partly_assigned as m = m\<lparr>gm_assignment := (case map_of (rev as) (gm_member_id m) of
     Some a \<Rightarrow> Some a | None \<Rightarrow> gm_assignment m)\<rparr>"

abbreviation assign_each :: "bytes \<Rightarrow> (bytes \<times> bytes) list \<Rightarrow> group_db \<Rightarrow> group_db" where
  "assign_each gid \<equiv> fold (\<lambda>(mid, a). update_members gid (\<lambda>m. if gm_member_id m = mid
      then m\<lparr>gm_assignment := Some a\<rparr> else m))"

lemma load_assign_each: "load_group gid' (assign_each gid as db) = load_group gid' db"
  by (induction as arbitrary: db) (simp_all add: split_beta group_views)

lemma keys_assign_each: "keys_ok (assign_each gid as db) \<longleftrightarrow> keys_ok db"
  by (induction as arbitrary: db) (simp_all add: split_beta)

lemma partly_assigned_Nil: "partly_assigned [] = id"
  by (rule ext) (simp add: partly_assigned_def)

lemma partly_assigned_Cons:
  "partly_assigned (x # as) = partly_assigned as \<circ> (\<lambda>m. if gm_member_id m = fst x then m\<lparr>gm_assignment := Some (snd x)\<rparr> else m)"
  by (rule ext) (auto simp: partly_assigned_def map_add_def split: option.splits)

lemma members_assign_each:
  "members_of gid' (assign_each gid as db) =
     (if gid' = gid then map (partly_assigned as) (members_of gid db) else members_of gid' db)"
  by (induction as arbitrary: db) (auto simp: split_beta group_views partly_assigned_Nil partly_assigned_Cons)

lemmas fold_assignments_views = load_assign_each keys_assign_each members_assign_each

lemma load_apply_assignments [group_views]:
  "load_group gid' (apply_assignments gid as db) =
     (if gid' = gid then map_option (\<lambda>g. g\<lparr>gr_state := GStable\<rparr>) (load_group gid db) else load_group gid' db)"
  by (simp add: apply_assignments_def Let_def group_views fold_assignments_views)

lemma members_apply_assignments [group_views]:
  "members_of gid' (apply_assignments gid as db) =
     (if gid' = gid then map (assigned as) (members_of gid db) else members_of gid' db)"
  by (auto simp: apply_assignments_def Let_def group_views fold_assignments_views partly_assigned_def
      assigned_def split: option.splits)

lemma assigned_simps [simp]:
  "gm_member_id (assigned as m) = gm_member_id m" "gm_group_id (assigned as m) = gm_group_id m"
  "gm_protocols (assigned as m) = gm_protocols m" "gm_joined_generation (assigned as m) = gm_joined_generation m"
  "\<exists>a. gm_assignment (assigned as m) = Some a" "member_ok n (assigned as m) = member_ok n m"
  by (simp_all add: assigned_def member_ok_def)

lemma apply_assignments_inv:
  assumes inv: "group_inv db" and g: "load_group gid db = Some g"
    and st: "gr_state g = CompletingRebalance \<or> gr_state g = GStable"
  shows "group_inv (apply_assignments gid as db)"
proof -
  have "keys_ok (apply_assignments gid as db)"
    using group_invD(4) [OF inv] by (simp add: apply_assignments_def Let_def fold_assignments_views)
  moreover have "generation_agreed g (members_of gid db)" "members_ok g (members_of gid db)"
      "gr_join_window_until g = None"
    using group_invD(1,2) [OF inv g] st by auto
  ultimately show ?thesis
    using g by (intro group_inv_local [OF inv, of _ gid])
      (auto simp: group_views members_ok_def generation_agreed_def)
qed

lemma touch_heartbeat_views [group_views]:
  "load_group gid' (touch_heartbeat now gid mid db) = load_group gid' db"
  "members_of gid' (touch_heartbeat now gid mid db) =
     (if gid' = gid then map (\<lambda>m. if gm_member_id m = mid then m\<lparr>gm_last_heartbeat := now\<rparr> else m) (members_of gid db)
      else members_of gid' db)"
  by (simp_all add: touch_heartbeat_def group_views)

lemma state_ok_map:
  assumes "\<And>m. gm_member_id (f m) = gm_member_id m" "\<And>m. gm_protocols (f m) = gm_protocols m"
    "\<And>m. gm_joined_generation (f m) = gm_joined_generation m" "\<And>m. gm_assignment (f m) = gm_assignment m"
  shows "state_ok st g (map f ms) = state_ok st g ms"
  by (cases st) (simp_all add: generation_agreed_def assms)

lemma touch_state_ok:
  "state_ok st g (map (\<lambda>m. if gm_member_id m = mid then m\<lparr>gm_last_heartbeat := now\<rparr> else m) ms) = state_ok st g ms"
  by (rule state_ok_map) simp_all

lemma touch_heartbeat_inv: "group_inv db \<Longrightarrow> group_inv (touch_heartbeat now gid mid db)"
proof (rule group_inv_local [of db _ gid])
  assume inv: "group_inv db"
  show "keys_ok (touch_heartbeat now gid mid db)"
    using group_invD(4) [OF inv] by (simp add: touch_heartbeat_def)
  show "view_ok (load_group gid (touch_heartbeat now gid mid db)) (members_of gid (touch_heartbeat now gid mid db))"
    using group_invD(1-3) [OF inv, of gid]
    by (cases "load_group gid db") (auto simp: group_views touch_state_ok members_ok_def member_ok_def)
qed (auto simp: group_views)

lemma touch_parked_inv: "group_inv db \<Longrightarrow> group_inv (touch_parked now entries db)"
  by (induction entries arbitrary: db) (auto simp: touch_parked_def touch_heartbeat_inv)

subsection \<open>Losing members\<close>

text \<open>Deleting members may break the state of the groups that lost one, until the rebalance is opened.\<close>

definition group_inv_but :: "bytes set \<Rightarrow> group_db \<Rightarrow> bool" where
  "group_inv_but G db \<longleftrightarrow> keys_ok db
     \<and> (\<forall>gid. load_group gid db = None \<longrightarrow> members_of gid db = [])
     \<and> (\<forall>gid g. load_group gid db = Some g \<longrightarrow> members_ok g (members_of gid db)
          \<and> (gid \<notin> G \<longrightarrow> state_ok (gr_state g) g (members_of gid db)))"

lemma group_inv_but_empty: "group_inv_but {} db \<longleftrightarrow> group_inv db"
proof
  show "group_inv_but {} db \<Longrightarrow> group_inv db"
    unfolding group_inv_but_def group_inv_def by (metis empty_iff option.exhaust view_ok.simps)
  show "group_inv db \<Longrightarrow> group_inv_but {} db"
    unfolding group_inv_but_def by (simp add: group_invD)
qed

lemma open_rebalance_views:
  "load_group gid' (open_rebalance now gid db) =
     (if gid' = gid then map_option (\<lambda>g. g\<lparr>
        gr_state := (if members_of gid db \<noteq> [] then PreparingRebalance else GEmpty),
        gr_rebalance_deadline := Some (now + max_rebalance_timeout (members_of gid db)),
        gr_join_window_until := None\<rparr>) (load_group gid db) else load_group gid' db)"
  "members_of gid' (open_rebalance now gid db) =
     (if gid' = gid then map (\<lambda>m. m\<lparr>gm_assignment := None\<rparr>) (members_of gid db) else members_of gid' db)"
  by (simp_all add: open_rebalance_def Let_def clear_assignments_def group_views)

lemma open_rebalance_inv_but:
  "group_inv_but G db \<Longrightarrow> group_inv_but (G - {gid}) (open_rebalance now gid db)"
proof -
  assume inv: "group_inv_but G db"
  have "keys_ok (open_rebalance now gid db) \<longleftrightarrow> keys_ok db"
    by (simp add: open_rebalance_def Let_def clear_assignments_def)
  with inv show ?thesis
    by (auto simp: group_inv_but_def open_rebalance_views members_ok_def member_ok_def)
qed

lemma fold_open_rebalance_inv:
  "group_inv_but G db \<Longrightarrow> G \<subseteq> set gids \<Longrightarrow> group_inv (fold (open_rebalance now) gids db)"
proof (induction gids arbitrary: G db)
  case (Cons gid gids)
  have "group_inv_but (G - {gid}) (open_rebalance now gid db)" by (rule open_rebalance_inv_but [OF Cons.prems(1)])
  then show ?case using Cons.IH [of "G - {gid}"] Cons.prems(2) by auto
qed (simp add: group_inv_but_empty)

lemma delete_members_inv_but:
  assumes inv: "group_inv db"
  shows "group_inv_but (gm_group_id ` {m \<in> set (gd_members db). P m}) (delete_members P db)"
proof -
  have "members_of gid (delete_members P db) = members_of gid db" if "gid \<notin> gm_group_id ` {m \<in> set (gd_members db). P m}" for gid
    using that unfolding members_delete_members by (intro filter_True) (auto simp: members_of_def)
  then show ?thesis
    using group_invD(1-3) [OF inv] group_invD(4) [OF inv]
    by (auto simp: group_inv_but_def members_delete_members load_delete_members members_ok_def)
qed

lemma leave_member_inv: "group_inv db \<Longrightarrow> group_inv (snd (leave_member now gid mid db))"
proof -
  assume inv: "group_inv db"
  let ?gone = "\<lambda>m. gm_group_id m = gid \<and> gm_member_id m = mid"
  have "group_inv (fold (open_rebalance now) [gid] (delete_members ?gone db))"
    by (rule fold_open_rebalance_inv [OF delete_members_inv_but [OF inv]]) auto
  with inv show ?thesis by (simp add: leave_member_def Let_def)
qed

lemma sweep_members_inv: "group_inv db \<Longrightarrow> group_inv (snd (sweep_members now db))"
  unfolding sweep_members_def Let_def snd_conv
  by (rule fold_open_rebalance_inv [OF delete_members_inv_but]) auto

lemma find_removed:
  "List.find (\<lambda>g. gr_group_id g = gid') (filter (\<lambda>g. gr_group_id g \<noteq> gid) gs) =
     (if gid' = gid then None else List.find (\<lambda>g. gr_group_id g = gid') gs)"
  by (induction gs) auto

lemma load_delete_group:
  "load_group gid' (snd (delete_group gid db)) = load_group gid' db \<or> load_group gid' (snd (delete_group gid db)) = None"
  by (simp add: delete_group_def load_group_def find_removed)

lemma delete_group_inv:
  assumes inv: "group_inv db"
  shows "group_inv (snd (delete_group gid db))"
proof -
  have "keys_ok (db\<lparr>gd_offsets := offs, gd_groups := filter (\<lambda>g. gr_group_id g \<noteq> gid) (gd_groups db)\<rparr>)" for offs
    using group_invD(4) [OF inv] by (simp add: keys_ok_def distinct_map_filter)
  with inv show ?thesis
    by (auto simp: delete_group_def group_inv_def load_group_def members_of_def find_removed)
qed

lemma delete_offset_inv: "group_inv db \<Longrightarrow> group_inv (snd (delete_offset gid topic part db))"
  by (simp add: delete_offset_def group_inv_def keys_ok_def load_group_def members_of_def)

subsection \<open>Requests keep the invariant\<close>

lemma register_and_park_inv: "group_inv db \<Longrightarrow> group_inv (snd (register_and_park now delay req mid client host db))"
  by (simp add: register_and_park_def Let_def join_member_inv)

lemma join_group_inv: "group_inv db \<Longrightarrow> group_inv (snd (join_group uuid now delay req version client host az db))"
  by (simp add: join_group_def Let_def register_and_park_inv split: sum.splits)

lemma sync_group_cases:
  obtains (same) "snd (sync_group collate req az db) = db"
  | (leader) g where "load_group (sq_group_id req) db = Some g" "gr_state g \<noteq> PreparingRebalance"
      "member collate (sq_group_id req) (sq_member_id req) db \<noteq> None"
      "snd (sync_group collate req az db) = apply_assignments (sq_group_id req) (sq_assignments req) db"
proof (cases "load_group (sq_group_id req) db")
  case None
  then show ?thesis by (intro same) (simp add: sync_group_def split: sum.splits)
next
  case (Some g)
  have "snd (sync_group collate req az db) = db \<or> (gr_state g \<noteq> PreparingRebalance
      \<and> member collate (sq_group_id req) (sq_member_id req) db \<noteq> None
      \<and> snd (sync_group collate req az db) = apply_assignments (sq_group_id req) (sq_assignments req) db)"
    using Some by (auto simp: sync_group_def Let_def split: sum.splits option.splits)
  then show ?thesis using leader [OF Some] same by blast
qed

lemma sync_group_inv:
  assumes inv: "group_inv db"
  shows "group_inv (snd (sync_group collate req az db))"
proof (cases rule: sync_group_cases [of collate req az db])
  case same
  with inv show ?thesis by simp
next
  case (leader g)
  have "gr_state g \<noteq> GEmpty"
    using group_invD(2) [OF inv leader(1)] leader(3) by (auto simp: member_None)
  with leader(2) have "gr_state g = CompletingRebalance \<or> gr_state g = GStable" by (cases "gr_state g") auto
  then show ?thesis using apply_assignments_inv [OF inv leader(1)] leader(4) by simp
qed

lemma heartbeat_inv: "group_inv db \<Longrightarrow> group_inv (snd (heartbeat collate now req az db))"
  by (simp add: heartbeat_def heartbeat_code_def touch_heartbeat_inv split: sum.splits option.splits)

lemma leave_all_inv: "group_inv db \<Longrightarrow> group_inv (snd (leave_all now gid leaving db))"
proof (induction leaving arbitrary: db)
  case (Cons x leaving)
  have "group_inv (snd (leave_member now gid (fst x) db))" by (rule leave_member_inv [OF Cons.prems])
  from Cons.IH [OF this] show ?case by (cases x) (simp add: Let_def split_beta)
qed simp

lemma leave_group_inv: "group_inv db \<Longrightarrow> group_inv (snd (leave_group now req version az db))"
  by (simp add: leave_group_def Let_def leave_all_inv split_beta del: leave_all.simps split: sum.splits)

lemma delete_each_inv: "group_inv db \<Longrightarrow> group_inv (snd (delete_each az gids db))"
proof (induction gids arbitrary: db)
  case (Cons gid gids)
  have "group_inv (snd (delete_group gid db))" by (rule delete_group_inv [OF Cons.prems])
  from Cons.IH [OF this] Cons.IH [OF Cons.prems] show ?case
    by (simp add: Let_def split_beta split: sum.splits)
qed simp

lemma resolve_join_inv: "group_inv db \<Longrightarrow> group_inv (snd (resolve_join collate now expired gid mid db))"
  by (auto simp: resolve_join_def Let_def split_beta complete_join_inv split: option.splits group_state.splits)

lemma resolve_parked_inv: "group_inv db \<Longrightarrow> group_inv (snd (resolve_parked collate now changed p db))"
  by (simp add: resolve_parked_def Let_def split_beta resolve_join_inv split: waiting.splits)

lemma complete_pass_snd:
  "snd (complete_pass collate now changed ps db) = fold (\<lambda>p db. snd (resolve_parked collate now changed p db)) ps db"
  by (induction ps arbitrary: db) (simp_all add: Let_def split_beta split: option.splits)

lemma complete_pass_inv: "group_inv db \<Longrightarrow> group_inv (snd (complete_pass collate now changed ps db))"
  unfolding complete_pass_snd by (induction ps arbitrary: db) (auto intro: resolve_parked_inv)

lemma group_step_inv:
  assumes "group_step collate s s'" and "group_inv (gs_db s)"
  shows "group_inv (gs_db s')"
  using assms(1)
proof cases
  case (Join uuid now delay req version client peer az conn sq d)
  with join_group_inv [OF assms(2), of uuid now delay req version client peer az] show ?thesis
    by (auto simp: serve_join_group_def Let_def split_beta split: join_outcome.splits if_splits)
next
  case (Sync now sreq az conn sq d)
  with sync_group_inv [OF assms(2), of collate sreq az] show ?thesis
    by (auto simp: serve_sync_group_def Let_def split_beta split: sync_outcome.splits if_splits)
next
  case (Heartbeat now hreq az e db)
  with heartbeat_inv [OF assms(2), of collate now hreq az] show ?thesis by simp
next
  case (Leave now lreq version az r db)
  with leave_group_inv [OF assms(2), of now lreq version az] show ?thesis by simp
next
  case (DeleteGroups gids az r db)
  with delete_each_inv [OF assms(2), of az gids] show ?thesis
    by (auto simp: delete_groups_def rbind_eq_Inr)
next
  case (DeleteOffset gid topic part b db)
  with delete_offset_inv [OF assms(2), of gid topic part] show ?thesis by simp
next
  case (Pass now answered)
  with complete_pass_inv [OF assms(2), of collate now "gs_changed s" "gs_parked s"] show ?thesis
    by (auto simp: complete_parked_def split_beta)
next
  case (Tick now)
  with assms(2) show ?thesis
    by (simp add: expire_group_members_def Let_def split_beta sweep_members_inv touch_parked_inv)
qed

lemma empty_server_inv: "group_inv (gs_db empty_server)"
  by (simp add: empty_server_def group_inv_def keys_ok_def load_group_def members_of_def)

interpretation group_run: step_system "group_step collate" "\<lambda>s. group_inv (gs_db s)" for collate
  by unfold_locales (rule group_step_inv)

end
