(* ===== verification/Group_Properties.thy ===== *)
theory Group_Properties
  imports Group_Invariant "HOL-Library.List_Lexorder"
begin

text \<open>
  What the classic group coordinator promises: its tables stay well-formed, generations only move
  forward and fix their leader and protocol, a completed rebalance keeps exactly the members that
  rejoined, the leader's assignments reach every member, a heartbeat is confirmed only to an assigned
  member, and a join is answered once its rebalance is overdue.
\<close>

subsection \<open>The invariant of reachable states\<close>

definition sample_group :: bytes where
  "sample_group = ascii ''g''"

definition sample_join :: join_request where
  "sample_join = \<lparr>jq_group_id = sample_group, jq_session_timeout_ms = 10000, jq_rebalance_timeout_ms = 60000,
     jq_member_id = ascii ''m1'', jq_group_instance_id = None, jq_protocol_type = ascii ''consumer'',
     jq_protocols = [(ascii ''range'', [1, 2])]\<rparr>"

definition open_authz :: authz where
  "open_authz = \<lparr>az_acls = acl_load False [] [], az_principal = principal_anonymous (ascii ''10.0.0.1'')\<rparr>"

definition sample_joined :: group_server where
  "sample_joined = snd (serve_join_group [] 1000 0 sample_join 7 (ascii ''c'') (ascii ''10.0.0.1'') open_authz 1 1 empty_server)"

lemma sample_joined_step: "group_step collate empty_server sample_joined"
  unfolding sample_joined_def by (rule Join [OF prod.collapse [symmetric]])

text \<open>C8: In every state the coordinator can reach the tables are well-formed: group and member keys
  are unique, every member's group exists, a group is empty exactly when it has no members, a
  rebalancing group has a deadline and no assignments, a group past its rebalance has a leader among
  its members and a protocol they all support, all of one generation, and a stable group has an
  assignment for every member.\<close>

theorem reachable_group_inv:
  "(group_step collate)\<^sup>*\<^sup>* empty_server s \<Longrightarrow> group_inv (gs_db s)"
  by (rule group_run.reachable_inv [OF _ empty_server_inv])

theorem reachable_group_inv_witness: "group_inv (gs_db sample_joined)"
proof -
  have "(group_step (id :: bytes \<Rightarrow> bytes))\<^sup>*\<^sup>* empty_server sample_joined"
    using sample_joined_step by (rule r_into_rtranclp)
  then show ?thesis by (rule reachable_group_inv)
qed

subsection \<open>Generations\<close>

definition row_advances :: "group_row \<Rightarrow> group_row \<Rightarrow> bool" where
  "row_advances g g' \<longleftrightarrow> gr_generation g \<le> gr_generation g'
     \<and> (gr_generation g' = gr_generation g \<longrightarrow>
          gr_leader_member g' = gr_leader_member g \<and> gr_protocol_name g' = gr_protocol_name g)"

definition advances :: "group_db \<Rightarrow> group_db \<Rightarrow> bool" where
  "advances db db' \<longleftrightarrow> (\<forall>gid g. load_group gid db = Some g \<longrightarrow>
     (\<exists>g'. load_group gid db' = Some g' \<and> row_advances g g'))"

lemma advances_refl [simp]: "advances db db"
  by (simp add: advances_def row_advances_def)

lemma row_advances_trans: "row_advances g g' \<Longrightarrow> row_advances g' g'' \<Longrightarrow> row_advances g g''"
  by (auto simp: row_advances_def)

lemma advances_trans: "advances a b \<Longrightarrow> advances b c \<Longrightarrow> advances a c"
  unfolding advances_def by (meson row_advances_trans)

lemma advances_fold: "(\<And>x db. advances db (f x db)) \<Longrightarrow> advances db (fold f xs db)"
proof (induction xs arbitrary: db)
  case (Cons x xs)
  then show ?case using advances_trans [of db "f x db"] by simp
qed simp

lemma advances_same: "(\<And>gid. load_group gid db' = load_group gid db) \<Longrightarrow> advances db db'"
  by (simp add: advances_def row_advances_def)

lemma advances_update_group:
  assumes "\<And>g. gr_group_id (f g) = gr_group_id g" and "\<And>g. row_advances g (f g)"
  shows "advances db (update_group gid f db)"
  using assms by (simp add: advances_def group_views) (simp add: row_advances_def)

lemma advances_join_member:
  "advances db (join_member now delay gid mid inst client host session rebalance ptype protocols meta db)"
proof -
  obtain g where g: "load_group gid (ensure_group gid db) = Some g" using load_ensure_Some by blast
  have ensure: "advances db (ensure_group gid db)"
    by (auto simp: advances_def group_views row_advances_def)
  have upsert: "advances db (upsert_member row db)" for row db
    by (simp add: advances_same group_views)
  have clear: "advances db (clear_assignments gid db)" for db
    by (simp add: advances_same clear_assignments_def group_views)
  have up: "advances db (update_group gid (opened now delay t p w) db)" "advances db (update_group gid (extended now delay) db)"
    for t p w db
    by (rule advances_update_group; simp add: row_advances_def opened_def extended_def)+
  define row where "row = joining_row now gid mid inst client host session rebalance protocols meta (gr_generation g)"
  let ?db = "upsert_member row (ensure_group gid db)"
  have joined: "advances db ?db" by (rule advances_trans [OF ensure upsert])
  have "advances db (clear_assignments gid (update_group gid (opened now delay t p w) ?db))" for t p w
    by (rule advances_trans [OF joined advances_trans [OF up(1) clear]])
  moreover have "advances db (update_group gid (extended now delay) ?db)"
    by (rule advances_trans [OF joined up(2)])
  ultimately show ?thesis
    using joined unfolding join_member_eq [OF g] row_def [symmetric] Let_def by simp
qed

lemma advances_complete_join: "advances db (snd (complete_join collate gid db))"
proof (cases "load_group gid db")
  case None
  then show ?thesis
    by (auto simp: complete_join_def Let_def advances_update_group row_advances_def split: option.splits)
next
  case (Some g)
  have "advances db (rejoined gid g db)" by (simp add: advances_same rejoined_views)
  then show ?thesis
    unfolding complete_join_eq [OF Some] Let_def
    by (auto intro: advances_trans intro!: advances_update_group simp: row_advances_def split: option.splits)
qed

lemma advances_open_rebalance: "advances db (open_rebalance now gid db)"
  by (simp add: advances_def open_rebalance_views row_advances_def)

lemma advances_sync_group: "advances db (snd (sync_group collate req az db))"
  by (cases rule: sync_group_cases [of collate req az db])
     (auto simp: advances_def group_views row_advances_def)

lemma advances_touch: "advances db (touch_heartbeat now gid mid db)"
  by (simp add: advances_same group_views)

lemma advances_leave: "advances db (snd (leave_all now gid leaving db))"
proof (induction leaving arbitrary: db)
  case (Cons x leaving)
  have "advances db (delete_members P db)" for P by (simp add: advances_same group_views)
  then have "advances db (snd (leave_member now gid (fst x) db))"
    by (auto simp: leave_member_def Let_def intro: advances_trans advances_open_rebalance)
  from advances_trans [OF this Cons.IH] show ?case by (cases x) (simp add: Let_def split_beta)
qed simp

lemma advances_resolve_parked: "advances db (snd (resolve_parked collate now changed p db))"
  by (auto simp: resolve_parked_def resolve_join_def Let_def split_beta advances_complete_join
      split: waiting.splits option.splits group_state.splits)

lemma advances_expire: "advances (gs_db s) (gs_db (expire_group_members now s))"
proof -
  have "advances db (touch_parked now es db)" for es db
    unfolding touch_parked_def by (rule advances_fold) (auto simp: advances_touch)
  moreover have "advances db (snd (sweep_members now db))" for db
  proof -
    have "advances db (delete_members P db)" for P by (simp add: advances_same group_views)
    then show ?thesis
      unfolding sweep_members_def Let_def snd_conv
      by (rule advances_trans) (rule advances_fold, rule advances_open_rebalance)
  qed
  ultimately show ?thesis
    by (auto simp: expire_group_members_def Let_def split_beta intro: advances_trans)
qed

text \<open>Deleting groups removes rows and changes none.\<close>

lemma delete_each_load:
  "load_group gid (snd (delete_each az gids db)) = None \<or> load_group gid (snd (delete_each az gids db)) = load_group gid db"
proof (induction gids arbitrary: db)
  case (Cons x gids)
  show ?case
    using Cons.IH [of "snd (delete_group x db)"] Cons.IH [of db] load_delete_group [of gid x db]
    by (simp add: Let_def split_beta split: sum.splits) metis
qed simp

lemma step_advances:
  assumes "group_step collate s s'"
  shows "advances (gs_db s) (gs_db s') \<or> (\<forall>gid. load_group gid (gs_db s') = None \<or> load_group gid (gs_db s') = load_group gid (gs_db s))"
  using assms
proof cases
  case (Join uuid now delay req version client peer az conn sq d)
  have "advances db (snd (join_group uuid now delay req version client peer az db))" for db
    by (simp add: join_group_def register_and_park_def Let_def advances_join_member split: sum.splits)
  with Join show ?thesis
    by (auto simp: serve_join_group_def Let_def split_beta split: join_outcome.splits if_splits)
next
  case (Sync now sreq az conn sq d)
  with advances_sync_group [of "gs_db s" collate sreq az] show ?thesis
    by (auto simp: serve_sync_group_def Let_def split_beta split: sync_outcome.splits if_splits)
next
  case (Heartbeat now hreq az e db)
  have "advances db (snd (heartbeat collate now hreq az db))" for db
    by (simp add: heartbeat_def heartbeat_code_def advances_touch split: sum.splits option.splits)
  from this [of "gs_db s"] Heartbeat show ?thesis by simp
next
  case (Leave now lreq version az r db)
  have "advances db (snd (leave_group now lreq version az db))" for db
    by (simp add: leave_group_def Let_def advances_leave split_beta del: leave_all.simps split: sum.splits)
  from this [of "gs_db s"] Leave show ?thesis by simp
next
  case (DeleteGroups gids az r db)
  with delete_each_load [of _ az gids "gs_db s"] show ?thesis
    by (auto simp: delete_groups_def rbind_eq_Inr)
next
  case (DeleteOffset gid topic part b db)
  then show ?thesis by (auto simp: delete_offset_def load_group_def)
next
  case (Pass now answered)
  have "advances db (snd (complete_pass collate now (gs_changed s) ps db))" for ps db
    unfolding complete_pass_snd by (rule advances_fold) (rule advances_resolve_parked)
  with Pass show ?thesis by (auto simp: complete_parked_def split_beta)
next
  case (Tick now)
  then show ?thesis using advances_expire by blast
qed

text \<open>C12: A step of the coordinator never moves a group's generation back, and while the generation
  stands its leader and its protocol stand.\<close>

theorem generation_fixes_leader:
  assumes "group_step collate s s'" and "load_group gid (gs_db s) = Some g" and "load_group gid (gs_db s') = Some g'"
  shows "gr_generation g \<le> gr_generation g'
    \<and> (gr_generation g' = gr_generation g \<longrightarrow>
         gr_leader_member g' = gr_leader_member g \<and> gr_protocol_name g' = gr_protocol_name g)"
proof -
  from step_advances [OF assms(1)] have "row_advances g g'"
  proof
    assume "advances (gs_db s) (gs_db s')"
    with assms(2) obtain g'' where "load_group gid (gs_db s') = Some g''" and "row_advances g g''"
      unfolding advances_def by blast
    with assms(3) show ?thesis by simp
  next
    assume "\<forall>gid. load_group gid (gs_db s') = None \<or> load_group gid (gs_db s') = load_group gid (gs_db s)"
    with assms(2,3) have "g' = g" by (metis option.distinct(1) option.inject)
    then show ?thesis by (simp add: row_advances_def)
  qed
  then show ?thesis by (simp add: row_advances_def)
qed

definition sample_row :: group_row where
  "sample_row = \<lparr>gr_group_id = sample_group, gr_generation = 0, gr_state = PreparingRebalance,
     gr_protocol_type = Some (ascii ''consumer''), gr_protocol_name = None, gr_leader_member = None,
     gr_rebalance_deadline = Some 61000, gr_join_window_until = None\<rparr>"

definition sample_completed :: group_server where
  "sample_completed = snd (complete_parked (id :: bytes \<Rightarrow> bytes) 1000 sample_joined)"

lemma sample_loads:
  "load_group sample_group (gs_db sample_joined) = Some sample_row"
  "load_group sample_group (gs_db sample_completed) = Some (sample_row\<lparr>gr_generation := 1,
     gr_state := CompletingRebalance, gr_protocol_name := Some (ascii ''range''), gr_leader_member := Some (ascii ''m1''),
     gr_rebalance_deadline := None\<rparr>)"
  by code_simp+

theorem generation_fixes_leader_witness:
  "let g = sample_row; g' = the (load_group sample_group (gs_db sample_completed)) in
     gr_generation g \<le> gr_generation g'
     \<and> (gr_generation g' = gr_generation g \<longrightarrow>
          gr_leader_member g' = gr_leader_member g \<and> gr_protocol_name g' = gr_protocol_name g)"
proof -
  have "group_step (id :: bytes \<Rightarrow> bytes) sample_joined sample_completed"
    unfolding sample_completed_def by (rule Pass [OF prod.collapse [symmetric]])
  from generation_fixes_leader [OF this sample_loads] show ?thesis
    unfolding sample_loads(2) Let_def option.sel .
qed

subsection \<open>Completing a rebalance\<close>

lemma hd_sort_key_le: "x \<in> set xs \<Longrightarrow> f (hd (sort_key f xs)) \<le> f x"
proof -
  assume x: "x \<in> set xs"
  then have "sort_key f xs \<noteq> []" by (metis empty_iff empty_set set_sort)
  then obtain y ys where ys: "sort_key f xs = y # ys" by (cases "sort_key f xs") auto
  moreover have "sorted (map f (sort_key f xs))" by simp
  moreover have "x \<in> set (y # ys)" using x ys by (metis set_sort)
  ultimately show ?thesis by auto
qed

text \<open>C11: Completing a rebalance keeps exactly the members that rejoined. With none left the group is
  empty at the next generation; otherwise the next generation's leader is the member with the first id
  and its protocol the first of the leader's that every member supports. The rebalance is refused, and
  the group row left alone, exactly when no protocol is common.\<close>

theorem complete_join_spec:
  assumes "load_group gid db = Some g"
  shows "let rest = filter (\<lambda>m. gr_generation g < gm_joined_generation m) (members_of gid db);
             supported = (\<lambda>p. \<forall>m \<in> set rest. p \<in> set (gm_protocols m));
             (outcome, db') = complete_join collate gid db in
     members_of gid db' = rest
     \<and> (outcome = NoCommonProtocol \<longleftrightarrow> rest \<noteq> [] \<and> (\<forall>p. \<not> supported p))
     \<and> (outcome = NoCommonProtocol \<longrightarrow> load_group gid db' = Some g)
     \<and> (outcome = Completed \<longrightarrow> (\<exists>g'. load_group gid db' = Some g' \<and> gr_generation g' = gr_generation g + 1
          \<and> (if rest = [] then gr_state g' = GEmpty \<and> gr_leader_member g' = None
             else gr_state g' = CompletingRebalance
               \<and> (\<exists>m \<in> set rest. gr_leader_member g' = Some (gm_member_id m)
                    \<and> (\<forall>m' \<in> set rest. collate (gm_member_id m) \<le> collate (gm_member_id m'))
                    \<and> gr_protocol_name g' = List.find supported (gm_protocols m)))))"
proof -
  let ?db = "rejoined gid g db"
  let ?rest = "filter (\<lambda>m. gr_generation g < gm_joined_generation m) (members_of gid db)"
  let ?ms = "members collate gid ?db"
  let ?supported = "\<lambda>p. \<forall>m \<in> set ?rest. p \<in> set (gm_protocols m)"
  have set: "set ?ms = set ?rest" by (simp add: rejoined_views)
  have common: "common_protocol ?ms = List.find ?supported (gm_protocols (hd ?ms))" if "?rest \<noteq> []"
    using that set by (cases ?ms) (auto simp: common_protocol_find)
  have hd: "hd ?ms \<in> set ?rest" if "?rest \<noteq> []" using that set by (metis hd_in_set set_empty)
  have least: "collate (gm_member_id (hd ?ms)) \<le> collate (gm_member_id m)" if "m \<in> set ?rest" for m
    unfolding members_def rejoined_views(2) using hd_sort_key_le [OF that] .
  show ?thesis
  proof (cases "?rest = []")
    case True
    then show ?thesis
      using assms by (auto simp: complete_join_eq [OF assms] Let_def group_views rejoined_views)
  next
    case False
    then have ne: "?ms \<noteq> []" using set by (metis set_empty)
    have none: "List.find ?supported (gm_protocols (hd ?ms)) = None \<longleftrightarrow> (\<forall>p. \<not> ?supported p)"
      using hd [OF False] by (auto simp: find_None_iff)
    show ?thesis
    proof (cases "common_protocol ?ms")
      case None
      then show ?thesis
        using assms False ne none common [OF False]
        by (simp add: complete_join_eq [OF assms] Let_def rejoined_views)
    next
      case (Some p)
      then show ?thesis
        using assms False ne none common [OF False] hd [OF False] least
        by (auto simp: complete_join_eq [OF assms] Let_def group_views rejoined_views)
    qed
  qed
qed

theorem complete_join_spec_witness:
  "let g = sample_row; gid = sample_group; db = gs_db sample_joined;
       rest = filter (\<lambda>m. gr_generation g < gm_joined_generation m) (members_of gid db);
       (outcome, db') = complete_join (id :: bytes \<Rightarrow> bytes) gid db in
     members_of gid db' = rest \<and> outcome = Completed \<and> map gm_member_id rest = [ascii ''m1'']"
proof -
  have rest: "map gm_member_id (filter (\<lambda>m. gr_generation sample_row < gm_joined_generation m)
      (members_of sample_group (gs_db sample_joined))) = [ascii ''m1'']" by code_simp
  have "fst (complete_join (id :: bytes \<Rightarrow> bytes) sample_group (gs_db sample_joined)) = Completed" by code_simp
  with rest complete_join_spec [OF sample_loads(1), of "id :: bytes \<Rightarrow> bytes"] show ?thesis
    unfolding Let_def split_beta by blast
qed

subsection \<open>Delivering assignments\<close>





lemma sample_completed_reachable: "(group_step (id :: bytes \<Rightarrow> bytes))\<^sup>*\<^sup>* empty_server sample_completed"
proof -
  have "group_step (id :: bytes \<Rightarrow> bytes) sample_joined sample_completed"
    unfolding sample_completed_def by (rule Pass [OF prod.collapse [symmetric]])
  with sample_joined_step show ?thesis by (meson converse_rtranclp_into_rtranclp rtranclp.rtrancl_refl)
qed



subsection \<open>Heartbeats\<close>

lemma denied_code_not_None: "denied_code rt \<noteq> E_None"
  by (cases rt) simp_all

text \<open>C27: In every reachable state a heartbeat is answered NONE exactly when the principal may read the
  group, the group is stable at the request's generation, and the member is in it; it then joined for
  this very generation and holds its assignment.\<close>

theorem heartbeat_confirms_assigned:
  assumes "(group_step collate)\<^sup>*\<^sup>* empty_server s"
  shows "fst (heartbeat collate now req az (gs_db s)) = E_None \<longleftrightarrow>
    authz_check az Read Group (hq_group_id req) = Inr ()
    \<and> (\<exists>g m. load_group (hq_group_id req) (gs_db s) = Some g \<and> gr_state g = GStable
         \<and> gr_generation g = sint (hq_generation_id req)
         \<and> m \<in> set (members_of (hq_group_id req) (gs_db s)) \<and> gm_member_id m = hq_member_id req
         \<and> gm_joined_generation m = sint (hq_generation_id req) \<and> gm_assignment m \<noteq> None)"
proof (cases "load_group (hq_group_id req) (gs_db s)")
  case None
  then show ?thesis
    by (auto simp: heartbeat_def heartbeat_code_def authz_check_def denied_code_not_None)
next
  case (Some g)
  have inv: "group_inv (gs_db s)" by (rule group_run.reachable_inv [OF assms empty_server_inv])
  note ok = group_invD(2) [OF inv Some]
  show ?thesis
    using Some ok
    by (cases "gr_state g")
       (auto simp: heartbeat_def heartbeat_code_def authz_check_def denied_code_not_None member_None
         generation_agreed_def split: option.splits)
qed

definition sample_heartbeat :: heartbeat_request where
  "sample_heartbeat = \<lparr>hq_group_id = sample_group, hq_generation_id = 1, hq_member_id = ascii ''m1''\<rparr>"

definition sample_stable :: group_server where
  "sample_stable = snd (serve_sync_group (id :: bytes \<Rightarrow> bytes) 1500 \<lparr>sq_group_id = sample_group, sq_generation_id = 1,
     sq_member_id = ascii ''m1'', sq_assignments = [(ascii ''m1'', [7])]\<rparr> open_authz 1 2 sample_completed)"

theorem heartbeat_confirms_assigned_witness:
  "fst (heartbeat (id :: bytes \<Rightarrow> bytes) 2000 sample_heartbeat open_authz (gs_db sample_stable)) = E_None
   \<and> (\<exists>m \<in> set (members_of sample_group (gs_db sample_stable)). gm_assignment m \<noteq> None)"
proof -
  have "group_step (id :: bytes \<Rightarrow> bytes) sample_completed sample_stable"
    unfolding sample_stable_def by (rule Sync [OF prod.collapse [symmetric]])
  with sample_completed_reachable have "(group_step (id :: bytes \<Rightarrow> bytes))\<^sup>*\<^sup>* empty_server sample_stable"
    by (rule rtranclp.rtrancl_into_rtrancl)
  from heartbeat_confirms_assigned [OF this, of 2000 sample_heartbeat open_authz]
  have "(\<exists>m \<in> set (members_of sample_group (gs_db sample_stable)). gm_assignment m \<noteq> None)
      \<or> fst (heartbeat (id :: bytes \<Rightarrow> bytes) 2000 sample_heartbeat open_authz (gs_db sample_stable)) \<noteq> E_None"
    by (auto simp: sample_heartbeat_def)
  moreover have "fst (heartbeat (id :: bytes \<Rightarrow> bytes) 2000 sample_heartbeat open_authz (gs_db sample_stable)) = E_None"
    by code_simp
  ultimately show ?thesis by blast
qed

subsection \<open>Answering parked joins\<close>










subsection \<open>A parked join whose group is deleted\<close>

lemma resolve_parked_orphan:
  "pk_waiting p = WaitJoin gid mid \<Longrightarrow> load_group gid db = None \<Longrightarrow> resolve_parked collate now changed p db = (None, db)"
  by (simp add: resolve_parked_def resolve_join_def Let_def)

definition sample_orphaned :: group_server where
  "sample_orphaned =
     (let s = sample_joined;
          s = s\<lparr>gs_db := snd (leave_group 2000 \<lparr>lq_group_id = sample_group, lq_member_id = [],
                 lq_members = [(ascii ''m1'', None)]\<rparr> 3 open_authz (gs_db s)), gs_changed := sample_group # gs_changed s\<rparr>
      in s\<lparr>gs_db := snd (delete_each open_authz [sample_group] (gs_db s))\<rparr>)"

lemma sample_orphaned_reachable: "(group_step collate)\<^sup>*\<^sup>* empty_server sample_orphaned"
proof -
  let ?req = "\<lparr>lq_group_id = sample_group, lq_member_id = [], lq_members = [(ascii ''m1'', None)]\<rparr>"
  let ?s = "sample_joined\<lparr>gs_db := snd (leave_group 2000 ?req 3 open_authz (gs_db sample_joined)),
    gs_changed := sample_group # gs_changed sample_joined\<rparr>"
  have "group_step collate sample_joined ?s"
    using Leave [OF prod.collapse [symmetric], where s = sample_joined and now = 2000 and lreq = ?req and version = 3 and az = open_authz
        and collate = collate] by simp
  moreover have "group_step collate ?s sample_orphaned"
    unfolding sample_orphaned_def Let_def
    by (rule DeleteGroups [where gids = "[sample_group]" and az = open_authz and r = "fst (delete_each open_authz [sample_group] (gs_db ?s))"])
       (simp add: delete_groups_def check_admin_len_def MAX_ADMIN_ITEMS_def del: delete_each.simps)
  ultimately show ?thesis
    using sample_joined_step [of collate] by (meson converse_rtranclp_into_rtranclp rtranclp.rtrancl_refl)
qed

text \<open>C31: There is a reachable state in which a join is parked for a group that has been deleted, and no
  completion pass ever answers it, however long after its deadline.\<close>

theorem deleted_group_join_unanswered:
  "\<exists>s p. (group_step collate)\<^sup>*\<^sup>* empty_server s \<and> gs_parked s = [p]
     \<and> (\<forall>now. complete_parked collate now s = ([], s\<lparr>gs_changed := []\<rparr>))"
proof (intro exI conjI allI)
  let ?p = "\<lparr>pk_conn_id = 1, pk_seq = 1, pk_deadline = 61000, pk_waiting = WaitJoin sample_group (ascii ''m1'')\<rparr>"
  show "(group_step collate)\<^sup>*\<^sup>* empty_server sample_orphaned" by (rule sample_orphaned_reachable)
  show parked: "gs_parked sample_orphaned = [?p]" by code_simp
  have none: "load_group sample_group (gs_db sample_orphaned) = None" by code_simp
  show "complete_parked collate now sample_orphaned = ([], sample_orphaned\<lparr>gs_changed := []\<rparr>)" for now
    unfolding complete_parked_def parked complete_pass.simps
      resolve_parked_orphan [of ?p, OF parked.select_convs(4) none]
    by (auto simp: Let_def parked intro!: group_server.equality)
qed

end
