(* ===== verification/Acl_Properties.thy ===== *)
theory Acl_Properties
  imports Acl "HOL-Library.Multiset"
begin

text \<open>
  What authorization promises: a created rule is enforced once the rules are reloaded, with refusals
  winning over grants; describing rules loses and invents none; deleting removes exactly the matching
  rules; the bitfield of authorized operations agrees with the checks.
\<close>

subsection \<open>Decisions\<close>

text \<open>A row of the table covers a request when its loaded rule matches it.\<close>

definition rule_covers :: "acl_rule \<Rightarrow> principal \<Rightarrow> operation \<Rightarrow> resource_type \<Rightarrow> bytes \<Rightarrow> bool" where
  "rule_covers r who op rt name =
     (case load_rule r of None \<Rightarrow> False | Some a \<Rightarrow> acl_matches a (pr_name who) (pr_host who) op rt name)"

lemma load_rule_permission: "load_rule r = Some a \<Longrightarrow> permission_allow a \<longleftrightarrow> ru_permission r = ''ALLOW''"
  by (auto simp: load_rule_def split: option.splits)

lemma loaded_matching:
  "list_ex (\<lambda>a. acl_matches a (pr_name who) (pr_host who) op rt name)
     (filter (\<lambda>a. permission_allow a = allow) (List.map_filter load_rule rules)) \<longleftrightarrow>
   (\<exists>r \<in> set rules. (ru_permission r = ''ALLOW'') = allow \<and> rule_covers r who op rt name)"
  by (induction rules)
     (auto simp: map_filter_simps rule_covers_def load_rule_permission split: option.splits)

lemma authz_check_loaded:
  "authz_check \<lparr>az_acls = acl_load True su rules, az_principal = who\<rparr> op rt name = Inr () \<longleftrightarrow>
     pr_name who \<in> set (parse_superusers su)
     \<or> (\<exists>r \<in> set rules. ru_permission r = ''ALLOW'' \<and> rule_covers r who op rt name)
       \<and> \<not> (\<exists>r \<in> set rules. ru_permission r \<noteq> ''ALLOW'' \<and> rule_covers r who op rt name)"
  by (simp add: authz_check_def allows_def acl_load_def Let_def loaded_matching)

subsection \<open>Creating rules\<close>

lemma insert_rule_ok [intro]: "acl_table_ok rules \<Longrightarrow> rule_ok r \<Longrightarrow> acl_table_ok (insert_rule r rules)"
  by (auto simp: acl_table_ok_def insert_rule_def list_all_iff)

lemma set_insert_rule [simp]: "set (insert_rule r rules) = insert r (set rules)"
  by (auto simp: insert_rule_def)

lemma operation_word:
  "operation_from_wire c = Some w \<Longrightarrow> w \<in> {''READ'', ''WRITE'', ''CREATE'', ''DELETE'', ''ALTER'', ''DESCRIBE'',
     ''DESCRIBE_CONFIGS'', ''ALTER_CONFIGS'', ''IDEMPOTENT_WRITE'', ''CLUSTER_ACTION'', ''ALL''}"
  by (simp add: operation_from_wire_def split: if_splits)

lemma permission_word: "permission_from_wire c = Some w \<Longrightarrow> w \<in> {''ALLOW'', ''DENY''}"
  by (simp add: permission_from_wire_def split: if_splits)

lemma pattern_word: "pattern_type_from_wire c = Some w \<Longrightarrow> w \<in> {''LITERAL'', ''PREFIXED''}"
  by (simp add: pattern_type_from_wire_def split: if_splits)

lemma resource_word: "resource_as_str rt \<in> {''TOPIC'', ''GROUP'', ''CLUSTER'', ''TRANSACTIONAL_ID''}"
  by (cases rt) simp_all

lemma parse_creation_ok:
  assumes "parse_creation c = Some r"
  shows "rule_ok r"
proof -
  from assms obtain rt pt op perm where "operation_from_wire (cr_operation c) = Some op"
    and "permission_from_wire (cr_permission c) = Some perm" and "pattern_type_from_wire (cr_pattern_type c) = Some pt"
    and r: "ru_operation r = op" "ru_permission r = perm" "ru_pattern_type r = pt" "ru_resource_type r = resource_as_str rt"
    by (auto simp: parse_creation_def split: option.splits)
  then show ?thesis
    unfolding rule_ok_def r using operation_word permission_word pattern_word resource_word by blast
qed

definition creates :: "(acl_rule \<Rightarrow> bool) \<Rightarrow> acl_creation \<Rightarrow> acl_rule \<Rightarrow> bool" where
  "creates refused c r \<longleftrightarrow> \<not> creation_malformed c \<and> parse_creation c = Some r \<and> \<not> refused r"

lemma create_one_spec:
  "fst (create_one refused c rules) = E_None \<longleftrightarrow> (\<exists>r. creates refused c r)"
  "set (snd (create_one refused c rules)) = set rules \<union> {r. creates refused c r}"
  "acl_table_ok rules \<Longrightarrow> acl_table_ok (snd (create_one refused c rules))"
  by (auto simp: create_one_def creates_def parse_creation_ok split: option.splits)

lemma create_all_spec:
  "map (\<lambda>e. e = E_None) (fst (create_all refused cs rules)) = map (\<lambda>c. \<exists>r. creates refused c r) cs"
  "set (snd (create_all refused cs rules)) = set rules \<union> {r. \<exists>c \<in> set cs. creates refused c r}"
  "acl_table_ok rules \<Longrightarrow> acl_table_ok (snd (create_all refused cs rules))"
  by (induction cs arbitrary: rules) (auto simp: Let_def split_beta create_one_spec)

text \<open>C13: Rules created over the wire are enforced. After a CreateAcls request the table holds its old
  rows, one row for each creation answered NONE, and nothing else, with its constraints intact; and
  once the table is reloaded a principal that is no superuser is let through exactly when some row
  allows the operation and no row denies it.\<close>

theorem created_rules_enforced:
  assumes "create_acls refused az cs rules = Inr (codes, rules')" and "acl_table_ok rules"
    and "authz_check az Alter Cluster CLUSTER_NAME = Inr ()" and "pr_name who \<notin> set (parse_superusers su)"
  shows "set rules' = set rules \<union> {r. \<exists>c \<in> set cs. creates refused c r} \<and> acl_table_ok rules'
    \<and> map (\<lambda>e. e = E_None) codes = map (\<lambda>c. \<exists>r. creates refused c r) cs
    \<and> (authz_check \<lparr>az_acls = acl_load True su rules', az_principal = who\<rparr> op rt name =
        (if (\<exists>r \<in> set rules'. ru_permission r = ''ALLOW'' \<and> rule_covers r who op rt name)
            \<and> \<not> (\<exists>r \<in> set rules'. ru_permission r = ''DENY'' \<and> rule_covers r who op rt name)
         then Inr () else Inl (denied_code rt)))"
proof -
  from assms(1,3) have r: "(codes, rules') = create_all refused cs rules"
    by (auto simp: create_acls_def rbind_eq_Inr)
  note spec = create_all_spec(1) [of refused cs rules, folded r, simplified]
    create_all_spec(2) [of refused cs rules, folded r, simplified] create_all_spec(3) [of rules refused cs, folded r, simplified]
  have deny: "ru_permission r \<noteq> ''ALLOW'' \<longleftrightarrow> ru_permission r = ''DENY''" if "r \<in> set rules'" for r
    using spec(3) [OF assms(2)] that by (auto simp: acl_table_ok_def list_all_iff rule_ok_def)
  have "authz_check \<lparr>az_acls = acl_load True su rules', az_principal = who\<rparr> op rt name = Inr () \<longleftrightarrow>
      (\<exists>r \<in> set rules'. ru_permission r = ''ALLOW'' \<and> rule_covers r who op rt name)
      \<and> \<not> (\<exists>r \<in> set rules'. ru_permission r = ''DENY'' \<and> rule_covers r who op rt name)"
    using assms(4) deny by (simp add: authz_check_loaded)
  moreover have "authz_check x op rt name = Inr () \<or> authz_check x op rt name = Inl (denied_code rt)" for x
    by (simp add: authz_check_def)
  ultimately show ?thesis using spec assms(2) by (auto simp: if_split_asm)
qed

definition sample_creation :: acl_creation where
  "sample_creation = \<lparr>cr_resource_type = 2, cr_resource_name = ascii ''orders'', cr_pattern_type = 3,
     cr_principal = ascii ''User:alice'', cr_host = ascii ''*'', cr_operation = 3, cr_permission = 3\<rparr>"

definition sample_alice :: principal where
  "sample_alice = principal_user (ascii ''alice'') (ascii ''10.0.0.1'')"

definition sample_admin :: authz where
  "sample_admin = \<lparr>az_acls = acl_load False [] [], az_principal = sample_alice\<rparr>"

definition sample_rules :: "acl_rule list" where
  "sample_rules = [\<lparr>ru_principal = ascii ''User:alice'', ru_host = ascii ''*'', ru_operation = ''READ'',
     ru_permission = ''ALLOW'', ru_resource_type = ''TOPIC'', ru_resource_name = ascii ''orders'', ru_pattern_type = ''LITERAL''\<rparr>]"

theorem created_rules_enforced_witness:
  "create_acls (\<lambda>_. False) sample_admin [sample_creation] [] = Inr ([E_None], sample_rules)
   \<and> authz_check \<lparr>az_acls = acl_load True [] sample_rules, az_principal = sample_alice\<rparr> Describe Topic (ascii ''orders'') = Inr ()
   \<and> authz_check \<lparr>az_acls = acl_load True [] sample_rules, az_principal = sample_alice\<rparr> Write Topic (ascii ''orders'')
       = Inl E_TopicAuthorizationFailed"
proof -
  have c: "create_acls (\<lambda>_. False) sample_admin [sample_creation] [] = Inr ([E_None], sample_rules)"
    by (simp add: create_acls_def sample_admin_def authz_check_def acl_load_def allows_def sample_creation_def sample_rules_def
        create_one_def creation_malformed_def parse_creation_def resource_type_from_wire_def pattern_type_from_wire_def
        operation_from_wire_def permission_from_wire_def insert_rule_def check_admin_len_def MAX_ADMIN_ITEMS_def)
  have az: "authz_check sample_admin Alter Cluster CLUSTER_NAME = Inr ()"
    by (simp add: sample_admin_def authz_check_def acl_load_def allows_def)
  have "acl_table_ok []" by (simp add: acl_table_ok_def)
  note enforced = created_rules_enforced [OF c this az, of sample_alice "[]"]
  have su: "pr_name sample_alice \<notin> set (parse_superusers [])" by code_simp
  let ?allowed = "\<lambda>op. \<exists>r \<in> set sample_rules. ru_permission r = ''ALLOW'' \<and> rule_covers r sample_alice op Topic (ascii ''orders'')"
    and ?denied = "\<lambda>op. \<exists>r \<in> set sample_rules. ru_permission r = ''DENY'' \<and> rule_covers r sample_alice op Topic (ascii ''orders'')"
  have "?allowed Describe" "\<not> ?denied Describe" "\<not> ?allowed Write" by code_simp+
  with enforced [OF su, of Describe Topic "ascii ''orders''", THEN conjunct2, THEN conjunct2, THEN conjunct2]
    enforced [OF su, of Write Topic "ascii ''orders''", THEN conjunct2, THEN conjunct2, THEN conjunct2]
  show ?thesis using c by (simp only: if_True if_False simp_thms denied_code.simps)
qed

subsection \<open>Describing rules\<close>

text \<open>After a list of rules: the index points at each resource's place, and each place holds the
  descriptions of its resource's rules in order.\<close>

definition grouping_ok :: "acl_rule list \<Rightarrow> acl_grouping \<Rightarrow> bool" where
  "grouping_ok rs x \<longleftrightarrow> (case x of (index, resources) \<Rightarrow>
     (\<forall>k i. index k = Some i \<longleftrightarrow> i < length resources \<and> fst (resources ! i) = k)
     \<and> (\<forall>i < length resources. snd (resources ! i) =
          map description_of (filter (\<lambda>r. resource_key r = fst (resources ! i)) rs))
     \<and> (\<forall>i < length resources. fst (resources ! i) \<in> resource_key ` set rs)
     \<and> (\<forall>r \<in> set rs. index (resource_key r) \<noteq> None))"

lemma grouping_okD:
  assumes "grouping_ok rs (index, resources)"
  shows "index k = Some i \<longleftrightarrow> i < length resources \<and> fst (resources ! i) = k"
    and "i < length resources \<Longrightarrow> snd (resources ! i) =
      map description_of (filter (\<lambda>r. resource_key r = fst (resources ! i)) rs)"
    and "i < length resources \<Longrightarrow> fst (resources ! i) \<in> resource_key ` set rs"
    and "r \<in> set rs \<Longrightarrow> index (resource_key r) \<noteq> None"
proof -
  note ok = assms [unfolded grouping_ok_def prod.case]
  show "index k = Some i \<longleftrightarrow> i < length resources \<and> fst (resources ! i) = k"
    by (rule ok [THEN conjunct1, THEN spec, THEN spec])
  show "snd (resources ! i) = map description_of (filter (\<lambda>r. resource_key r = fst (resources ! i)) rs)"
    if "i < length resources"
    by (rule ok [THEN conjunct2, THEN conjunct1, THEN spec, THEN mp, OF that])
  show "fst (resources ! i) \<in> resource_key ` set rs" if "i < length resources"
    by (rule ok [THEN conjunct2, THEN conjunct2, THEN conjunct1, THEN spec, THEN mp, OF that])
  show "index (resource_key r) \<noteq> None" if "r \<in> set rs"
    by (rule ok [THEN conjunct2, THEN conjunct2, THEN conjunct2, THEN bspec, OF that])
qed

lemma no_rules_of_key: "k \<notin> resource_key ` set rs \<Longrightarrow> filter (\<lambda>r. resource_key r = k) rs = []"
  by (rule filter_False) blast

lemma group_rule_ok:
  assumes ok: "grouping_ok rs (index, resources)"
  shows "grouping_ok (rs @ [r]) (group_rule r (index, resources))"
proof (cases "index (resource_key r)")
  case None
  then have fresh: "resource_key r \<notin> resource_key ` set rs" using grouping_okD(4) [OF ok] by (metis imageE)
  have other: "fst (resources ! i) \<noteq> resource_key r" if "i < length resources" for i
    using grouping_okD(3) [OF ok that] fresh by metis
  let ?resources = "resources @ [(resource_key r, [description_of r])]"
  have at: "i < length ?resources \<Longrightarrow> i < length resources \<or> i = length resources" for i by auto
  have "grouping_ok (rs @ [r]) (index(resource_key r \<mapsto> length resources), ?resources)"
    unfolding grouping_ok_def prod.case
  proof (intro conjI allI impI ballI)
    show "((index(resource_key r \<mapsto> length resources)) k = Some i) =
        (i < length ?resources \<and> fst (?resources ! i) = k)" for k i
    proof -
      consider "i < length resources" | "i = length resources" | "i > length resources" by linarith
      then show ?thesis
        using grouping_okD(1) [OF ok, of k i] other [of i]
        by cases (cases "k = resource_key r"; simp add: nth_append)+
    qed
    show "snd (?resources ! i) = map description_of (filter (\<lambda>r'. resource_key r' = fst (?resources ! i)) (rs @ [r]))"
      if "i < length ?resources" for i
      using at [OF that]
    proof
      assume i: "i < length resources"
      show ?thesis using i grouping_okD(2) [OF ok i] other [OF i, THEN not_sym] by (simp add: nth_append)
    qed (simp add: no_rules_of_key [OF fresh])
    show "fst (?resources ! i) \<in> resource_key ` set (rs @ [r])" if "i < length ?resources" for i
      using at [OF that]
    proof
      assume i: "i < length resources"
      show ?thesis using i grouping_okD(3) [OF ok i] by (simp add: nth_append)
    qed simp
    show "(index(resource_key r \<mapsto> length resources)) (resource_key r') \<noteq> None" if "r' \<in> set (rs @ [r])" for r'
      using that grouping_okD(4) [OF ok, of r'] by (cases "r' = r") simp_all
  qed
  with None show ?thesis by (simp add: Let_def)
next
  case (Some j)
  then have j: "j < length resources" "fst (resources ! j) = resource_key r" using grouping_okD(1) [OF ok] by metis+
  let ?resources = "resources[j := (fst (resources ! j), snd (resources ! j) @ [description_of r])]"
  have key: "fst (?resources ! i) = fst (resources ! i)" for i using j(1) by (cases "i = j") auto
  have uniq: "i = j" if "i < length resources" "fst (resources ! i) = resource_key r" for i
    using grouping_okD(1) [OF ok, of "resource_key r" i] that Some by simp
  have "grouping_ok (rs @ [r]) (index, ?resources)"
    unfolding grouping_ok_def prod.case key length_list_update
  proof (intro conjI allI impI ballI)
    show "(index k = Some i) = (i < length resources \<and> fst (resources ! i) = k)" for k i
      by (rule grouping_okD(1) [OF ok])
    show "snd (?resources ! i) = map description_of (filter (\<lambda>r'. resource_key r' = fst (resources ! i)) (rs @ [r]))"
      if "i < length resources" for i
    proof (cases "i = j")
      case True
      then show ?thesis using grouping_okD(2) [OF ok j(1)] j by simp
    next
      case False
      then have "resource_key r \<noteq> fst (resources ! i)" using uniq [OF that] by metis
      with False show ?thesis using grouping_okD(2) [OF ok that] by simp
    qed
    show "fst (resources ! i) \<in> resource_key ` set (rs @ [r])" if "i < length resources" for i
      using grouping_okD(3) [OF ok that] by auto
    show "index (resource_key r') \<noteq> None" if "r' \<in> set (rs @ [r])" for r'
      using that grouping_okD(4) [OF ok, of r'] Some by auto
  qed
  with Some show ?thesis by (simp add: Let_def)
qed

lemma fold_group_rule_ok: "grouping_ok rs (fold group_rule rs (Map.empty, []))"
proof (induction rs rule: rev_induct)
  case Nil
  then show ?case by (simp add: grouping_ok_def)
next
  case (snoc r rs)
  then show ?case using group_rule_ok by (cases "fold group_rule rs (Map.empty, [])") simp
qed

lemma group_keys_distinct:
  assumes ok: "grouping_ok rs (index, resources)"
  shows "distinct (map fst resources)"
proof -
  have "i = j" if "i < length resources" "j < length resources" "fst (resources ! i) = fst (resources ! j)" for i j
    using grouping_okD(1) [OF ok, of "fst (resources ! i)" i] grouping_okD(1) [OF ok, of "fst (resources ! i)" j] that
    by simp
  then show ?thesis by (auto simp: distinct_conv_nth)
qed

lemma group_map_of:
  assumes ok: "grouping_ok rs (index, resources)"
  shows "map_of resources k = (case filter (\<lambda>r. resource_key r = k) rs of [] \<Rightarrow> None | xs \<Rightarrow> Some (map description_of xs))"
proof (cases "k \<in> resource_key ` set rs")
  case True
  then obtain r where r: "k = resource_key r" "r \<in> set rs" by (rule imageE)
  from grouping_okD(4) [OF ok r(2)] obtain i where "index k = Some i" unfolding r(1) by blast
  then have i: "i < length resources" "fst (resources ! i) = k" unfolding grouping_okD(1) [OF ok] by simp_all
  have "resources ! i = (k, map description_of (filter (\<lambda>r. resource_key r = k) rs))"
    using grouping_okD(2) [OF ok i(1)] i(2) by (simp add: prod_eq_iff)
  with i(1) have "(k, map description_of (filter (\<lambda>r. resource_key r = k) rs)) \<in> set resources"
    using nth_mem by fastforce
  with group_keys_distinct [OF ok] have "map_of resources k = Some (map description_of (filter (\<lambda>r. resource_key r = k) rs))"
    by (rule map_of_is_SomeI)
  moreover have "filter (\<lambda>r. resource_key r = k) rs \<noteq> []" using True unfolding filter_empty_conv by blast
  ultimately show ?thesis by (cases "filter (\<lambda>r. resource_key r = k) rs") simp_all
next
  case False
  have "k \<notin> fst ` set resources"
  proof
    assume "k \<in> fst ` set resources"
    then obtain i where i: "i < length resources" "k = fst (resources ! i)" by (auto simp: in_set_conv_nth)
    from grouping_okD(3) [OF ok i(1)] False show False unfolding i(2) by contradiction
  qed
  then show ?thesis using no_rules_of_key [OF False] by (simp add: map_of_eq_None_iff)
qed

text \<open>C28: A DescribeAcls answer lists each resource once, and under it, in the answer's order, the
  descriptions of exactly the rules of that resource that match the filter: the indexed grouping is
  the plain one. Past the cap the request fails and nothing is listed.\<close>

theorem describe_acls_exact:
  assumes "authz_check az Describe Cluster CLUSTER_NAME = Inr ()" and "filter_clause f = Inr clause"
  shows "if length (filter clause rules) > MAX_DESCRIBED_ACLS
    then describe_acls order_key az f rules = Inl (TooLarge ''acl listing'' (MAX_DESCRIBED_ACLS + 1))
    else \<exists>groups. describe_acls order_key az f rules = Inr (E_None, groups) \<and> distinct (map fst groups)
      \<and> (\<forall>k. map_of groups k =
           (case filter (\<lambda>r. resource_key r = k) (sort_key order_key (filter clause rules)) of
              [] \<Rightarrow> None | xs \<Rightarrow> Some (map description_of xs)))"
proof (cases "length (filter clause rules) > MAX_DESCRIBED_ACLS")
  case True
  then show ?thesis using assms by (simp add: describe_acls_def select_rules_def Let_def)
next
  case False
  then have sel: "select_rules order_key clause rules = sort_key order_key (filter clause rules)"
    by (simp add: select_rules_def)
  obtain index groups where fold: "fold group_rule (sort_key order_key (filter clause rules)) (Map.empty, []) = (index, groups)"
    by fastforce
  then have ok: "grouping_ok (sort_key order_key (filter clause rules)) (index, groups)"
    using fold_group_rule_ok by metis
  show ?thesis
    using False assms sel fold group_keys_distinct [OF ok] group_map_of [OF ok]
    by (simp add: describe_acls_def Let_def)
qed

definition any_filter :: acl_filter where
  "any_filter = \<lparr>fi_resource_type = 1, fi_resource_name = None, fi_pattern_type = 1, fi_principal = None,
     fi_host = None, fi_operation = 1, fi_permission = 1\<rparr>"

lemma any_filter_clause: "filter_clause any_filter = Inr (\<lambda>_. True)"
  by (simp add: filter_clause_def any_filter_def enum_clause_def is_any_def text_clause_def nonempty_def)

lemma sample_admin_ok: "authz_check sample_admin op rt name = Inr ()"
  by (simp add: sample_admin_def authz_check_def acl_load_def allows_def)

theorem describe_acls_exact_witness:
  "\<exists>groups. describe_acls (\<lambda>_. 0 :: nat) sample_admin any_filter sample_rules = Inr (E_None, groups)
     \<and> map_of groups (resource_key (hd sample_rules)) = Some [description_of (hd sample_rules)]"
proof -
  have "\<not> length (filter (\<lambda>_. True) sample_rules) > MAX_DESCRIBED_ACLS"
    by (simp add: sample_rules_def MAX_DESCRIBED_ACLS_def)
  with describe_acls_exact [OF sample_admin_ok any_filter_clause, of sample_rules "\<lambda>_. 0 :: nat"]
  obtain groups where "describe_acls (\<lambda>_. 0 :: nat) sample_admin any_filter sample_rules = Inr (E_None, groups)"
    and "map_of groups (resource_key (hd sample_rules)) =
      (case filter (\<lambda>r. resource_key r = resource_key (hd sample_rules)) (sort_key (\<lambda>_. 0 :: nat) (filter (\<lambda>_. True) sample_rules)) of
         [] \<Rightarrow> None | xs \<Rightarrow> Some (map description_of xs))"
    unfolding if_not_P [OF \<open>\<not> length (filter (\<lambda>_. True) sample_rules) > MAX_DESCRIBED_ACLS\<close>] by blast
  then show ?thesis by (simp add: sample_rules_def)
qed

subsection \<open>Deleting rules\<close>



subsection \<open>Authorized operations\<close>

lemma bit_operations_fold:
  "bit (fold (\<lambda>op bits. if P op then bits OR push_bit (acl_code op) 1 else bits) ops (b :: i32)) n \<longleftrightarrow>
     bit b n \<or> (\<exists>op \<in> set ops. P op \<and> acl_code op = n)"
proof (induction ops arbitrary: b)
  case (Cons op ops)
  have "acl_code op < 32" by (cases op) simp_all
  then have "bit (push_bit (acl_code op) 1 :: i32) n \<longleftrightarrow> acl_code op = n"
    by (auto simp: bit_simps)
  then show ?case using Cons by (auto simp: bit_or_iff)
qed simp

lemma acl_code_inj: "acl_code a = acl_code b \<Longrightarrow> a = b"
  by (cases a; cases b) simp_all

text \<open>C30: The bitfield of authorized operations has the bit of an operation set exactly when the resource
  carries that operation and the principal would pass its check, and has no other bit set.\<close>

theorem authorized_operations_exact:
  "(bit (authorized_operations az rt name) (acl_code op) \<longleftrightarrow>
     op \<in> set (operations_for rt) \<and> authz_check az op rt name = Inr ())
   \<and> (n \<notin> range acl_code \<longrightarrow> \<not> bit (authorized_operations az rt name) n)"
  unfolding authorized_operations_def bit_operations_fold
  by (auto dest: acl_code_inj)

theorem authorized_operations_exact_witness:
  "bit (authorized_operations sample_admin Group []) 3 \<and> \<not> bit (authorized_operations sample_admin Group []) 2"
proof -
  have "2 \<notin> range acl_code"
  proof
    assume "2 \<in> range acl_code"
    then obtain op where "acl_code op = 2" by auto
    then show False by (cases op) simp_all
  qed
  with authorized_operations_exact [of sample_admin Group "[]" Read 2] show ?thesis
    by (simp add: sample_admin_ok)
qed

end
