(* ===== verification/PendingRing.thy ===== *)
theory PendingRing
  imports Main "HOL-Library.Multiset"
begin

text \<open>
  The reservation rings of in-flight \<open>kafgres_produce()\<close> transactions
  (\<open>src/extension/src/storage/segment/pending.rs\<close>): per partition a ring buffer in shared memory
  that holds the reserved base offsets in ascending order, with the lowest cached.

  A base is an \<open>i64\<close> and is only compared, so it is an \<open>int\<close>; \<open>head\<close> and \<open>len\<close> are \<open>nat\<close>s, below the
  ring's capacity, which is the number of backends. The shared-memory region itself is not modelled:
  a ring is the list of its \<open>i64\<close>s.
\<close>

record pending_ring =
  ring_min :: int
  ring_head :: nat
  ring_len :: nat

definition ring_default :: pending_ring where
  "ring_default = \<lparr>ring_min = -1, ring_head = 0, ring_len = 0\<rparr>"

definition phys :: "nat \<Rightarrow> nat \<Rightarrow> nat \<Rightarrow> nat" where
  "phys head j cap = (let p = head + j in if p \<ge> cap then p - cap else p)"

definition floor :: "pending_ring \<Rightarrow> int option" where
  "floor r = (if ring_len r > 0 then Some (ring_min r) else None)"

text \<open>The loop of \<open>reserve\<close>: entries above \<open>base\<close> move up by one.\<close>

fun shift_up :: "int list \<Rightarrow> nat \<Rightarrow> int \<Rightarrow> nat \<Rightarrow> int list \<times> nat" where
  "shift_up ring head base 0 = (ring, 0)"
| "shift_up ring head base (Suc j) =
     (let cap = length ring in
      if ring ! phys head j cap > base
      then shift_up (ring[phys head (Suc j) cap := ring ! phys head j cap]) head base j
      else (ring, Suc j))"

definition reserve :: "int list \<Rightarrow> int \<Rightarrow> pending_ring \<Rightarrow> bool \<times> pending_ring \<times> int list" where
  "reserve ring base r =
     (let cap = length ring; head = ring_head r; len = ring_len r in
      if len \<ge> cap \<or> head \<ge> cap then (False, r, ring)
      else let (ring, j) = shift_up ring head base len;
               ring = ring[phys head j cap := base]
           in (True, r\<lparr>ring_len := len + 1, ring_min := ring ! head\<rparr>, ring))"

text \<open>The loops of \<open>release\<close>: a binary search for the first entry not below \<open>base\<close>, and the shift of
  one side of the ring over the gap.\<close>

function search :: "int list \<Rightarrow> nat \<Rightarrow> int \<Rightarrow> nat \<Rightarrow> nat \<Rightarrow> nat" where
  "search ring head base lo hi =
     (if lo < hi
      then let mid = (lo + hi) div 2 in
        if ring ! phys head mid (length ring) < base then search ring head base (mid + 1) hi
        else search ring head base lo mid
      else lo)"
  by pat_completeness auto
termination by (relation "measure (\<lambda>(ring, head, base, lo, hi). hi - lo)") auto

fun shift_right :: "int list \<Rightarrow> nat \<Rightarrow> nat \<Rightarrow> int list" where
  "shift_right ring head 0 = ring"
| "shift_right ring head (Suc j) =
     (let cap = length ring in
      shift_right (ring[phys head (Suc j) cap := ring ! phys head j cap]) head j)"

definition shift_left :: "int list \<Rightarrow> nat \<Rightarrow> nat \<Rightarrow> nat \<Rightarrow> int list" where
  "shift_left ring head lo hi =
     fold (\<lambda>j ring. ring[phys head j (length ring) := ring ! phys head (j + 1) (length ring)]) [lo..<hi] ring"

definition release :: "int list \<Rightarrow> int \<Rightarrow> pending_ring \<Rightarrow> bool \<times> pending_ring \<times> int list" where
  "release ring base r =
     (let cap = length ring; head = ring_head r; len = ring_len r in
      if len = 0 \<or> len > cap \<or> head \<ge> cap then (False, r, ring)
      else let lo = search ring head base 0 len in
        if lo = len \<or> ring ! phys head lo cap \<noteq> base then (False, r, ring)
        else let (head, ring) = (if lo < len div 2 then (phys head 1 cap, shift_right ring head lo)
                                 else (head, shift_left ring head lo (len - 1)));
                 r = r\<lparr>ring_head := head, ring_len := len - 1\<rparr>
             in (True, if ring_len r = 0 then ring_default else r\<lparr>ring_min := ring ! head\<rparr>, ring))"

declare search.simps [simp del]

subsection \<open>The ring read from its head\<close>

definition lg :: "nat \<Rightarrow> int list \<Rightarrow> int list" where
  "lg head ring = map (\<lambda>j. ring ! phys head j (length ring)) [0..<length ring]"

lemma phys_mod: "head < cap \<Longrightarrow> j < cap \<Longrightarrow> phys head j cap = (head + j) mod cap"
  by (auto simp: phys_def Let_def mod_if)

lemma phys_less: "head < cap \<Longrightarrow> j < cap \<Longrightarrow> phys head j cap < cap"
  by (auto simp: phys_def Let_def)

lemma phys_inj: "head < cap \<Longrightarrow> i < cap \<Longrightarrow> j < cap \<Longrightarrow> phys head i cap = phys head j cap \<longleftrightarrow> i = j"
  by (auto simp: phys_def Let_def split: if_splits)

lemma phys_0 [simp]: "head < cap \<Longrightarrow> phys head 0 cap = head"
  by (simp add: phys_def)

lemma phys_next: "head < cap \<Longrightarrow> j + 1 < cap \<Longrightarrow> phys (phys head 1 cap) j cap = phys head (j + 1) cap"
  by (auto simp: phys_def Let_def split: if_splits)

lemma length_lg [simp]: "length (lg head ring) = length ring"
  by (simp add: lg_def)

lemma lg_nth: "j < length ring \<Longrightarrow> lg head ring ! j = ring ! phys head j (length ring)"
  by (simp add: lg_def)

lemma lg_update:
  assumes "head < length ring" and "i < length ring"
  shows "lg head (ring[phys head i (length ring) := x]) = (lg head ring)[i := x]"
  using assms by (auto intro!: nth_equalityI simp: lg_nth nth_list_update phys_inj phys_less)

definition contents :: "pending_ring \<Rightarrow> int list \<Rightarrow> int list" where
  "contents r ring = take (ring_len r) (lg (ring_head r) ring)"

definition ring_ok :: "pending_ring \<Rightarrow> int list \<Rightarrow> bool" where
  "ring_ok r ring \<longleftrightarrow> ring_len r \<le> length ring \<and> (ring \<noteq> [] \<longrightarrow> ring_head r < length ring)
     \<and> sorted (contents r ring) \<and> (ring_len r > 0 \<longrightarrow> ring_min r = hd (contents r ring))"

subsection \<open>The loops\<close>

lemma shift_up_spec:
  assumes "head < length ring" and "j < length ring" and "shift_up ring head base j = (ring', k)"
  shows "length ring' = length ring \<and> k \<le> j
    \<and> (\<forall>i < length ring. lg head ring' ! i = (if k < i \<and> i \<le> j then lg head ring ! (i - 1) else lg head ring ! i))
    \<and> (\<forall>i. k \<le> i \<and> i < j \<longrightarrow> base < lg head ring ! i) \<and> (k > 0 \<longrightarrow> lg head ring ! (k - 1) \<le> base)"
  using assms
proof (induction j arbitrary: ring)
  case (Suc j)
  show ?case
  proof (cases "base < ring ! phys head j (length ring)")
    case True
    let ?ring = "ring[phys head (Suc j) (length ring) := ring ! phys head j (length ring)]"
    have up: "lg head ?ring = (lg head ring)[Suc j := lg head ring ! j]"
      using Suc.prems by (simp add: lg_update lg_nth)
    have IH: "length ring' = length ring \<and> k \<le> j
      \<and> (\<forall>i < length ring. lg head ring' ! i = (if k < i \<and> i \<le> j then lg head ?ring ! (i - 1) else lg head ?ring ! i))
      \<and> (\<forall>i. k \<le> i \<and> i < j \<longrightarrow> base < lg head ?ring ! i) \<and> (k > 0 \<longrightarrow> lg head ?ring ! (k - 1) \<le> base)"
      using Suc.IH [of ?ring] Suc.prems True by (simp add: Let_def)
    have above: "base < lg head ring ! j" using True Suc.prems by (simp add: lg_nth)
    show ?thesis
      using IH above Suc.prems(2) unfolding up by (auto simp: nth_list_update less_Suc_eq le_Suc_eq split: if_splits)
  next
    case False
    with Suc.prems show ?thesis by (auto simp: lg_nth)
  qed
qed auto

lemma search_spec:
  assumes "head < length ring" and "hi \<le> length ring" and "lo \<le> hi" and "sorted (take hi' (lg head ring))" and "hi \<le> hi'"
  shows "lo \<le> search ring head base lo hi \<and> search ring head base lo hi \<le> hi
    \<and> (\<forall>i. lo \<le> i \<and> i < search ring head base lo hi \<longrightarrow> lg head ring ! i < base)
    \<and> (\<forall>i. search ring head base lo hi \<le> i \<and> i < hi \<longrightarrow> base \<le> lg head ring ! i)"
  using assms
proof (induction ring head base lo hi rule: search.induct)
  case (1 ring head base lo hi)
  have mono: "lg head ring ! a \<le> lg head ring ! b" if "a \<le> b" "b < hi" for a b
    using sorted_nth_mono [OF "1.prems"(4), of a b] that "1.prems"(2,5) by simp
  show ?case
  proof (cases "lo < hi")
    case True
    let ?mid = "(lo + hi) div 2"
    have mid: "lo \<le> ?mid" "?mid < hi" using True by auto
    show ?thesis
    proof (cases "ring ! phys head ?mid (length ring) < base")
      case low: True
      have "lg head ring ! i < base" if "i \<le> ?mid" for i
        using mono [OF that mid(2)] low mid "1.prems"(2) by (simp add: lg_nth)
      then show ?thesis
        using "1.IH"(1) [OF True refl low] low True mid "1.prems"
        by (simp add: search.simps [of ring head base lo hi]) (metis Suc_leD not_less_eq_eq)
    next
      case high: False
      have "base \<le> lg head ring ! i" if "?mid \<le> i" "i < hi" for i
        using mono [OF that] high mid "1.prems"(2) by (simp add: lg_nth)
      then show ?thesis
        using "1.IH"(2) [OF True refl high] high True mid "1.prems"
        by (simp add: search.simps [of ring head base lo hi]) (metis leD leI order_trans less_imp_le)
    qed
  qed (use "1.prems" in \<open>simp add: search.simps\<close>)
qed

lemma shift_right_spec:
  assumes "head < length ring" and "j < length ring"
  shows "length (shift_right ring head j) = length ring
    \<and> (\<forall>i < length ring. lg head (shift_right ring head j) ! i =
         (if 0 < i \<and> i \<le> j then lg head ring ! (i - 1) else lg head ring ! i))"
  using assms
proof (induction j arbitrary: ring)
  case (Suc j)
  let ?ring = "ring[phys head (Suc j) (length ring) := ring ! phys head j (length ring)]"
  have up: "lg head ?ring = (lg head ring)[Suc j := lg head ring ! j]"
    using Suc.prems by (simp add: lg_update lg_nth)
  have "length (shift_right ?ring head j) = length ring
    \<and> (\<forall>i < length ring. lg head (shift_right ?ring head j) ! i =
         (if 0 < i \<and> i \<le> j then lg head ?ring ! (i - 1) else lg head ?ring ! i))"
    using Suc.IH [of ?ring] Suc.prems by simp
  then show ?case
    using Suc.prems(2) unfolding up by (auto simp: Let_def nth_list_update le_Suc_eq)
qed simp

lemma shift_left_spec:
  assumes "head < length ring" and "lo \<le> hi" and "hi < length ring"
  shows "length (shift_left ring head lo hi) = length ring
    \<and> (\<forall>i < length ring. lg head (shift_left ring head lo hi) ! i =
         (if lo \<le> i \<and> i < hi then lg head ring ! (i + 1) else lg head ring ! i))"
  using assms(2,3)
proof (induction hi rule: dec_induct)
  case base
  then show ?case by (simp add: shift_left_def)
next
  case (step hi)
  let ?r = "shift_left ring head lo hi"
  have len: "length ?r = length ring" and nth: "\<And>i. i < length ring \<Longrightarrow> lg head ?r ! i =
      (if lo \<le> i \<and> i < hi then lg head ring ! (i + 1) else lg head ring ! i)"
    using step by auto
  have "shift_left ring head lo (Suc hi) = ?r[phys head hi (length ?r) := ?r ! phys head (hi + 1) (length ?r)]"
    using step.hyps by (simp add: shift_left_def)
  moreover have "lg head (?r[phys head hi (length ?r) := ?r ! phys head (hi + 1) (length ?r)])
      = (lg head ?r)[hi := lg head ?r ! (hi + 1)]"
    using assms(1) step.prems len by (subst lg_update) (auto simp: lg_nth)
  ultimately show ?case
    using len nth step.prems step.hyps by (auto simp: nth_list_update less_Suc_eq)
qed

subsection \<open>The operations on contents\<close>

lemma contents_nth:
  "ring_len r \<le> length ring \<Longrightarrow> j < ring_len r \<Longrightarrow> contents r ring ! j = lg (ring_head r) ring ! j"
  by (simp add: contents_def)

lemma length_contents: "ring_len r \<le> length ring \<Longrightarrow> length (contents r ring) = ring_len r"
  by (simp add: contents_def)

lemma hd_contents:
  assumes "ring_head r < length ring" and "0 < ring_len r"
  shows "hd (contents r ring) = ring ! ring_head r"
proof -
  have "hd (contents r ring) = contents r ring ! 0"
    using assms by (intro hd_conv_nth) (auto simp: contents_def simp flip: length_0_conv)
  also have "\<dots> = lg (ring_head r) ring ! 0" using assms by (simp add: contents_def)
  also have "\<dots> = ring ! ring_head r" using assms by (subst lg_nth) auto
  finally show ?thesis .
qed

lemma insort_split:
  assumes "sorted xs" and "k \<le> length xs" and "\<forall>x \<in> set (take k xs). x \<le> base" and "\<forall>x \<in> set (drop k xs). (base :: int) < x"
  shows "insort base xs = take k xs @ base # drop k xs"
proof -
  have "sorted (take k xs @ base # drop k xs)"
    using assms by (fastforce simp: sorted_append sorted_wrt_take sorted_wrt_drop intro: less_imp_le)
  moreover have "mset (take k xs @ base # drop k xs) = mset (base # xs)"
    by (metis append_take_drop_id mset.simps(2) mset_append union_mset_add_mset_right)
  ultimately have "sort (base # xs) = take k xs @ base # drop k xs" by (metis properties_for_sort)
  with assms(1) show ?thesis by (simp add: sorted_sort_id)
qed

lemma reserve_contents:
  assumes ok: "ring_ok r ring" and room: "ring_len r < length ring"
    and res: "reserve ring base r = (b, r', ring')"
  shows "b \<and> length ring' = length ring \<and> ring_ok r' ring' \<and> contents r' ring' = insort base (contents r ring)"
proof -
  let ?head = "ring_head r" and ?len = "ring_len r" and ?xs = "contents r ring"
  have head: "?head < length ring" using ok room by (auto simp: ring_ok_def)
  have sorted: "sorted ?xs" using ok by (simp add: ring_ok_def)
  obtain ring1 k where up: "shift_up ring ?head base ?len = (ring1, k)" by fastforce
  from shift_up_spec [OF head room up] have len1: "length ring1 = length ring" and k: "k \<le> ?len"
    and nth1: "\<And>i. i < length ring \<Longrightarrow> lg ?head ring1 ! i =
      (if k < i \<and> i \<le> ?len then lg ?head ring ! (i - 1) else lg ?head ring ! i)"
    and above: "\<And>i. k \<le> i \<Longrightarrow> i < ?len \<Longrightarrow> base < lg ?head ring ! i"
    and below: "k > 0 \<Longrightarrow> lg ?head ring ! (k - 1) \<le> base" by auto
  have r': "b" "ring_head r' = ?head" "ring_len r' = ?len + 1"
      "ring' = ring1[phys ?head k (length ring) := base]" "ring_min r' = ring' ! ?head"
    using res head room up by (auto simp: reserve_def Let_def)
  have lg': "lg ?head ring' = (lg ?head ring1)[k := base]"
    unfolding r'(4) using head len1 k room by (metis lg_update order.strict_trans1)
  have len': "length ring' = length ring" using r'(4) len1 by simp
  have "contents r' ring' = take k ?xs @ base # drop k ?xs"
  proof (rule nth_equalityI)
    show "length (contents r' ring') = length (take k ?xs @ base # drop k ?xs)"
      using room k len' r'(3) by (simp add: contents_def)
    show "contents r' ring' ! i = (take k ?xs @ base # drop k ?xs) ! i" if "i < length (contents r' ring')" for i
    proof -
      have i: "i < ?len + 1" "i < length ring" using that room len' r'(3) by (auto simp: contents_def)
      then have "contents r' ring' ! i = (lg ?head ring1)[k := base] ! i"
        using lg' r'(2,3) by (simp add: contents_def)
      then show ?thesis
        using i nth1 [of i] k room len1
        by (cases i k rule: linorder_cases) (auto simp: contents_def nth_append nth_Cons' nth_list_update min_def)
    qed
  qed
  moreover have "insort base ?xs = take k ?xs @ base # drop k ?xs"
  proof (rule insort_split [OF sorted])
    show "k \<le> length ?xs" using k room by (simp add: contents_def)
    show "\<forall>x \<in> set (take k ?xs). x \<le> base"
    proof
      fix x assume "x \<in> set (take k ?xs)"
      then obtain i where i: "i < k" "x = ?xs ! i" using k room by (auto simp: in_set_conv_nth contents_def)
      then have "?xs ! i \<le> ?xs ! (k - 1)"
        using k room by (intro sorted_nth_mono [OF sorted]) (auto simp: contents_def)
      also have "\<dots> \<le> base" using below i k room by (simp add: contents_def)
      finally show "x \<le> base" using i by simp
    qed
    show "\<forall>x \<in> set (drop k ?xs). base < x"
      using above room by (auto simp: in_set_conv_nth contents_def)
  qed
  ultimately have con: "contents r' ring' = insort base ?xs" by simp
  moreover have "ring_min r' = hd (contents r' ring')"
    using r' len' room head by (simp add: hd_contents)
  ultimately show ?thesis
    using r' len' room head sorted by (auto simp: ring_ok_def sorted_insort)
qed

lemma reserve_full:
  "ring_ok r ring \<Longrightarrow> \<not> ring_len r < length ring \<Longrightarrow> reserve ring base r = (False, r, ring)"
  by (simp add: reserve_def Let_def)

lemma remove1_split:
  assumes "k < length xs" and "\<forall>i < k. xs ! i \<noteq> x" and "xs ! k = x"
  shows "remove1 x xs = take k xs @ drop (Suc k) xs"
proof -
  have "x \<notin> set (take k xs)" using assms by (auto simp: in_set_conv_nth)
  then have "remove1 x (take k xs @ xs ! k # drop (Suc k) xs) = take k xs @ drop (Suc k) xs"
    using assms(3) by (simp add: remove1_append)
  then show ?thesis using id_take_nth_drop [OF assms(1)] by simp
qed

text \<open>Both sides close the gap at \<open>k\<close>.\<close>

lemma close_gap_left:
  assumes head: "head < length ring" and k: "k < len" and len: "len \<le> length ring"
  shows "take (len - 1) (lg (phys head 1 (length ring)) (shift_right ring head k))
    = take k (lg head ring) @ drop (Suc k) (take len (lg head ring))"
proof (rule nth_equalityI)
  have spec: "length (shift_right ring head k) = length ring" "\<And>i. i < length ring \<Longrightarrow> lg head (shift_right ring head k) ! i =
      (if 0 < i \<and> i \<le> k then lg head ring ! (i - 1) else lg head ring ! i)"
    using shift_right_spec [OF head, of k] k len by auto
  show "length (take (len - 1) (lg (phys head 1 (length ring)) (shift_right ring head k)))
      = length (take k (lg head ring) @ drop (Suc k) (take len (lg head ring)))"
    using spec k len by simp
  fix i assume "i < length (take (len - 1) (lg (phys head 1 (length ring)) (shift_right ring head k)))"
  then have i: "i + 1 < len" using spec by auto
  then have "lg (phys head 1 (length ring)) (shift_right ring head k) ! i = lg head (shift_right ring head k) ! (i + 1)"
    using spec(1) len head phys_next [OF head, of i] by (simp add: lg_nth)
  then show "take (len - 1) (lg (phys head 1 (length ring)) (shift_right ring head k)) ! i
      = (take k (lg head ring) @ drop (Suc k) (take len (lg head ring))) ! i"
    using i spec(2) [of "i + 1"] k len by (auto simp: nth_append min_def)
qed

lemma close_gap_right:
  assumes head: "head < length ring" and k: "k < len" and len: "len \<le> length ring"
  shows "take (len - 1) (lg head (shift_left ring head k (len - 1)))
    = take k (lg head ring) @ drop (Suc k) (take len (lg head ring))"
proof (rule nth_equalityI)
  have spec: "length (shift_left ring head k (len - 1)) = length ring"
      "\<And>i. i < length ring \<Longrightarrow> lg head (shift_left ring head k (len - 1)) ! i =
      (if k \<le> i \<and> i < len - 1 then lg head ring ! (i + 1) else lg head ring ! i)"
    using shift_left_spec [OF head, of k "len - 1"] k len by auto
  show "length (take (len - 1) (lg head (shift_left ring head k (len - 1))))
      = length (take k (lg head ring) @ drop (Suc k) (take len (lg head ring)))"
    using spec k len by simp
  fix i assume "i < length (take (len - 1) (lg head (shift_left ring head k (len - 1))))"
  then have i: "i + 1 < len" using spec by auto
  then show "take (len - 1) (lg head (shift_left ring head k (len - 1))) ! i
      = (take k (lg head ring) @ drop (Suc k) (take len (lg head ring))) ! i"
    using spec(2) [of i] k len by (auto simp: nth_append min_def)
qed

lemma release_contents:
  assumes ok: "ring_ok r ring" and res: "release ring base r = (b, r', ring')"
  shows "length ring' = length ring \<and> ring_ok r' ring'
    \<and> (if base \<in> set (contents r ring) then b \<and> contents r' ring' = remove1 base (contents r ring)
       else \<not> b \<and> r' = r \<and> ring' = ring)"
proof (cases "ring_len r = 0")
  case True
  with ok res show ?thesis by (auto simp: release_def Let_def contents_def)
next
  case False
  let ?head = "ring_head r" and ?len = "ring_len r" and ?xs = "contents r ring"
  have len: "?len \<le> length ring" and head: "?head < length ring" and sorted: "sorted ?xs"
    using ok False by (auto simp: ring_ok_def)
  define k where "k = search ring ?head base 0 ?len"
  from search_spec [OF head len, of 0 ?len base] sorted
  have k: "k \<le> ?len" and below: "\<And>i. i < k \<Longrightarrow> lg ?head ring ! i < base"
    and above: "\<And>i. k \<le> i \<Longrightarrow> i < ?len \<Longrightarrow> base \<le> lg ?head ring ! i"
    by (auto simp: k_def contents_def)
  show ?thesis
  proof (cases "k < ?len \<and> lg ?head ring ! k = base")
    case found: True
    define head' ring1 where "head' = (if k < ?len div 2 then phys ?head 1 (length ring) else ?head)"
      and "ring1 = (if k < ?len div 2 then shift_right ring ?head k else shift_left ring ?head k (?len - 1))"
    have phys: "ring ! phys ?head k (length ring) = base" using found len lg_nth [of k ring ?head] by simp
    have out: "b" "ring' = ring1" "ring_len r' = ?len - 1"
        "?len - 1 > 0 \<Longrightarrow> ring_head r' = head' \<and> ring_min r' = ring1 ! head'" "?len - 1 = 0 \<Longrightarrow> ring_head r' = 0"
      using res found phys len head False
      by (auto simp: release_def Let_def k_def [symmetric] head'_def ring1_def ring_default_def split: if_splits)
    have len1: "length ring1 = length ring"
      using shift_right_spec [OF head, of k] shift_left_spec [OF head, of k "?len - 1"] found len
      by (auto simp: ring1_def)
    have head': "head' < length ring" unfolding head'_def using head by (auto simp: phys_def Let_def)
    have "take (?len - 1) (lg head' ring1) = take k ?xs @ drop (Suc k) ?xs"
      using close_gap_left [OF head _ len, of k] close_gap_right [OF head _ len, of k] found
      by (auto simp: head'_def ring1_def contents_def min_def)
    moreover have "remove1 base ?xs = take k ?xs @ drop (Suc k) ?xs"
    proof (rule remove1_split)
      show "\<forall>i < k. ?xs ! i \<noteq> base"
      proof (intro allI impI)
        fix i assume "i < k"
        with below [of i] found len show "?xs ! i \<noteq> base" by (simp add: contents_def)
      qed
    qed (use found len in \<open>simp_all add: contents_def\<close>)
    ultimately have con: "contents r' ring' = remove1 base ?xs"
      using out by (cases "?len - 1 = 0") (auto simp: contents_def)
    have "base \<in> set ?xs" using found len by (auto simp: contents_def in_set_conv_nth)
    moreover have "ring_ok r' ring'"
    proof -
      have "ring_head r' < length ring'"
        using out head' len1 head by (cases "?len - 1 > 0") auto
      moreover have "ring_min r' = hd (contents r' ring')" if "ring_len r' > 0"
        using that out calculation by (simp add: hd_contents)
      ultimately show ?thesis
        using out con len1 len sorted by (auto simp: ring_ok_def sorted_remove1)
    qed
    ultimately show ?thesis using out con len1 by simp
  next
    case missing: False
    have "base \<notin> set ?xs"
    proof
      assume "base \<in> set ?xs"
      then obtain i where i: "i < ?len" "lg ?head ring ! i = base" using len by (auto simp: contents_def in_set_conv_nth)
      then have "k \<le> i" using below by (metis less_irrefl not_le)
      then have "?xs ! k \<le> ?xs ! i" using i len by (intro sorted_nth_mono [OF sorted]) (auto simp: contents_def)
      with i \<open>k \<le> i\<close> above [of k] len have "lg ?head ring ! k = base" by (simp add: contents_def)
      with missing i \<open>k \<le> i\<close> show False by simp
    qed
    moreover have "release ring base r = (False, r, ring)"
      using missing k len head by (auto simp: release_def Let_def k_def [symmetric] lg_nth)
    ultimately show ?thesis using res ok by simp
  qed
qed

lemma floor_contents:
  assumes "ring_ok r ring"
  shows "floor r = (if contents r ring = [] then None else Some (Min (set (contents r ring))))"
proof (cases "contents r ring")
  case Nil
  then have "ring_len r = 0" using assms length_contents [of r ring] by (simp add: ring_ok_def)
  with Nil show ?thesis by (simp add: floor_def)
next
  case (Cons x xs)
  then have "ring_len r > 0" by (cases "ring_len r") (auto simp: contents_def)
  moreover have "Min (set (contents r ring)) = x"
    using assms Cons by (auto simp: ring_ok_def intro!: Min_eqI)
  ultimately show ?thesis using assms Cons by (simp add: floor_def ring_ok_def)
qed

lemma ring_default_ok: "ring_ok ring_default ring" and contents_default: "contents ring_default ring = []"
  by (auto simp: ring_ok_def ring_default_def contents_def)

subsection \<open>The contract of a reservation store\<close>

text \<open>What the log relies on: reservations form a multiset, a release takes out one reservation, and the
  floor is the lowest one outstanding. \<open>reserve_all\<close> is a run of reservations (\<open>True\<close>) and releases on
  the multiset itself.\<close>

definition reserve_all :: "nat \<Rightarrow> (bool \<times> int) list \<Rightarrow> int multiset \<Rightarrow> int multiset" where
  "reserve_all capacity = fold (\<lambda>(reserves, x) M.
     if reserves then if size M < capacity then add_mset x M else M else M - {#x#})"

locale reservations =
  fixes empty :: 's and add :: "int \<Rightarrow> 's \<Rightarrow> bool \<times> 's" and remove :: "int \<Rightarrow> 's \<Rightarrow> bool \<times> 's"
    and lowest :: "'s \<Rightarrow> int option" and invar :: "'s \<Rightarrow> bool" and held :: "'s \<Rightarrow> int multiset" and capacity :: nat
  assumes invar_empty: "invar empty" and held_empty: "held empty = {#}"
    and invar_add: "invar s \<Longrightarrow> invar (snd (add x s))"
    and add_accepts: "invar s \<Longrightarrow> fst (add x s) \<longleftrightarrow> size (held s) < capacity"
    and held_add: "invar s \<Longrightarrow> held (snd (add x s)) = (if size (held s) < capacity then add_mset x (held s) else held s)"
    and invar_remove: "invar s \<Longrightarrow> invar (snd (remove x s))"
    and remove_accepts: "invar s \<Longrightarrow> fst (remove x s) \<longleftrightarrow> x \<in># held s"
    and held_remove: "invar s \<Longrightarrow> held (snd (remove x s)) = held s - {#x#}"
    and lowest_held: "invar s \<Longrightarrow> lowest s = (if held s = {#} then None else Some (Min_mset (held s)))"
begin

abbreviation run :: "(bool \<times> int) list \<Rightarrow> 's \<Rightarrow> 's" where
  "run \<equiv> fold (\<lambda>(reserves, x) s. snd (if reserves then add x s else remove x s))"

lemma invar_run: "invar s \<Longrightarrow> invar (run ops s)"
  by (induction ops arbitrary: s) (auto simp: invar_add invar_remove)

lemma held_run: "invar s \<Longrightarrow> held (run ops s) = reserve_all capacity ops (held s)"
  by (induction ops arbitrary: s) (auto simp: reserve_all_def invar_add invar_remove held_add held_remove)

lemma lowest_run:
  "invar s \<Longrightarrow> lowest (run ops s) =
     (if reserve_all capacity ops (held s) = {#} then None else Some (Min_mset (reserve_all capacity ops (held s))))"
  using lowest_held [OF invar_run] held_run by simp

text \<open>Whatever was reserved and not released keeps the floor at or below it.\<close>

lemma floor_covers:
  assumes "invar s" and "x \<in># reserve_all capacity ops (held s)"
  shows "\<exists>f. lowest (run ops s) = Some f \<and> f \<le> x"
  using lowest_run [OF assms(1), of ops] assms(2) by (auto simp: Min_le)

end

text \<open>A ring with its header is such a store, with the capacity of the ring.\<close>

definition ring_add :: "int \<Rightarrow> pending_ring \<times> int list \<Rightarrow> bool \<times> (pending_ring \<times> int list)" where
  "ring_add x s = reserve (snd s) x (fst s)"

definition ring_remove :: "int \<Rightarrow> pending_ring \<times> int list \<Rightarrow> bool \<times> (pending_ring \<times> int list)" where
  "ring_remove x s = release (snd s) x (fst s)"

definition ring_held :: "pending_ring \<times> int list \<Rightarrow> int multiset" where
  "ring_held s = mset (contents (fst s) (snd s))"

definition ring_invar :: "nat \<Rightarrow> pending_ring \<times> int list \<Rightarrow> bool" where
  "ring_invar cap s \<longleftrightarrow> ring_ok (fst s) (snd s) \<and> length (snd s) = cap"

lemma size_ring_held: "ring_invar cap s \<Longrightarrow> size (ring_held s) = ring_len (fst s)"
  by (simp add: ring_invar_def ring_held_def length_contents ring_ok_def)

lemma ring_add_spec:
  assumes "ring_invar cap s"
  shows "ring_invar cap (snd (ring_add x s)) \<and> (fst (ring_add x s) \<longleftrightarrow> size (ring_held s) < cap)
    \<and> ring_held (snd (ring_add x s)) = (if size (ring_held s) < cap then add_mset x (ring_held s) else ring_held s)"
proof (cases "ring_len (fst s) < cap")
  case True
  obtain b r' ring' where eq: "reserve (snd s) x (fst s) = (b, r', ring')" by (cases "reserve (snd s) x (fst s)") auto
  from reserve_contents [OF _ _ eq] assms True size_ring_held [OF assms] eq show ?thesis
    by (simp add: ring_add_def ring_invar_def ring_held_def)
next
  case False
  with reserve_full assms size_ring_held [OF assms] show ?thesis
    by (simp add: ring_add_def ring_invar_def)
qed

lemma ring_remove_spec:
  assumes "ring_invar cap s"
  shows "ring_invar cap (snd (ring_remove x s)) \<and> (fst (ring_remove x s) \<longleftrightarrow> x \<in># ring_held s)
    \<and> ring_held (snd (ring_remove x s)) = ring_held s - {#x#}"
proof -
  obtain b r' ring' where eq: "release (snd s) x (fst s) = (b, r', ring')" by (cases "release (snd s) x (fst s)") auto
  from release_contents [OF _ eq] assms eq show ?thesis
    by (auto simp: ring_remove_def ring_invar_def ring_held_def split: if_splits)
qed

lemma ring_floor_spec:
  assumes "ring_invar cap s"
  shows "floor (fst s) = (if ring_held s = {#} then None else Some (Min_mset (ring_held s)))"
  using assms by (auto simp: floor_contents ring_invar_def ring_held_def)

lemma ring_empty_spec:
  "ring_invar cap (ring_default, replicate cap 0)" "ring_held (ring_default, replicate cap 0) = {#}"
  by (simp_all add: ring_invar_def ring_held_def ring_default_ok contents_default)

interpretation rings: reservations "(ring_default, replicate cap 0)" ring_add ring_remove
  "\<lambda>s. floor (fst s)" "ring_invar cap" ring_held cap for cap
  by unfold_locales (auto simp: ring_empty_spec ring_add_spec ring_remove_spec ring_floor_spec)

definition ring_run :: "(bool \<times> int) list \<Rightarrow> pending_ring \<times> int list \<Rightarrow> pending_ring \<times> int list" where
  "ring_run = fold (\<lambda>(reserves, x) s. snd (if reserves then ring_add x s else ring_remove x s))"

text \<open>C19: A ring is the multiset of its outstanding reservations. Whatever sequence of reservations and
  releases runs on it, in whatever order of bases and however it wraps, it holds exactly the multiset
  that sequence leaves, refusing a reservation only when its capacity is reached, and its floor is the
  lowest base outstanding.\<close>

theorem ring_refines_multiset:
  "ring_held (ring_run ops (ring_default, replicate cap 0)) = reserve_all cap ops {#}
   \<and> floor (fst (ring_run ops (ring_default, replicate cap 0))) =
       (if reserve_all cap ops {#} = {#} then None else Some (Min_mset (reserve_all cap ops {#})))"
  using rings.held_run [OF rings.invar_empty, of ops cap] rings.lowest_run [OF rings.invar_empty, of ops cap]
  unfolding ring_run_def rings.held_empty by (intro conjI)

end
