(* ===== verification/LogTables.thy ===== *)
theory LogTables
  imports Producer Errors
begin

text \<open>
  The partition tables (\<open>src/extension/src/storage/pmeta.rs\<close>, and their declarations in \<open>init010.rs\<close>,
  \<open>init020.rs\<close>, \<open>init030.rs\<close>, \<open>init050.rs\<close>, \<open>init090.rs\<close>): log positions, leader epochs, the produce markers, the
  partitions of open transactions and the index of aborted ones.

  A table is a list of rows, a statement a function on the record of all tables. The transaction and
  producer rows are those of \<open>Producer\<close>. Offsets and times are unbounded integers: a \<open>bigint\<close> offset
  would need \<open>2^63\<close> records to overflow. Record batches, epochs, ids and counts keep their widths.
\<close>

subsection \<open>Storage errors\<close>

datatype store_error =
    UnknownTopicOrPartition
  | OffsetOutOfRange
  | CorruptBatch
  | InvalidFetchSize
  | LeaderEpochUnsettled
  | StoreIo
  | NotImplemented

fun store_error_code :: "store_error \<Rightarrow> error_code" where
  "store_error_code UnknownTopicOrPartition = E_UnknownTopicOrPartition"
| "store_error_code OffsetOutOfRange = E_OffsetOutOfRange"
| "store_error_code CorruptBatch = E_CorruptMessage"
| "store_error_code InvalidFetchSize = E_InvalidFetchSize"
| "store_error_code LeaderEpochUnsettled = E_LeaderNotAvailable"
| "store_error_code StoreIo = E_KafkaStorageError"
| "store_error_code NotImplemented = E_UnknownServerError"

subsection \<open>Tables\<close>

text \<open>Of a topic's \<open>config\<close> the model keeps the two entries the log path reads: \<open>max.message.bytes\<close> as the
  number the statement casts it to, and \<open>cleanup.policy\<close>.\<close>

record topic_row =
  tr_topic_id :: u32
  tr_name :: bytes
  tr_num_partitions :: i32
  tr_uuid :: bytes
  tr_max_message_bytes :: "int option"
  tr_cleanup_policy :: "bytes option"

record partition_row =
  pt_topic :: u32
  pt_partition :: i32
  pt_next_offset :: int
  pt_log_start :: int
  pt_leader_epoch :: i32
  pt_epoch_start :: int

record log_row =
  lr_topic :: u32
  lr_partition :: i32
  lr_base :: int
  lr_last :: int
  lr_batch :: bytes
  lr_append_ts :: int
  lr_max_timestamp :: int
  lr_record_count :: i32
  lr_producer_id :: "i64 option"
  lr_producer_epoch :: "i16 option"
  lr_base_seq :: "i32 option"
  lr_leader_epoch :: i32
  lr_is_txn :: bool
  lr_is_control :: bool

text \<open>A segment row stands for one child table of the log, which holds the rows with a base offset in
  its range; its name is made of the topic, the partition and the index of the range.\<close>

record segment_row =
  sg_topic :: u32
  sg_partition :: i32
  sg_base :: int
  sg_end :: int
  sg_max_last :: int
  sg_max_append_ts :: int
  sg_bytes :: int

record epoch_row =
  ep_topic :: u32
  ep_partition :: i32
  ep_epoch :: i32
  ep_start :: int

record marker_row =
  mk_topic :: u32
  mk_partition :: i32
  mk_base :: int

record txn_partition_row =
  tp_producer_id :: i64
  tp_topic :: u32
  tp_partition :: i32
  tp_first_offset :: int

record aborted_row =
  ab_topic :: u32
  ab_partition :: i32
  ab_producer_id :: i64
  ab_first_offset :: int
  ab_last_offset :: int

record offset_row =
  of_group_id :: bytes
  of_topic :: u32
  of_partition :: i32
  of_committed_offset :: i64
  of_committed_leader_epoch :: i32
  of_metadata :: "bytes option"
  of_commit_ts :: int

record txn_offset_row =
  to_producer_id :: i64
  to_group_id :: bytes
  to_topic :: u32
  to_partition :: i32
  to_committed_offset :: i64
  to_committed_leader_epoch :: i32
  to_metadata :: "bytes option"

record log_db =
  lg_topic_id_seq :: int
  lg_topics :: "topic_row list"
  lg_partitions :: "partition_row list"
  lg_log :: "log_row list"
  lg_segments :: "segment_row list"
  lg_epochs :: "epoch_row list"
  lg_markers :: "marker_row list"
  lg_txn_partitions :: "txn_partition_row list"
  lg_aborted :: "aborted_row list"
  lg_txn_offsets :: "txn_offset_row list"
  lg_offsets :: "offset_row list"
  lg_producer :: producer_db

definition pt_at :: "u32 \<Rightarrow> i32 \<Rightarrow> partition_row \<Rightarrow> bool" where
  "pt_at topic part r \<longleftrightarrow> pt_topic r = topic \<and> pt_partition r = part"
definition lr_at :: "u32 \<Rightarrow> i32 \<Rightarrow> log_row \<Rightarrow> bool" where
  "lr_at topic part r \<longleftrightarrow> lr_topic r = topic \<and> lr_partition r = part"
definition sg_at :: "u32 \<Rightarrow> i32 \<Rightarrow> segment_row \<Rightarrow> bool" where
  "sg_at topic part r \<longleftrightarrow> sg_topic r = topic \<and> sg_partition r = part"
definition ep_at :: "u32 \<Rightarrow> i32 \<Rightarrow> epoch_row \<Rightarrow> bool" where
  "ep_at topic part r \<longleftrightarrow> ep_topic r = topic \<and> ep_partition r = part"
definition mk_at :: "u32 \<Rightarrow> i32 \<Rightarrow> marker_row \<Rightarrow> bool" where
  "mk_at topic part r \<longleftrightarrow> mk_topic r = topic \<and> mk_partition r = part"
definition tp_at :: "u32 \<Rightarrow> i32 \<Rightarrow> txn_partition_row \<Rightarrow> bool" where
  "tp_at topic part r \<longleftrightarrow> tp_topic r = topic \<and> tp_partition r = part"
definition ab_at :: "u32 \<Rightarrow> i32 \<Rightarrow> aborted_row \<Rightarrow> bool" where
  "ab_at topic part r \<longleftrightarrow> ab_topic r = topic \<and> ab_partition r = part"

lemmas at_defs = pt_at_def lr_at_def sg_at_def ep_at_def mk_at_def tp_at_def ab_at_def

text \<open>\<open>SELECT min(...)\<close> and \<open>max(...)\<close> are NULL over no rows.\<close>

definition sql_min :: "int list \<Rightarrow> int option" where
  "sql_min xs = (if xs = [] then None else Some (Min (set xs)))"
definition sql_max :: "int list \<Rightarrow> int option" where
  "sql_max xs = (if xs = [] then None else Some (Max (set xs)))"

subsection \<open>Topics\<close>

definition topic_id_by_name :: "bytes \<Rightarrow> log_db \<Rightarrow> u32 option" where
  "topic_id_by_name name db = map_option tr_topic_id (List.find (\<lambda>t. tr_name t = name) (lg_topics db))"

definition partition_count :: "u32 \<Rightarrow> log_db \<Rightarrow> i32" where
  "partition_count topic db =
     (case List.find (\<lambda>t. tr_topic_id t = topic) (lg_topics db) of None \<Rightarrow> 0 | Some t \<Rightarrow> tr_num_partitions t)"

subsection \<open>Positions and epochs\<close>

definition find_partition :: "u32 \<Rightarrow> i32 \<Rightarrow> log_db \<Rightarrow> store_error + partition_row" where
  "find_partition topic part db =
     (case List.find (pt_at topic part) (lg_partitions db) of
        None \<Rightarrow> Inl UnknownTopicOrPartition | Some r \<Rightarrow> Inr r)"

definition log_start_offset :: "u32 \<Rightarrow> i32 \<Rightarrow> log_db \<Rightarrow> store_error + int" where
  "log_start_offset topic part db = rbind (find_partition topic part db) (\<lambda>r. Inr (pt_log_start r))"

definition leader_epoch :: "u32 \<Rightarrow> i32 \<Rightarrow> log_db \<Rightarrow> store_error + i32" where
  "leader_epoch topic part db = rbind (find_partition topic part db) (\<lambda>r. Inr (pt_leader_epoch r))"

definition update_partition :: "u32 \<Rightarrow> i32 \<Rightarrow> (partition_row \<Rightarrow> partition_row) \<Rightarrow> log_db \<Rightarrow> log_db" where
  "update_partition topic part f db =
     db\<lparr>lg_partitions := map (\<lambda>r. if pt_at topic part r then f r else r) (lg_partitions db)\<rparr>"

definition pm_create_partition :: "u32 \<Rightarrow> i32 \<Rightarrow> i32 \<Rightarrow> log_db \<Rightarrow> log_db" where
  "pm_create_partition topic part epoch db =
     (let db = (if \<exists>r \<in> set (lg_partitions db). pt_at topic part r then db
                else db\<lparr>lg_partitions := lg_partitions db @ [\<lparr>pt_topic = topic, pt_partition = part,
                       pt_next_offset = 0, pt_log_start = 0, pt_leader_epoch = epoch, pt_epoch_start = 0\<rparr>]\<rparr>)
      in if \<exists>r \<in> set (lg_epochs db). ep_at topic part r \<and> ep_epoch r = epoch then db
         else db\<lparr>lg_epochs := lg_epochs db @ [\<lparr>ep_topic = topic, ep_partition = part,
                ep_epoch = epoch, ep_start = 0\<rparr>]\<rparr>)"

definition pm_drop_partition :: "u32 \<Rightarrow> i32 \<Rightarrow> log_db \<Rightarrow> log_db" where
  "pm_drop_partition topic part db =
     db\<lparr>lg_markers := filter (\<lambda>r. \<not> mk_at topic part r) (lg_markers db),
        lg_aborted := filter (\<lambda>r. \<not> ab_at topic part r) (lg_aborted db),
        lg_txn_partitions := filter (\<lambda>r. \<not> tp_at topic part r) (lg_txn_partitions db),
        lg_epochs := filter (\<lambda>r. \<not> ep_at topic part r) (lg_epochs db),
        lg_partitions := filter (\<lambda>r. \<not> pt_at topic part r) (lg_partitions db)\<rparr>"

text \<open>The collapse and upsert of one epoch entry. The \<open>DELETE\<close> takes only lower epochs, so it never
  removes the row the upsert updates.\<close>

definition assign_epoch :: "u32 \<Rightarrow> i32 \<Rightarrow> i32 \<Rightarrow> int \<Rightarrow> epoch_row list \<Rightarrow> epoch_row list" where
  "assign_epoch topic part epoch start rows =
     (let left = filter (\<lambda>r. \<not> (ep_at topic part r \<and> ep_start r \<ge> start \<and> sint (ep_epoch r) < sint epoch)) rows;
          this = (\<lambda>r. ep_at topic part r \<and> ep_epoch r = epoch)
      in if \<exists>r \<in> set left. this r
         then map (\<lambda>r. if this r then r\<lparr>ep_start := start\<rparr> else r) left
         else left @ [\<lparr>ep_topic = topic, ep_partition = part, ep_epoch = epoch, ep_start = start\<rparr>])"

definition record_epoch :: "u32 \<Rightarrow> i32 \<Rightarrow> i32 \<Rightarrow> int \<Rightarrow> log_db \<Rightarrow> log_db" where
  "record_epoch topic part epoch start db =
     (let db = update_partition topic part (\<lambda>r. r\<lparr>pt_leader_epoch := epoch, pt_epoch_start := start\<rparr>) db
      in db\<lparr>lg_epochs := assign_epoch topic part epoch start (lg_epochs db)\<rparr>)"

definition epoch_start_offset :: "u32 \<Rightarrow> i32 \<Rightarrow> i32 \<Rightarrow> log_db \<Rightarrow> int option" where
  "epoch_start_offset topic part epoch db =
     map_option ep_start (List.find (\<lambda>r. ep_at topic part r \<and> ep_epoch r = epoch) (lg_epochs db))"

definition matched_epoch :: "u32 \<Rightarrow> i32 \<Rightarrow> i32 \<Rightarrow> log_db \<Rightarrow> int option" where
  "matched_epoch topic part epoch db =
     sql_max (map (\<lambda>r. sint (ep_epoch r))
       (filter (\<lambda>r. ep_at topic part r \<and> sint (ep_epoch r) \<le> sint epoch) (lg_epochs db)))"

record epoch_end =
  ee_leader_epoch :: i32
  ee_end_offset :: int

definition pm_epoch_end_offset :: "u32 \<Rightarrow> i32 \<Rightarrow> i32 \<Rightarrow> store_error + int \<Rightarrow> log_db \<Rightarrow> store_error + epoch_end" where
  "pm_epoch_end_offset topic part epoch log_end db =
     rbind (leader_epoch topic part db) (\<lambda>current.
       if epoch = current
       then rbind log_end (\<lambda>e. Inr \<lparr>ee_leader_epoch = current, ee_end_offset = e\<rparr>)
       else if sint epoch > sint current
       then Inr \<lparr>ee_leader_epoch = - 1, ee_end_offset = - 1\<rparr>
       else case matched_epoch topic part epoch db of
              None \<Rightarrow> rbind (log_start_offset topic part db)
                        (\<lambda>s. Inr \<lparr>ee_leader_epoch = - 1, ee_end_offset = s\<rparr>)
            | Some matched \<Rightarrow>
                (case sql_min (map ep_start (filter (\<lambda>r. ep_at topic part r \<and> sint (ep_epoch r) > matched)
                        (lg_epochs db))) of
                   Some e \<Rightarrow> Inr \<lparr>ee_leader_epoch = word_of_int matched, ee_end_offset = e\<rparr>
                 | None \<Rightarrow> rbind log_end (\<lambda>e. Inr \<lparr>ee_leader_epoch = word_of_int matched, ee_end_offset = e\<rparr>)))"

definition partitions :: "u32 \<Rightarrow> log_db \<Rightarrow> i32 list" where
  "partitions topic db = sort_key sint (map pt_partition (filter (\<lambda>r. pt_topic r = topic) (lg_partitions db)))"

definition forget_aborted_below :: "u32 \<Rightarrow> i32 \<Rightarrow> int \<Rightarrow> log_db \<Rightarrow> log_db" where
  "forget_aborted_below topic part off db =
     db\<lparr>lg_aborted := filter (\<lambda>r. \<not> (ab_at topic part r \<and> ab_last_offset r < off)) (lg_aborted db)\<rparr>"

definition advance_log_start :: "u32 \<Rightarrow> i32 \<Rightarrow> int \<Rightarrow> log_db \<Rightarrow> log_db" where
  "advance_log_start topic part off db =
     forget_aborted_below topic part off
       (update_partition topic part (\<lambda>r. r\<lparr>pt_log_start := max (pt_log_start r) off\<rparr>) db)"

subsection \<open>Produce markers\<close>

definition MARKERS_PER_FETCH :: nat where "MARKERS_PER_FETCH = 65536"

text \<open>The rows come ascending and without repeats, base offset being part of the key, so their number is
  the size of the set built from them.\<close>

definition committed_markers :: "u32 \<Rightarrow> i32 \<Rightarrow> int \<Rightarrow> int \<Rightarrow> log_db \<Rightarrow> int list \<times> int" where
  "committed_markers topic part from_off to_off db =
     (let rows = take MARKERS_PER_FETCH (sort (map mk_base
            (filter (\<lambda>r. mk_at topic part r \<and> from_off \<le> mk_base r \<and> mk_base r < to_off) (lg_markers db))));
          highest = foldl max from_off rows
      in (rows, if length (remdups rows) < MARKERS_PER_FETCH then to_off else min (highest + 1) to_off))"

text \<open>\<open>finished\<close>: whether the snapshot sees the writer's transaction as over, which the database says.\<close>

definition marker_state :: "u32 \<Rightarrow> i32 \<Rightarrow> int \<Rightarrow> bool \<Rightarrow> log_db \<Rightarrow> bool \<times> bool" where
  "marker_state topic part base finished db =
     (\<exists>r \<in> set (lg_markers db). mk_at topic part r \<and> mk_base r = base, finished)"

subsection \<open>Kafka transactions\<close>

definition aborted_at :: "u32 \<Rightarrow> i32 \<Rightarrow> i64 \<Rightarrow> int \<Rightarrow> log_db \<Rightarrow> bool" where
  "aborted_at topic part pid off db \<longleftrightarrow>
     (\<exists>r \<in> set (lg_aborted db). ab_at topic part r \<and> ab_producer_id r = pid
        \<and> ab_first_offset r \<le> off \<and> off \<le> ab_last_offset r)"

definition kafka_txn_lso :: "u32 \<Rightarrow> i32 \<Rightarrow> log_db \<Rightarrow> int option" where
  "kafka_txn_lso topic part db =
     sql_min (map tp_first_offset
       (filter (\<lambda>p. tp_at topic part p \<and> tp_first_offset p \<ge> 0 \<and> has_open_txn (lg_producer db) (tp_producer_id p))
          (lg_txn_partitions db)))"

definition register_txn_partition :: "i64 \<Rightarrow> u32 \<Rightarrow> i32 \<Rightarrow> int \<Rightarrow> log_db \<Rightarrow> log_db" where
  "register_txn_partition pid topic part base db =
     (let this = (\<lambda>r. tp_producer_id r = pid \<and> tp_at topic part r) in
      if \<exists>r \<in> set (lg_txn_partitions db). this r
      then db\<lparr>lg_txn_partitions := map (\<lambda>r. if this r \<and> tp_first_offset r < 0
                then r\<lparr>tp_first_offset := base\<rparr> else r) (lg_txn_partitions db)\<rparr>
      else db\<lparr>lg_txn_partitions := lg_txn_partitions db @ [\<lparr>tp_producer_id = pid, tp_topic = topic,
                tp_partition = part, tp_first_offset = base\<rparr>]\<rparr>)"

definition stamp_txn_partition :: "i64 \<Rightarrow> u32 \<Rightarrow> i32 \<Rightarrow> int \<Rightarrow> log_db \<Rightarrow> log_db" where
  "stamp_txn_partition pid topic part base db =
     db\<lparr>lg_txn_partitions := map (\<lambda>r. if tp_producer_id r = pid \<and> tp_at topic part r \<and> tp_first_offset r < 0
          then r\<lparr>tp_first_offset := base\<rparr> else r) (lg_txn_partitions db)\<rparr>"

definition record_aborted_txn :: "u32 \<Rightarrow> i32 \<Rightarrow> i64 \<Rightarrow> int \<Rightarrow> int \<Rightarrow> log_db \<Rightarrow> log_db" where
  "record_aborted_txn topic part pid first_off last_off db =
     (let this = (\<lambda>r. ab_at topic part r \<and> ab_first_offset r = first_off) in
      if \<exists>r \<in> set (lg_aborted db). this r
      then db\<lparr>lg_aborted := map (\<lambda>r. if this r
                then r\<lparr>ab_last_offset := last_off, ab_producer_id := pid\<rparr> else r) (lg_aborted db)\<rparr>
      else db\<lparr>lg_aborted := lg_aborted db @ [\<lparr>ab_topic = topic, ab_partition = part, ab_producer_id = pid,
                ab_first_offset = first_off, ab_last_offset = last_off\<rparr>]\<rparr>)"

definition MAX_ABORTED_PER_FETCH :: nat where "MAX_ABORTED_PER_FETCH = 1000"

record aborted_txn =
  at_producer_id :: i64
  at_first_offset :: int

definition overlapping_aborts :: "u32 \<Rightarrow> i32 \<Rightarrow> int \<Rightarrow> int \<Rightarrow> log_db \<Rightarrow> aborted_row list" where
  "overlapping_aborts topic part from_off to_off db =
     sort_key ab_first_offset
       (filter (\<lambda>r. ab_at topic part r \<and> ab_last_offset r \<ge> from_off \<and> ab_first_offset r < to_off) (lg_aborted db))"

definition aborted_txns :: "u32 \<Rightarrow> i32 \<Rightarrow> int \<Rightarrow> int \<Rightarrow> log_db \<Rightarrow> aborted_txn list" where
  "aborted_txns topic part from_off to_off db =
     map (\<lambda>r. \<lparr>at_producer_id = ab_producer_id r, at_first_offset = ab_first_offset r\<rparr>)
       (take MAX_ABORTED_PER_FETCH (overlapping_aborts topic part from_off to_off db))"

end
