(* ===== verification/TableStore.thy ===== *)
theory TableStore
  imports LogTables RecordCodec
begin

text \<open>
  The table engine (\<open>src/extension/src/storage/table.rs\<close>) and the types of the storage boundary
  (\<open>src/extension/src/storage/mod.rs\<close>): append, read, retention, leader epochs, creating and dropping
  partitions. \<open>seg_size\<close> is the setting \<open>kafgres.segment_offsets\<close>, at least 1, and \<open>now\<close> the clock of the
  statement. The rows of a child table are the log rows whose base offset lies in its range, so
  \<open>DROP TABLE\<close> of a segment removes those rows. An \<open>INSERT\<close> that meets its primary key fails the
  statement: \<open>StoreIo\<close>.
\<close>

record raw_batch =
  rb_bytes :: bytes
  rb_record_count :: i32
  rb_last_offset_delta :: i32
  rb_max_timestamp :: i64
  rb_producer_id :: i64
  rb_producer_epoch :: i16
  rb_base_sequence :: i32
  rb_is_transactional :: bool
  rb_is_control :: bool

datatype isolation_level = ReadUncommitted | ReadCommitted

record fetch_slice =
  fs_bytes :: bytes
  fs_next_offset :: int
  fs_high_watermark :: int
  fs_log_start_offset :: int
  fs_last_stable_offset :: int
  fs_aborted :: "aborted_txn list"

record retention_policy =
  rp_retention_ms :: "int option"
  rp_retention_bytes :: "int option"

definition MAX_SEGMENT_DROPS :: nat where "MAX_SEGMENT_DROPS = 32"
definition READ_ROWS :: nat where "READ_ROWS = 1000"

subsection \<open>Segments\<close>

definition segment_index_of :: "int \<Rightarrow> int \<Rightarrow> int" where
  "segment_index_of off seg_size = off div seg_size"

definition ensure_segment :: "int \<Rightarrow> u32 \<Rightarrow> i32 \<Rightarrow> int \<Rightarrow> log_db \<Rightarrow> log_db" where
  "ensure_segment seg_size topic part off db =
     (let lo = segment_index_of off seg_size * seg_size; hi = lo + seg_size in
      if \<exists>s \<in> set (lg_segments db). sg_at topic part s \<and> sg_base s = lo then db
      else db\<lparr>lg_segments := lg_segments db @ [\<lparr>sg_topic = topic, sg_partition = part, sg_base = lo,
               sg_end = hi, sg_max_last = - 1, sg_max_append_ts = 0, sg_bytes = 0\<rparr>]\<rparr>)"

definition update_segment :: "u32 \<Rightarrow> i32 \<Rightarrow> int \<Rightarrow> (segment_row \<Rightarrow> segment_row) \<Rightarrow> log_db \<Rightarrow> log_db" where
  "update_segment topic part base f db =
     db\<lparr>lg_segments := map (\<lambda>s. if sg_at topic part s \<and> sg_base s = base then f s else s) (lg_segments db)\<rparr>"

definition in_segment :: "segment_row \<Rightarrow> log_row \<Rightarrow> bool" where
  "in_segment s r \<longleftrightarrow> lr_at (sg_topic s) (sg_partition s) r \<and> sg_base s \<le> lr_base r \<and> lr_base r < sg_end s"

definition drop_segment_table :: "segment_row \<Rightarrow> log_db \<Rightarrow> log_db" where
  "drop_segment_table s db = db\<lparr>lg_log := filter (\<lambda>r. \<not> in_segment s r) (lg_log db)\<rparr>"

subsection \<open>Append\<close>

definition row_exists :: "u32 \<Rightarrow> i32 \<Rightarrow> int \<Rightarrow> log_db \<Rightarrow> bool" where
  "row_exists topic part base db \<longleftrightarrow> (\<exists>r \<in> set (lg_log db). lr_at topic part r \<and> lr_base r = base)"

definition append :: "int \<Rightarrow> (bytes \<Rightarrow> u32) \<Rightarrow> int \<Rightarrow> u32 \<Rightarrow> i32 \<Rightarrow> raw_batch \<Rightarrow> log_db \<Rightarrow> store_error + (int \<times> log_db)" where
  "append seg_size crc now topic part batch db =
     rbind (find_partition topic part db) (\<lambda>row.
       let base_offset = pt_next_offset row;
           epoch = pt_leader_epoch row;
           last_offset = base_offset + sint (rb_last_offset_delta batch)
       in case validated crc (rb_bytes batch) of
            Inl _ \<Rightarrow> Inl CorruptBatch
          | Inr vb \<Rightarrow>
              let stored = stamped_bytes (stamp vb (word_of_int base_offset) epoch);
                  db = ensure_segment seg_size topic part base_offset db;
                  db = (if segment_index_of last_offset seg_size \<noteq> segment_index_of base_offset seg_size
                        then ensure_segment seg_size topic part last_offset db else db)
              in if row_exists topic part base_offset db then Inl StoreIo
                 else let db = db\<lparr>lg_log := lg_log db @ [\<lparr>lr_topic = topic, lr_partition = part,
                        lr_base = base_offset, lr_last = last_offset, lr_batch = stored, lr_append_ts = now,
                        lr_max_timestamp = sint (rb_max_timestamp batch), lr_record_count = rb_record_count batch,
                        lr_producer_id = Some (rb_producer_id batch), lr_producer_epoch = Some (rb_producer_epoch batch),
                        lr_base_seq = Some (rb_base_sequence batch), lr_leader_epoch = epoch,
                        lr_is_txn = rb_is_transactional batch, lr_is_control = rb_is_control batch\<rparr>]\<rparr>;
                      db = update_segment topic part (segment_index_of base_offset seg_size * seg_size)
                        (\<lambda>s. s\<lparr>sg_max_last := max (sg_max_last s) last_offset,
                              sg_max_append_ts := max (sg_max_append_ts s) now,
                              sg_bytes := sg_bytes s + int (length stored)\<rparr>) db;
                      db = update_partition topic part (\<lambda>r. r\<lparr>pt_next_offset := last_offset + 1\<rparr>) db
                   in Inr (base_offset, db))"

subsection \<open>Read\<close>

definition high_watermark :: "u32 \<Rightarrow> i32 \<Rightarrow> log_db \<Rightarrow> store_error + int" where
  "high_watermark topic part db = rbind (find_partition topic part db) (\<lambda>r. Inr (pt_next_offset r))"

definition stable_bound :: "u32 \<Rightarrow> i32 \<Rightarrow> int \<Rightarrow> log_db \<Rightarrow> int" where
  "stable_bound topic part hw db =
     (case kafka_txn_lso topic part db of
        Some off \<Rightarrow> if off \<ge> 0 then min off hw else hw
      | None \<Rightarrow> hw)"

definition last_stable_offset :: "u32 \<Rightarrow> i32 \<Rightarrow> log_db \<Rightarrow> store_error + int" where
  "last_stable_offset topic part db =
     rbind (high_watermark topic part db) (\<lambda>hw. Inr (stable_bound topic part hw db))"

definition read_from :: "u32 \<Rightarrow> i32 \<Rightarrow> int \<Rightarrow> log_db \<Rightarrow> int" where
  "read_from topic part off db =
     (case sql_max (map lr_base (filter (\<lambda>r. lr_at topic part r \<and> lr_base r \<le> off \<and> off \<le> lr_last r) (lg_log db))) of
        None \<Rightarrow> off | Some b \<Rightarrow> b)"

definition read_rows :: "u32 \<Rightarrow> i32 \<Rightarrow> int \<Rightarrow> int \<Rightarrow> log_db \<Rightarrow> log_row list" where
  "read_rows topic part off ceiling db =
     take READ_ROWS (sort_key lr_base
       (filter (\<lambda>r. lr_at topic part r \<and> read_from topic part off db \<le> lr_base r \<and> lr_base r < ceiling) (lg_log db)))"

fun collect_rows :: "nat \<Rightarrow> log_row list \<Rightarrow> bytes \<Rightarrow> int \<Rightarrow> bytes \<times> int" where
  "collect_rows max_bytes [] bytes next_offset = (bytes, next_offset)"
| "collect_rows max_bytes (r # rs) bytes next_offset =
     (if bytes \<noteq> [] \<and> length bytes + length (lr_batch r) > max_bytes then (bytes, next_offset)
      else let bytes = bytes @ lr_batch r; next_offset = lr_last r + 1 in
        if length bytes \<ge> max_bytes then (bytes, next_offset)
        else collect_rows max_bytes rs bytes next_offset)"

definition read :: "u32 \<Rightarrow> i32 \<Rightarrow> int \<Rightarrow> nat \<Rightarrow> isolation_level \<Rightarrow> log_db \<Rightarrow> store_error + fetch_slice" where
  "read topic part off max_bytes isolation db =
     rbind (high_watermark topic part db) (\<lambda>hw.
     rbind (log_start_offset topic part db) (\<lambda>log_start.
       let lso = stable_bound topic part hw db;
           ceiling = (case isolation of ReadCommitted \<Rightarrow> lso | ReadUncommitted \<Rightarrow> hw)
       in if off < log_start \<or> off > hw then Inl OffsetOutOfRange
          else let (bytes, next_offset) =
                     (if off < ceiling then collect_rows max_bytes (read_rows topic part off ceiling db) [] off
                      else ([], off));
                   aborted = (if off < ceiling \<and> isolation = ReadCommitted
                              then aborted_txns topic part off (max next_offset (off + 1)) db else [])
               in Inr \<lparr>fs_bytes = bytes, fs_next_offset = next_offset, fs_high_watermark = hw,
                       fs_log_start_offset = log_start, fs_last_stable_offset = lso, fs_aborted = aborted\<rparr>))"

subsection \<open>Lookups by time\<close>

definition saturating_add_i64 :: "i64 \<Rightarrow> i64 \<Rightarrow> int" where
  "saturating_add_i64 a b = max (- (2 ^ 63)) (min (2 ^ 63 - 1) (sint a + sint b))"

fun find_time :: "(int \<Rightarrow> bool) \<Rightarrow> i64 \<Rightarrow> (batch_error + record_ref) list \<Rightarrow> (record_ref \<times> int) option" where
  "find_time P base_ts [] = None"
| "find_time P base_ts (Inl e # rs) = None"
| "find_time P base_ts (Inr r # rs) =
     (let ts = saturating_add_i64 base_ts (rec_timestamp_delta r) in
      if P ts then Some (r, ts) else find_time P base_ts rs)"

definition time_records :: "codec_env \<Rightarrow> record_batch \<Rightarrow> (batch_error + record_ref) list" where
  "time_records env b = (case records_decompressed env b of Inl _ \<Rightarrow> [] | Inr it \<Rightarrow> record_iter_all env it)"

definition offset_of_max_timestamp :: "codec_env \<Rightarrow> bytes \<Rightarrow> (int \<times> int) option" where
  "offset_of_max_timestamp env bytes =
     (case record_batch_new bytes of
        Inl _ \<Rightarrow> None
      | Inr batch \<Rightarrow>
          let base = sint (base_offset batch); want = sint (max_timestamp batch) in
          (case find_time (\<lambda>ts. ts = want) (base_timestamp batch) (time_records env batch) of
             Some (r, ts) \<Rightarrow> Some (base + sint (rec_offset_delta r), want)
           | None \<Rightarrow> Some (base, want)))"

definition first_at_or_after :: "codec_env \<Rightarrow> bytes \<Rightarrow> int \<Rightarrow> (int \<times> int) option" where
  "first_at_or_after env bytes timestamp =
     (case record_batch_new bytes of
        Inl _ \<Rightarrow> None
      | Inr batch \<Rightarrow>
          let base = sint (base_offset batch) in
          (case find_time (\<lambda>ts. ts \<ge> timestamp) (base_timestamp batch) (time_records env batch) of
             Some (r, ts) \<Rightarrow> Some (base + sint (rec_offset_delta r), ts)
           | None \<Rightarrow> Some (base, sint (max_timestamp batch))))"

definition offset_for_timestamp :: "codec_env \<Rightarrow> u32 \<Rightarrow> i32 \<Rightarrow> int \<Rightarrow> log_db \<Rightarrow> (int \<times> int) option" where
  "offset_for_timestamp env topic part timestamp db =
     (case sort_key lr_base (filter (\<lambda>r. lr_at topic part r \<and> lr_max_timestamp r \<ge> timestamp) (lg_log db)) of
        [] \<Rightarrow> None
      | r # _ \<Rightarrow> first_at_or_after env (lr_batch r) timestamp)"

definition max_timestamp_offset :: "codec_env \<Rightarrow> u32 \<Rightarrow> i32 \<Rightarrow> log_db \<Rightarrow> (int \<times> int) option" where
  "max_timestamp_offset env topic part db =
     (case sort_key (\<lambda>r. - lr_max_timestamp r) (sort_key lr_base (filter (lr_at topic part) (lg_log db))) of
        [] \<Rightarrow> None
      | r # _ \<Rightarrow> offset_of_max_timestamp env (lr_batch r))"

definition partition_bytes :: "u32 \<Rightarrow> i32 \<Rightarrow> log_db \<Rightarrow> int" where
  "partition_bytes topic part db = sum_list (map sg_bytes (filter (sg_at topic part) (lg_segments db)))"

subsection \<open>Retention\<close>

definition doomed :: "u32 \<Rightarrow> i32 \<Rightarrow> int \<Rightarrow> log_db \<Rightarrow> segment_row list" where
  "doomed topic part target db =
     (case List.find (pt_at topic part) (lg_partitions db) of
        None \<Rightarrow> []
      | Some row \<Rightarrow> take MAX_SEGMENT_DROPS (sort_key sg_base
          (filter (\<lambda>s. sg_at topic part s \<and> sg_max_last s < target \<and> sg_end s \<le> pt_next_offset row)
             (lg_segments db))))"

definition drop_doomed :: "u32 \<Rightarrow> i32 \<Rightarrow> segment_row \<Rightarrow> log_db \<Rightarrow> log_db" where
  "drop_doomed topic part s db =
     (let db = drop_segment_table s db in
      db\<lparr>lg_segments := filter (\<lambda>q. \<not> (sg_at topic part q \<and> sg_base q = sg_base s)) (lg_segments db)\<rparr>)"

definition reclaim :: "u32 \<Rightarrow> i32 \<Rightarrow> int \<Rightarrow> log_db \<Rightarrow> store_error + (nat \<times> log_db)" where
  "reclaim topic part off db =
     rbind (log_start_offset topic part db) (\<lambda>start.
       if off \<le> start \<and> doomed topic part start db = [] then Inr (0, db)
       else let target = max off start;
                gone = doomed topic part target db;
                db = fold (drop_doomed topic part) gone db;
                db = update_partition topic part (\<lambda>r. r\<lparr>pt_log_start := target\<rparr>) db;
                db = forget_aborted_below topic part target db
            in Inr (length gone, db))"

definition truncate_below :: "u32 \<Rightarrow> i32 \<Rightarrow> int \<Rightarrow> log_db \<Rightarrow> store_error + log_db" where
  "truncate_below topic part off db = rbind (reclaim topic part off db) (\<lambda>(n, db). Inr db)"

fun cut_by_time :: "int \<Rightarrow> int \<Rightarrow> segment_row list \<Rightarrow> int" where
  "cut_by_time horizon cutoff [] = cutoff"
| "cut_by_time horizon cutoff (s # ss) =
     (if sg_max_append_ts s \<le> horizon then cut_by_time horizon (max cutoff (sg_max_last s + 1)) ss else cutoff)"

fun cut_by_bytes :: "int \<Rightarrow> int \<Rightarrow> segment_row list \<Rightarrow> int" where
  "cut_by_bytes over cutoff [] = cutoff"
| "cut_by_bytes over cutoff (s # ss) =
     (if over \<le> 0 then cutoff else cut_by_bytes (over - sg_bytes s) (max cutoff (sg_max_last s + 1)) ss)"

definition retention_cutoff :: "int \<Rightarrow> u32 \<Rightarrow> i32 \<Rightarrow> retention_policy \<Rightarrow> log_db \<Rightarrow> int" where
  "retention_cutoff now topic part policy db =
     (let next_offset = (case List.find (pt_at topic part) (lg_partitions db) of
             None \<Rightarrow> 0 | Some row \<Rightarrow> pt_next_offset row);
          segments = sort_key sg_base (filter (\<lambda>s. sg_at topic part s \<and> sg_end s \<le> next_offset) (lg_segments db))
      in if segments = [] then 0
         else let cutoff = (case rp_retention_ms policy of
                     None \<Rightarrow> 0 | Some ms \<Rightarrow> cut_by_time (now - ms) 0 segments)
              in case rp_retention_bytes policy of
                   None \<Rightarrow> cutoff
                 | Some budget \<Rightarrow> cut_by_bytes (partition_bytes topic part db - budget) cutoff segments)"

fun retain_each :: "int \<Rightarrow> u32 \<Rightarrow> retention_policy \<Rightarrow> i32 list \<Rightarrow> log_db \<Rightarrow> store_error + (nat \<times> log_db)" where
  "retain_each now topic policy [] db = Inr (0, db)"
| "retain_each now topic policy (p # ps) db =
     rbind (reclaim topic p (retention_cutoff now topic p policy db) db) (\<lambda>(n, db).
     rbind (retain_each now topic policy ps db) (\<lambda>(m, db). Inr (n + m, db)))"

definition enforce_retention :: "int \<Rightarrow> u32 \<Rightarrow> retention_policy \<Rightarrow> log_db \<Rightarrow> store_error + (nat \<times> log_db)" where
  "enforce_retention now topic policy db =
     (if rp_retention_ms policy = None \<and> rp_retention_bytes policy = None then Inr (0, db)
      else retain_each now topic policy
        (map pt_partition (filter (\<lambda>r. pt_topic r = topic) (lg_partitions db))) db)"

subsection \<open>Partitions and leader epochs\<close>

definition create_partition :: "int \<Rightarrow> u32 \<Rightarrow> i32 \<Rightarrow> i32 \<Rightarrow> log_db \<Rightarrow> log_db" where
  "create_partition seg_size topic part epoch db =
     ensure_segment seg_size topic part 0 (pm_create_partition topic part epoch db)"

definition drop_partition :: "u32 \<Rightarrow> i32 \<Rightarrow> log_db \<Rightarrow> log_db" where
  "drop_partition topic part db =
     (let db = pm_drop_partition topic part db;
          segments = filter (sg_at topic part) (lg_segments db);
          db = fold drop_segment_table segments db;
          db = db\<lparr>lg_segments := filter (\<lambda>s. \<not> sg_at topic part s) (lg_segments db),
                  lg_partitions := filter (\<lambda>r. \<not> pt_at topic part r) (lg_partitions db)\<rparr>
      in if filter (\<lambda>r. pt_topic r = topic) (lg_partitions db) = []
         then db\<lparr>lg_log := filter (\<lambda>r. lr_topic r \<noteq> topic) (lg_log db)\<rparr>
         else db)"

definition set_leader_epoch :: "u32 \<Rightarrow> i32 \<Rightarrow> i32 \<Rightarrow> log_db \<Rightarrow> store_error + (bool \<times> log_db)" where
  "set_leader_epoch topic part epoch db =
     rbind (find_partition topic part db) (\<lambda>row.
       if sint epoch \<le> sint (pt_leader_epoch row) then Inr (False, db)
       else let db = update_partition topic part
                  (\<lambda>r. r\<lparr>pt_leader_epoch := epoch, pt_epoch_start := pt_next_offset r\<rparr>) db
            in Inr (True, db\<lparr>lg_epochs := assign_epoch topic part epoch (pt_next_offset row) (lg_epochs db)\<rparr>))"

definition epoch_end_offset :: "u32 \<Rightarrow> i32 \<Rightarrow> i32 \<Rightarrow> log_db \<Rightarrow> store_error + epoch_end" where
  "epoch_end_offset topic part epoch db =
     rbind (leader_epoch topic part db) (\<lambda>current.
       if epoch = current
       then rbind (high_watermark topic part db) (\<lambda>e. Inr \<lparr>ee_leader_epoch = current, ee_end_offset = e\<rparr>)
       else if sint epoch > sint current
       then Inr \<lparr>ee_leader_epoch = - 1, ee_end_offset = - 1\<rparr>
       else case matched_epoch topic part epoch db of
              None \<Rightarrow> rbind (log_start_offset topic part db)
                        (\<lambda>s. Inr \<lparr>ee_leader_epoch = - 1, ee_end_offset = s\<rparr>)
            | Some matched \<Rightarrow>
                (case sort_key (\<lambda>r. sint (ep_epoch r))
                        (filter (\<lambda>r. ep_at topic part r \<and> sint (ep_epoch r) > matched) (lg_epochs db)) of
                   r # _ \<Rightarrow> Inr \<lparr>ee_leader_epoch = word_of_int matched, ee_end_offset = ep_start r\<rparr>
                 | [] \<Rightarrow> rbind (high_watermark topic part db)
                           (\<lambda>e. Inr \<lparr>ee_leader_epoch = word_of_int matched, ee_end_offset = e\<rparr>)))"

end
