(* ===== verification/Log_Invariant.thy ===== *)
theory Log_Invariant
  imports TableStore Step_System
begin

text \<open>
  What the tables of the table engine hold at all times. The log of a partition is abstractly the
  list of its batches by base offset, \<open>part_log\<close>; every operation of the engine is characterised on
  that list and shown to keep \<open>log_inv\<close>.
\<close>

definition part_log :: "u32 \<Rightarrow> i32 \<Rightarrow> log_db \<Rightarrow> log_row list" where
  "part_log topic part db = sort_key lr_base (filter (lr_at topic part) (lg_log db))"

definition stored_ok :: "(bytes \<Rightarrow> u32) \<Rightarrow> log_row \<Rightarrow> bool" where
  "stored_ok crc r \<longleftrightarrow>
     validated crc (lr_batch r) = Inr (ValidatedBatch (RecordBatch (lr_batch r)))
     \<and> base_offset (RecordBatch (lr_batch r)) = word_of_int (lr_base r)
     \<and> partition_leader_epoch (RecordBatch (lr_batch r)) = lr_leader_epoch r
     \<and> sint (last_offset_delta (RecordBatch (lr_batch r))) = lr_last r - lr_base r"

definition covers :: "segment_row \<Rightarrow> log_row \<Rightarrow> bool" where
  "covers s r \<longleftrightarrow> in_segment s r \<and> lr_last r \<le> sg_max_last s"

definition partitions_ok :: "partition_row list \<Rightarrow> bool" where
  "partitions_ok ps \<longleftrightarrow> distinct (map (\<lambda>r. (pt_topic r, pt_partition r)) ps)
     \<and> (\<forall>r \<in> set ps. 0 \<le> pt_log_start r \<and> pt_log_start r \<le> pt_next_offset r)"

definition segments_ok :: "int \<Rightarrow> segment_row list \<Rightarrow> bool" where
  "segments_ok seg_size ss \<longleftrightarrow> distinct (map (\<lambda>s. (sg_topic s, sg_partition s, sg_base s)) ss)
     \<and> (\<forall>s \<in> set ss. seg_size dvd sg_base s \<and> sg_end s = sg_base s + seg_size)"

definition row_ok :: "(bytes \<Rightarrow> u32) \<Rightarrow> log_db \<Rightarrow> log_row \<Rightarrow> bool" where
  "row_ok crc db r \<longleftrightarrow> 0 \<le> lr_base r \<and> stored_ok crc r
     \<and> (\<exists>p \<in> set (lg_partitions db). pt_at (lr_topic r) (lr_partition r) p \<and> lr_last r < pt_next_offset p)
     \<and> (\<exists>s \<in> set (lg_segments db). covers s r)"

definition segment_bounded :: "log_db \<Rightarrow> segment_row \<Rightarrow> bool" where
  "segment_bounded db s \<longleftrightarrow>
     (\<exists>p \<in> set (lg_partitions db). pt_at (sg_topic s) (sg_partition s) p \<and> sg_max_last s < pt_next_offset p)"

definition ascending :: "log_row list \<Rightarrow> bool" where
  "ascending rs \<longleftrightarrow> sorted_wrt (\<lambda>a b. lr_last a < lr_base b) rs"

definition log_inv :: "int \<Rightarrow> (bytes \<Rightarrow> u32) \<Rightarrow> log_db \<Rightarrow> bool" where
  "log_inv seg_size crc db \<longleftrightarrow>
     partitions_ok (lg_partitions db) \<and> segments_ok seg_size (lg_segments db)
     \<and> (\<forall>s \<in> set (lg_segments db). segment_bounded db s)
     \<and> (\<forall>r \<in> set (lg_log db). row_ok crc db r)
     \<and> (\<forall>topic part. ascending (part_log topic part db))"

subsection \<open>Tables\<close>

lemma set_part_log [simp]: "set (part_log topic part db) = {r \<in> set (lg_log db). lr_at topic part r}"
  by (auto simp: part_log_def)

lemma stored_ok_span: "stored_ok crc r \<Longrightarrow> lr_base r \<le> lr_last r"
  by (auto simp: stored_ok_def validated_Inr_iff batch_wf_iff)

lemma stored_ok_wf: "stored_ok crc r \<Longrightarrow> batch_wf (RecordBatch (lr_batch r))"
  by (auto simp: stored_ok_def validated_Inr_iff)

lemma stored_nonempty: "stored_ok crc r \<Longrightarrow> lr_batch r \<noteq> []"
  by (auto simp: stored_ok_def validated_Inr_iff batch_wf_iff)

lemma find_at_unique:
  assumes "distinct (map key xs)" and "x \<in> set xs" and "P x" and "\<And>y. P y \<Longrightarrow> key y = key x"
  shows "List.find P xs = Some x"
proof (cases "List.find P xs")
  case None
  then show ?thesis using assms(2,3) by (simp add: find_None_iff)
next
  case (Some y)
  then have y: "y \<in> set xs" "P y" by (auto simp: find_Some_iff)
  have "inj_on key (set xs)" using assms(1) by (simp add: distinct_map)
  then have "y = x" using y(1) assms(2) assms(4) [OF y(2)] by (simp only: inj_on_def)
  then show ?thesis using Some by simp
qed

lemma find_partition_iff:
  assumes "partitions_ok (lg_partitions db)"
  shows "find_partition topic part db = Inr p \<longleftrightarrow> p \<in> set (lg_partitions db) \<and> pt_at topic part p"
proof
  assume "find_partition topic part db = Inr p"
  then show "p \<in> set (lg_partitions db) \<and> pt_at topic part p"
    by (auto simp: find_partition_def find_Some_iff split: option.splits)
next
  assume "p \<in> set (lg_partitions db) \<and> pt_at topic part p"
  then have "List.find (pt_at topic part) (lg_partitions db) = Some p"
    using assms by (intro find_at_unique [where key = "\<lambda>r. (pt_topic r, pt_partition r)"])
      (auto simp: partitions_ok_def pt_at_def)
  then show "find_partition topic part db = Inr p" by (simp add: find_partition_def)
qed

lemma find_partition_Inl:
  "find_partition topic part db = Inl e \<longleftrightarrow>
     e = UnknownTopicOrPartition \<and> (\<forall>p \<in> set (lg_partitions db). \<not> pt_at topic part p)"
  by (auto simp: find_partition_def find_None_iff find_Some_iff split: option.splits)

lemma partitions_ok_update:
  assumes "partitions_ok ps" and "\<And>r. pt_topic (f r) = pt_topic r \<and> pt_partition (f r) = pt_partition r"
    and "\<And>r. r \<in> set ps \<Longrightarrow> P r \<Longrightarrow> 0 \<le> pt_log_start (f r) \<and> pt_log_start (f r) \<le> pt_next_offset (f r)"
  shows "partitions_ok (map (\<lambda>r. if P r then f r else r) ps)"
proof -
  have "map (\<lambda>r. (pt_topic r, pt_partition r)) (map (\<lambda>r. if P r then f r else r) ps)
      = map (\<lambda>r. (pt_topic r, pt_partition r)) ps"
    using assms(2) by simp
  moreover have "\<forall>r \<in> set (map (\<lambda>r. if P r then f r else r) ps). 0 \<le> pt_log_start r \<and> pt_log_start r \<le> pt_next_offset r"
    using assms(1,3) by (auto simp: partitions_ok_def)
  ultimately show ?thesis using assms(1) unfolding partitions_ok_def by (simp only: simp_thms)
qed

lemma segments_ok_update:
  assumes "segments_ok seg_size ss"
    and "\<And>s. sg_topic (f s) = sg_topic s \<and> sg_partition (f s) = sg_partition s
           \<and> sg_base (f s) = sg_base s \<and> sg_end (f s) = sg_end s"
  shows "segments_ok seg_size (map (\<lambda>s. if P s then f s else s) ss)"
proof -
  have "map (\<lambda>s. (sg_topic s, sg_partition s, sg_base s)) (map (\<lambda>s. if P s then f s else s) ss)
      = map (\<lambda>s. (sg_topic s, sg_partition s, sg_base s)) ss"
    using assms(2) by simp
  moreover have "\<forall>s \<in> set (map (\<lambda>s. if P s then f s else s) ss). seg_size dvd sg_base s \<and> sg_end s = sg_base s + seg_size"
    using assms by (auto simp: segments_ok_def)
  ultimately show ?thesis using assms(1) unfolding segments_ok_def by (simp only: simp_thms)
qed

lemma segments_ok_filter: "segments_ok seg_size ss \<Longrightarrow> segments_ok seg_size (filter P ss)"
  by (auto simp: segments_ok_def distinct_map inj_on_def)

lemma partitions_ok_filter: "partitions_ok ps \<Longrightarrow> partitions_ok (filter P ps)"
  by (auto simp: partitions_ok_def distinct_map inj_on_def)

subsection \<open>The log as a list\<close>

lemma insort_key_snoc: "f x \<le> f y \<Longrightarrow> insort_key f x (ys @ [y]) = insort_key f x ys @ [y]"
  by (induction ys) auto

lemma sort_key_snoc_max:
  assumes "\<forall>x \<in> set xs. f x \<le> f y"
  shows "sort_key f (xs @ [y]) = sort_key f xs @ [y]"
proof -
  have "foldr (insort_key f) xs (ys @ [y]) = foldr (insort_key f) xs ys @ [y]" for ys
    using assms by (induction xs) (auto simp: insort_key_snoc)
  from this [of "[]"] show ?thesis by (simp add: sort_key_def)
qed

lemma part_log_snoc:
  assumes "\<forall>x \<in> set (part_log topic part db). lr_base x \<le> lr_base r" and "lr_at topic part r"
  shows "part_log topic part (db\<lparr>lg_log := lg_log db @ [r]\<rparr>) = part_log topic part db @ [r]"
  using assms by (simp add: part_log_def sort_key_snoc_max)

lemma part_log_snoc_other:
  "\<not> lr_at topic part r \<Longrightarrow> part_log topic part (db\<lparr>lg_log := lg_log db @ [r]\<rparr>) = part_log topic part db"
  by (simp add: part_log_def)

lemma part_log_filter:
  "part_log topic part (db\<lparr>lg_log := filter P (lg_log db)\<rparr>) = filter P (part_log topic part db)"
  by (simp add: part_log_def filter_sort) (metis (no_types) conj_commute)

lemma part_log_cong: "lg_log db' = lg_log db \<Longrightarrow> part_log topic part db' = part_log topic part db"
  by (simp add: part_log_def)

lemma ascending_filter: "ascending rs \<Longrightarrow> ascending (filter P rs)"
  by (simp add: ascending_def sorted_wrt_filter)

lemma ascending_snoc: "ascending rs \<Longrightarrow> \<forall>a \<in> set rs. lr_last a < lr_base r \<Longrightarrow> ascending (rs @ [r])"
  by (simp add: ascending_def sorted_wrt_append)

lemma log_invD:
  assumes "log_inv seg_size crc db"
  shows log_inv_partitions: "partitions_ok (lg_partitions db)"
    and log_inv_segments: "segments_ok seg_size (lg_segments db)"
    and log_inv_bounded: "s \<in> set (lg_segments db) \<Longrightarrow> segment_bounded db s"
    and log_inv_row: "r \<in> set (lg_log db) \<Longrightarrow> row_ok crc db r"
    and log_inv_ascending: "ascending (part_log topic part db)"
  using assms by (simp_all add: log_inv_def)

lemma row_okD:
  assumes "row_ok crc db r"
  shows row_ok_base: "0 \<le> lr_base r" and row_ok_stored: "stored_ok crc r" and row_ok_span: "lr_base r \<le> lr_last r"
  using assms stored_ok_span by (auto simp: row_ok_def)

text \<open>A row stays well-formed when its partition and its segment survive, or grow.\<close>

lemma row_ok_mono:
  assumes "row_ok crc db r"
    and "\<And>p. p \<in> set (lg_partitions db) \<Longrightarrow> pt_at (lr_topic r) (lr_partition r) p \<Longrightarrow>
           \<exists>q \<in> set (lg_partitions db'). pt_at (lr_topic r) (lr_partition r) q \<and> pt_next_offset p \<le> pt_next_offset q"
    and "\<And>s. s \<in> set (lg_segments db) \<Longrightarrow> covers s r \<Longrightarrow> \<exists>q \<in> set (lg_segments db'). covers q r"
  shows "row_ok crc db' r"
proof -
  obtain p s where p: "p \<in> set (lg_partitions db)" "pt_at (lr_topic r) (lr_partition r) p" "lr_last r < pt_next_offset p"
    and s: "s \<in> set (lg_segments db)" "covers s r"
    using assms(1) unfolding row_ok_def by blast
  obtain q where q: "q \<in> set (lg_partitions db')" "pt_at (lr_topic r) (lr_partition r) q" "pt_next_offset p \<le> pt_next_offset q"
    using assms(2) p by blast
  then have "lr_last r < pt_next_offset q" using p(3) by simp
  with q(1,2) have "\<exists>p \<in> set (lg_partitions db'). pt_at (lr_topic r) (lr_partition r) p \<and> lr_last r < pt_next_offset p"
    by (intro bexI conjI)
  with assms(1) assms(3) [OF s] show ?thesis unfolding row_ok_def by (simp only: simp_thms)
qed

lemma log_inv_cong:
  assumes "log_inv seg_size crc db" and "lg_partitions db' = lg_partitions db"
    and "lg_segments db' = lg_segments db" and "lg_log db' = lg_log db"
  shows "log_inv seg_size crc db'"
  using assms by (simp add: log_inv_def row_ok_def segment_bounded_def part_log_def)

subsection \<open>Append\<close>

lemma ensure_segment_fields [simp]:
  "lg_topic_id_seq (ensure_segment seg_size topic part off db) = lg_topic_id_seq db"
  "lg_topics (ensure_segment seg_size topic part off db) = lg_topics db"
  "lg_partitions (ensure_segment seg_size topic part off db) = lg_partitions db"
  "lg_log (ensure_segment seg_size topic part off db) = lg_log db"
  "lg_epochs (ensure_segment seg_size topic part off db) = lg_epochs db"
  "lg_markers (ensure_segment seg_size topic part off db) = lg_markers db"
  "lg_txn_partitions (ensure_segment seg_size topic part off db) = lg_txn_partitions db"
  "lg_aborted (ensure_segment seg_size topic part off db) = lg_aborted db"
  "lg_txn_offsets (ensure_segment seg_size topic part off db) = lg_txn_offsets db"
  "lg_offsets (ensure_segment seg_size topic part off db) = lg_offsets db"
  "lg_producer (ensure_segment seg_size topic part off db) = lg_producer db"
  by (simp_all add: ensure_segment_def Let_def)

lemma ensure_segment_mono: "set (lg_segments db) \<subseteq> set (lg_segments (ensure_segment seg_size topic part off db))"
  by (auto simp: ensure_segment_def Let_def)

lemma ensure_segment_has:
  "\<exists>s \<in> set (lg_segments (ensure_segment seg_size topic part off db)).
     sg_at topic part s \<and> sg_base s = segment_index_of off seg_size * seg_size"
  by (auto simp: ensure_segment_def Let_def sg_at_def)

lemma ensure_segment_ok:
  "segments_ok seg_size (lg_segments db) \<Longrightarrow> segments_ok seg_size (lg_segments (ensure_segment seg_size topic part off db))"
  by (auto simp: ensure_segment_def Let_def segments_ok_def sg_at_def image_iff)

lemma segment_holds:
  assumes "0 < seg_size" and "segments_ok seg_size ss" and "s \<in> set ss"
    and "sg_base s = segment_index_of off seg_size * seg_size"
  shows "sg_base s \<le> off \<and> off < sg_end s"
proof -
  have "sg_end s = sg_base s + seg_size" using assms(2,3) by (simp add: segments_ok_def)
  moreover have "off div seg_size * seg_size + off mod seg_size = off" by (rule div_mult_mod_eq)
  moreover have "0 \<le> off mod seg_size" "off mod seg_size < seg_size" using assms(1) by simp_all
  ultimately show ?thesis using assms(4) unfolding segment_index_of_def by linarith
qed

definition appended_row :: "int \<Rightarrow> u32 \<Rightarrow> i32 \<Rightarrow> raw_batch \<Rightarrow> partition_row \<Rightarrow> log_row" where
  "appended_row now topic part batch p =
     \<lparr>lr_topic = topic, lr_partition = part, lr_base = pt_next_offset p,
      lr_last = pt_next_offset p + sint (rb_last_offset_delta batch),
      lr_batch = stamped_bytes (stamp (ValidatedBatch (RecordBatch (rb_bytes batch)))
                   (word_of_int (pt_next_offset p)) (pt_leader_epoch p)),
      lr_append_ts = now, lr_max_timestamp = sint (rb_max_timestamp batch), lr_record_count = rb_record_count batch,
      lr_producer_id = Some (rb_producer_id batch), lr_producer_epoch = Some (rb_producer_epoch batch),
      lr_base_seq = Some (rb_base_sequence batch), lr_leader_epoch = pt_leader_epoch p,
      lr_is_txn = rb_is_transactional batch, lr_is_control = rb_is_control batch\<rparr>"

definition grown_segments :: "int \<Rightarrow> u32 \<Rightarrow> i32 \<Rightarrow> log_row \<Rightarrow> log_db \<Rightarrow> segment_row list" where
  "grown_segments seg_size topic part r db =
     (let db = ensure_segment seg_size topic part (lr_base r) db;
          db = (if segment_index_of (lr_last r) seg_size \<noteq> segment_index_of (lr_base r) seg_size
                then ensure_segment seg_size topic part (lr_last r) db else db)
      in map (\<lambda>s. if sg_at topic part s \<and> sg_base s = segment_index_of (lr_base r) seg_size * seg_size
               then s\<lparr>sg_max_last := max (sg_max_last s) (lr_last r),
                      sg_max_append_ts := max (sg_max_append_ts s) (lr_append_ts r),
                      sg_bytes := sg_bytes s + int (length (lr_batch r))\<rparr> else s) (lg_segments db))"

definition append_effect :: "int \<Rightarrow> u32 \<Rightarrow> i32 \<Rightarrow> log_row \<Rightarrow> log_db \<Rightarrow> log_db" where
  "append_effect seg_size topic part r db =
     db\<lparr>lg_log := lg_log db @ [r], lg_segments := grown_segments seg_size topic part r db,
        lg_partitions := map (\<lambda>q. if pt_at topic part q then q\<lparr>pt_next_offset := lr_last r + 1\<rparr> else q)
          (lg_partitions db)\<rparr>"

lemma row_exists_ensure [simp]:
  "row_exists topic part base (ensure_segment seg_size topic' part' off db) = row_exists topic part base db"
  by (simp add: row_exists_def)

definition appendable :: "(bytes \<Rightarrow> u32) \<Rightarrow> raw_batch \<Rightarrow> bool" where
  "appendable crc batch \<longleftrightarrow> validated crc (rb_bytes batch) = Inr (ValidatedBatch (RecordBatch (rb_bytes batch)))
     \<and> rb_last_offset_delta batch = last_offset_delta (RecordBatch (rb_bytes batch))"

lemma append_corrupt: "validated crc (rb_bytes batch) = Inl e \<Longrightarrow> find_partition topic part db = Inr p \<Longrightarrow>
    append seg_size crc now topic part batch db = Inl CorruptBatch"
  by (simp add: append_def Let_def)

lemma append_unfold:
  assumes "find_partition topic part db = Inr p" and "validated crc (rb_bytes batch) = Inr vb"
    and "\<not> row_exists topic part (pt_next_offset p) db"
  shows "append seg_size crc now topic part batch db =
     Inr (pt_next_offset p, append_effect seg_size topic part (appended_row now topic part batch p) db)"
proof -
  have vb: "vb = ValidatedBatch (RecordBatch (rb_bytes batch))" using assms(2) by (simp add: validated_Inr_iff)
  show ?thesis
  proof (cases "segment_index_of (pt_next_offset p + sint (rb_last_offset_delta batch)) seg_size
      = segment_index_of (pt_next_offset p) seg_size")
    case True
    then show ?thesis
      using assms unfolding append_def Let_def vb
      by (simp add: appended_row_def append_effect_def grown_segments_def update_partition_def
          update_segment_def log_db.equality)
  next
    case False
    then show ?thesis
      using assms unfolding append_def Let_def vb
      by (simp add: appended_row_def append_effect_def grown_segments_def update_partition_def
          update_segment_def log_db.equality)
  qed
qed

lemma row_partition:
  assumes "log_inv seg_size crc db" and "r \<in> set (lg_log db)" and "lr_at topic part r"
    and "find_partition topic part db = Inr p"
  shows "lr_last r < pt_next_offset p"
proof -
  have ok: "partitions_ok (lg_partitions db)" using assms(1) by (rule log_inv_partitions)
  obtain q where q: "q \<in> set (lg_partitions db)" "pt_at (lr_topic r) (lr_partition r) q" "lr_last r < pt_next_offset q"
    using log_inv_row [OF assms(1,2)] unfolding row_ok_def by blast
  have "find_partition topic part db = Inr q"
    using q(1,2) assms(3) by (simp add: find_partition_iff [OF ok] lr_at_def)
  then show ?thesis using q(3) assms(4) by simp
qed

lemma no_clash:
  assumes "log_inv seg_size crc db" and "find_partition topic part db = Inr p"
  shows "\<not> row_exists topic part (pt_next_offset p) db"
proof
  assume "row_exists topic part (pt_next_offset p) db"
  then obtain r where r: "r \<in> set (lg_log db)" "lr_at topic part r" "lr_base r = pt_next_offset p"
    unfolding row_exists_def by blast
  then show False
    using row_partition [OF assms(1) r(1,2) assms(2)] row_ok_span [OF log_inv_row [OF assms(1) r(1)]] by simp
qed

lemma appended_row_fields [simp]:
  "lr_topic (appended_row now topic part batch p) = topic"
  "lr_partition (appended_row now topic part batch p) = part"
  "lr_base (appended_row now topic part batch p) = pt_next_offset p"
  "lr_last (appended_row now topic part batch p) = pt_next_offset p + sint (rb_last_offset_delta batch)"
  "lr_leader_epoch (appended_row now topic part batch p) = pt_leader_epoch p"
  "lr_producer_id (appended_row now topic part batch p) = Some (rb_producer_id batch)"
  "lr_is_txn (appended_row now topic part batch p) = rb_is_transactional batch"
  "lr_is_control (appended_row now topic part batch p) = rb_is_control batch"
  by (simp_all add: appended_row_def)

lemma appended_row_stored:
  assumes "appendable crc batch"
  shows "stored_ok crc (appended_row now topic part batch p)"
proof -
  let ?bs = "rb_bytes batch" and ?off = "word_of_int (pt_next_offset p)" and ?ep = "pt_leader_epoch p"
  have v: "validated crc ?bs = Inr (ValidatedBatch (RecordBatch ?bs))"
    and d: "rb_last_offset_delta batch = last_offset_delta (RecordBatch ?bs)"
    using assms by (simp_all add: appendable_def)
  then have len: "61 \<le> length ?bs" by (simp add: validated_Inr_iff batch_wf_iff)
  have "last_offset_delta (RecordBatch (stamped_bytes (stamp (ValidatedBatch (RecordBatch ?bs)) ?off ?ep)))
      = last_offset_delta (RecordBatch ?bs)"
    by (simp add: last_offset_delta_def batch_layout stamp_read_at_after [OF len])
  then show ?thesis
    using stamp_validated [OF v, of ?off ?ep] stamp_base_offset [OF len, of ?off ?ep]
      stamp_leader_epoch [OF len, of ?off ?ep]
    by (simp add: stored_ok_def appended_row_def stamped_view_def d)
qed

lemma appendable_delta: "appendable crc batch \<Longrightarrow> 0 \<le> sint (rb_last_offset_delta batch)"
  by (simp add: appendable_def validated_Inr_iff batch_wf_iff)

lemma grown_segments_ok:
  assumes "segments_ok seg_size (lg_segments db)"
  shows "segments_ok seg_size (grown_segments seg_size topic part r db)"
  using assms unfolding grown_segments_def Let_def
  by (intro segments_ok_update) (simp_all add: ensure_segment_ok)

lemma covers_grow: "covers s r \<Longrightarrow> sg_max_last s \<le> sg_max_last s' \<Longrightarrow> sg_topic s' = sg_topic s \<Longrightarrow>
    sg_partition s' = sg_partition s \<Longrightarrow> sg_base s' = sg_base s \<Longrightarrow> sg_end s' = sg_end s \<Longrightarrow> covers s' r"
  by (simp add: covers_def in_segment_def)

lemma grown_segments_cover:
  assumes "s \<in> set (lg_segments db)" and "covers s q"
  shows "\<exists>s' \<in> set (grown_segments seg_size topic part r db). covers s' q"
proof -
  let ?g = "\<lambda>s. if sg_at topic part s \<and> sg_base s = segment_index_of (lr_base r) seg_size * seg_size
               then s\<lparr>sg_max_last := max (sg_max_last s) (lr_last r),
                      sg_max_append_ts := max (sg_max_append_ts s) (lr_append_ts r),
                      sg_bytes := sg_bytes s + int (length (lr_batch r))\<rparr> else s"
  have "?g s \<in> set (grown_segments seg_size topic part r db)"
    using assms(1) ensure_segment_mono [of db seg_size topic part "lr_base r"]
      ensure_segment_mono [of "ensure_segment seg_size topic part (lr_base r) db" seg_size topic part "lr_last r"]
    unfolding grown_segments_def Let_def set_map by (intro imageI) auto
  moreover have "covers (?g s) q" using assms(2) by (rule covers_grow) simp_all
  ultimately show ?thesis by (rule rev_bexI)
qed

lemma grown_segments_new:
  assumes "0 < seg_size" and "segments_ok seg_size (lg_segments db)" and "lr_at topic part r"
  shows "\<exists>s \<in> set (grown_segments seg_size topic part r db). covers s r"
proof -
  let ?g = "\<lambda>s. if sg_at topic part s \<and> sg_base s = segment_index_of (lr_base r) seg_size * seg_size
               then s\<lparr>sg_max_last := max (sg_max_last s) (lr_last r),
                      sg_max_append_ts := max (sg_max_append_ts s) (lr_append_ts r),
                      sg_bytes := sg_bytes s + int (length (lr_batch r))\<rparr> else s"
  let ?d1 = "ensure_segment seg_size topic part (lr_base r) db"
  obtain s where s: "s \<in> set (lg_segments ?d1)" "sg_at topic part s" "sg_base s = segment_index_of (lr_base r) seg_size * seg_size"
    using ensure_segment_has [of seg_size topic part "lr_base r" db] by blast
  have "?g s \<in> set (grown_segments seg_size topic part r db)"
    using s(1) ensure_segment_mono [of ?d1 seg_size topic part "lr_last r"]
    unfolding grown_segments_def Let_def set_map by (intro imageI) auto
  moreover have "covers (?g s) r"
    using s segment_holds [OF assms(1) ensure_segment_ok [OF assms(2)] s(1,3)] assms(3)
    by (simp add: covers_def in_segment_def sg_at_def)
  ultimately show ?thesis by (rule rev_bexI)
qed

lemma append_effect_fields [simp]:
  "lg_log (append_effect seg_size topic part r db) = lg_log db @ [r]"
  "lg_segments (append_effect seg_size topic part r db) = grown_segments seg_size topic part r db"
  "lg_partitions (append_effect seg_size topic part r db) =
     map (\<lambda>q. if pt_at topic part q then q\<lparr>pt_next_offset := lr_last r + 1\<rparr> else q) (lg_partitions db)"
  "lg_topic_id_seq (append_effect seg_size topic part r db) = lg_topic_id_seq db"
  "lg_topics (append_effect seg_size topic part r db) = lg_topics db"
  "lg_epochs (append_effect seg_size topic part r db) = lg_epochs db"
  "lg_markers (append_effect seg_size topic part r db) = lg_markers db"
  "lg_txn_partitions (append_effect seg_size topic part r db) = lg_txn_partitions db"
  "lg_aborted (append_effect seg_size topic part r db) = lg_aborted db"
  "lg_txn_offsets (append_effect seg_size topic part r db) = lg_txn_offsets db"
  "lg_offsets (append_effect seg_size topic part r db) = lg_offsets db"
  "lg_producer (append_effect seg_size topic part r db) = lg_producer db"
  by (simp_all add: append_effect_def)

lemma append_effect_log:
  assumes "log_inv seg_size crc db" and "find_partition topic part db = Inr p" and "lr_at topic part r"
    and "lr_base r = pt_next_offset p"
  shows "part_log topic part (append_effect seg_size topic part r db) = part_log topic part db @ [r]"
proof -
  have "\<forall>x \<in> set (part_log topic part db). lr_base x \<le> lr_base r"
  proof
    fix x assume "x \<in> set (part_log topic part db)"
    then have x: "x \<in> set (lg_log db)" "lr_at topic part x" by simp_all
    then show "lr_base x \<le> lr_base r"
      using row_partition [OF assms(1) x assms(2)] row_ok_span [OF log_inv_row [OF assms(1) x(1)]] assms(4) by simp
  qed
  then show ?thesis using assms(3) by (simp add: part_log_def sort_key_snoc_max)
qed

lemma append_effect_other:
  "lr_at topic part r \<Longrightarrow> (topic', part') \<noteq> (topic, part) \<Longrightarrow>
     part_log topic' part' (append_effect seg_size topic part r db) = part_log topic' part' db"
  by (auto simp: part_log_def lr_at_def)

lemma segment_bounded_mono:
  assumes "segment_bounded db s"
    and "\<And>p. p \<in> set (lg_partitions db) \<Longrightarrow> pt_at (sg_topic s) (sg_partition s) p \<Longrightarrow>
           \<exists>q \<in> set (lg_partitions db'). pt_at (sg_topic s) (sg_partition s) q \<and> pt_next_offset p \<le> pt_next_offset q"
  shows "segment_bounded db' s"
proof -
  obtain p where p: "p \<in> set (lg_partitions db)" "pt_at (sg_topic s) (sg_partition s) p" "sg_max_last s < pt_next_offset p"
    using assms(1) unfolding segment_bounded_def by blast
  obtain q where q: "q \<in> set (lg_partitions db')" "pt_at (sg_topic s) (sg_partition s) q \<and> pt_next_offset p \<le> pt_next_offset q"
    using assms(2) [OF p(1,2)] by (rule bexE)
  have "pt_at (sg_topic s) (sg_partition s) q \<and> sg_max_last s < pt_next_offset q" using q(2) p(3) by simp
  with q(1) show ?thesis unfolding segment_bounded_def by (rule rev_bexI)
qed

lemma ensure_segment_new:
  "s \<in> set (lg_segments (ensure_segment seg_size topic part off db)) \<Longrightarrow>
     s \<in> set (lg_segments db) \<or> sg_at topic part s \<and> sg_max_last s = - 1"
  by (auto simp: ensure_segment_def Let_def sg_at_def split: if_splits)

lemma grown_segments_from:
  assumes "s \<in> set (grown_segments seg_size topic part r db)"
  obtains "s \<in> set (lg_segments db)"
  | q where "q \<in> set (lg_segments db)" and "sg_at topic part s" and "sg_topic s = sg_topic q"
      and "sg_partition s = sg_partition q" and "sg_max_last s = max (sg_max_last q) (lr_last r)"
  | "sg_at topic part s" and "sg_max_last s = - 1 \<or> sg_max_last s = max (- 1) (lr_last r)"
proof -
  let ?d1 = "ensure_segment seg_size topic part (lr_base r) db"
  let ?d2 = "if segment_index_of (lr_last r) seg_size \<noteq> segment_index_of (lr_base r) seg_size
     then ensure_segment seg_size topic part (lr_last r) ?d1 else ?d1"
  let ?hit = "\<lambda>s. sg_at topic part s \<and> sg_base s = segment_index_of (lr_base r) seg_size * seg_size"
  obtain q where q: "q \<in> set (lg_segments ?d2)" and s: "s = (if ?hit q
               then q\<lparr>sg_max_last := max (sg_max_last q) (lr_last r),
                      sg_max_append_ts := max (sg_max_append_ts q) (lr_append_ts r),
                      sg_bytes := sg_bytes q + int (length (lr_batch r))\<rparr> else q)"
    using assms unfolding grown_segments_def Let_def set_map by (rule imageE) blast
  have "q \<in> set (lg_segments db) \<or> sg_at topic part q \<and> sg_max_last q = - 1"
    using q ensure_segment_new [of q seg_size topic part "lr_last r" ?d1]
      ensure_segment_new [of q seg_size topic part "lr_base r" db] by (auto split: if_splits)
  then show thesis
  proof
    assume q: "q \<in> set (lg_segments db)"
    show thesis
    proof (cases "?hit q")
      case True
      then show thesis using s q by (intro that(2) [of q]) (simp_all add: sg_at_def)
    next
      case False
      then have "s = q" using s by argo
      then show thesis using q that(1) by simp
    qed
  next
    assume "sg_at topic part q \<and> sg_max_last q = - 1"
    then show thesis using s by (intro that(3)) (auto simp: sg_at_def)
  qed
qed

lemma append_effect_inv:
  assumes inv: "log_inv seg_size crc db" and sz: "0 < seg_size" and p: "find_partition topic part db = Inr p"
    and r: "lr_at topic part r" "lr_base r = pt_next_offset p" "stored_ok crc r"
  shows "log_inv seg_size crc (append_effect seg_size topic part r db)"
proof -
  let ?db = "append_effect seg_size topic part r db"
  have pok: "partitions_ok (lg_partitions db)" using inv by (rule log_inv_partitions)
  have pin: "p \<in> set (lg_partitions db)" "pt_at topic part p" using p by (simp_all add: find_partition_iff [OF pok])
  have span: "lr_base r \<le> lr_last r" using r(3) by (rule stored_ok_span)
  have uniq: "q = p" if "q \<in> set (lg_partitions db)" "pt_at topic part q" for q
    using that p find_partition_iff [OF pok, of topic part q] by simp
  have p0: "0 \<le> pt_log_start p" "pt_log_start p \<le> pt_next_offset p" using pok pin(1) by (simp_all add: partitions_ok_def)
  have parts: "partitions_ok (lg_partitions ?db)"
  proof -
    have "0 \<le> pt_log_start q \<and> pt_log_start q \<le> lr_last r + 1" if "q \<in> set (lg_partitions db)" "pt_at topic part q" for q
      using uniq [OF that] p0 r(2) span by simp
    then show ?thesis unfolding append_effect_fields by (intro partitions_ok_update [OF pok]) simp_all
  qed
  have segs: "segments_ok seg_size (lg_segments ?db)"
    using grown_segments_ok [OF log_inv_segments [OF inv]] by simp
  have grow: "\<exists>b \<in> set (lg_partitions ?db). pt_at t q b \<and> pt_next_offset a \<le> pt_next_offset b"
    if a: "a \<in> set (lg_partitions db)" "pt_at t q a" for a t q
  proof -
    let ?a = "if pt_at topic part a then a\<lparr>pt_next_offset := lr_last r + 1\<rparr> else a"
    have "?a \<in> set (lg_partitions ?db)" using a(1) by simp
    moreover have "pt_at t q ?a" using a(2) by (simp add: pt_at_def)
    moreover have "pt_next_offset a \<le> pt_next_offset ?a"
      using uniq [OF a(1)] r(2) span by (cases "pt_at topic part a") simp_all
    ultimately show ?thesis by (intro rev_bexI) simp_all
  qed
  have here: "segment_bounded ?db s" if "sg_at topic part s" "sg_max_last s \<le> lr_last r" for s
  proof -
    let ?p = "p\<lparr>pt_next_offset := lr_last r + 1\<rparr>"
    have "?p \<in> set (lg_partitions ?db)" using pin by (auto intro!: image_eqI [of _ _ p])
    moreover have "pt_at (sg_topic s) (sg_partition s) ?p \<and> sg_max_last s < pt_next_offset ?p"
      using pin(2) that by (simp add: at_defs)
    ultimately show ?thesis unfolding segment_bounded_def by (rule rev_bexI)
  qed
  have bounded: "\<forall>s \<in> set (lg_segments ?db). segment_bounded ?db s"
    unfolding append_effect_fields
  proof
    fix s assume "s \<in> set (grown_segments seg_size topic part r db)"
    then show "segment_bounded ?db s"
    proof (cases rule: grown_segments_from)
      case 1
      then show ?thesis using segment_bounded_mono [OF log_inv_bounded [OF inv] grow] by blast
    next
      case (2 q)
      obtain a where a: "a \<in> set (lg_partitions db)" "pt_at (sg_topic q) (sg_partition q) a" "sg_max_last q < pt_next_offset a"
        using log_inv_bounded [OF inv 2(1)] unfolding segment_bounded_def by blast
      then have "a = p" using 2 uniq by (simp add: sg_at_def)
      then show ?thesis using a(3) 2 r(2) span by (intro here) simp_all
    next
      case 3
      then show ?thesis using r(2) span p0 by (intro here) auto
    qed
  qed
  have new: "row_ok crc ?db r"
  proof -
    let ?p = "p\<lparr>pt_next_offset := lr_last r + 1\<rparr>"
    have "?p \<in> set (lg_partitions ?db)" using pin by (auto intro!: image_eqI [of _ _ p])
    moreover have "pt_at (lr_topic r) (lr_partition r) ?p \<and> lr_last r < pt_next_offset ?p"
      using pin(2) r(1) by (simp add: at_defs)
    ultimately have "\<exists>q \<in> set (lg_partitions ?db). pt_at (lr_topic r) (lr_partition r) q \<and> lr_last r < pt_next_offset q"
      by (rule rev_bexI)
    moreover have "\<exists>s \<in> set (lg_segments ?db). covers s r"
      using grown_segments_new [OF sz log_inv_segments [OF inv] r(1)] by simp
    moreover have "0 \<le> lr_base r" using r(2) p0 by simp
    ultimately show ?thesis using r(3) unfolding row_ok_def by (intro conjI)
  qed
  have old: "row_ok crc ?db q" if "q \<in> set (lg_log db)" for q
  proof (rule row_ok_mono [OF log_inv_row [OF inv that]])
    fix a assume "a \<in> set (lg_partitions db)" "pt_at (lr_topic q) (lr_partition q) a"
    then show "\<exists>b \<in> set (lg_partitions ?db). pt_at (lr_topic q) (lr_partition q) b \<and> pt_next_offset a \<le> pt_next_offset b"
      by (rule grow)
  next
    fix s assume "s \<in> set (lg_segments db)" "covers s q"
    then show "\<exists>s' \<in> set (lg_segments ?db). covers s' q" unfolding append_effect_fields by (rule grown_segments_cover)
  qed
  have asc: "ascending (part_log t q ?db)" for t q
  proof (cases "(t, q) = (topic, part)")
    case True
    then have tq: "t = topic" "q = part" by simp_all
    have "\<forall>a \<in> set (part_log topic part db). lr_last a < lr_base r"
      using row_partition [OF inv _ _ p] r(2) by simp
    then show ?thesis
      using ascending_snoc [OF log_inv_ascending [OF inv]] unfolding tq append_effect_log [OF inv p r(1,2)] by simp
  next
    case False
    then show ?thesis using append_effect_other [OF r(1) False] log_inv_ascending [OF inv] by simp
  qed
  show ?thesis unfolding log_inv_def using parts segs bounded new old asc by simp
qed

text \<open>Appending a valid batch to an existing partition always succeeds, at the high watermark.\<close>

lemma append_spec:
  assumes "log_inv seg_size crc db" and "0 < seg_size" and "find_partition topic part db = Inr p" and "appendable crc batch"
  shows "append seg_size crc now topic part batch db =
       Inr (pt_next_offset p, append_effect seg_size topic part (appended_row now topic part batch p) db)"
    and "log_inv seg_size crc (append_effect seg_size topic part (appended_row now topic part batch p) db)"
    and "part_log topic part (append_effect seg_size topic part (appended_row now topic part batch p) db) =
       part_log topic part db @ [appended_row now topic part batch p]"
proof -
  have at: "lr_at topic part (appended_row now topic part batch p)" by (simp add: lr_at_def)
  have v: "validated crc (rb_bytes batch) = Inr (ValidatedBatch (RecordBatch (rb_bytes batch)))"
    using assms(4) by (simp add: appendable_def)
  show "append seg_size crc now topic part batch db =
       Inr (pt_next_offset p, append_effect seg_size topic part (appended_row now topic part batch p) db)"
    by (rule append_unfold [OF assms(3) v no_clash [OF assms(1,3)]])
  show "log_inv seg_size crc (append_effect seg_size topic part (appended_row now topic part batch p) db)"
    by (rule append_effect_inv [OF assms(1-3) at _ appended_row_stored [OF assms(4)]]) simp
  show "part_log topic part (append_effect seg_size topic part (appended_row now topic part batch p) db) =
       part_log topic part db @ [appended_row now topic part batch p]"
    by (rule append_effect_log [OF assms(1,3) at]) simp
qed

lemma append_cases:
  assumes "log_inv seg_size crc db" and "append seg_size crc now topic part batch db = Inr (off, db')"
  obtains p where "find_partition topic part db = Inr p"
    and "validated crc (rb_bytes batch) = Inr (ValidatedBatch (RecordBatch (rb_bytes batch)))"
    and "off = pt_next_offset p" and "db' = append_effect seg_size topic part (appended_row now topic part batch p) db"
proof -
  obtain p where p: "find_partition topic part db = Inr p"
    using assms(2) by (cases "find_partition topic part db") (simp_all add: append_def)
  obtain vb where vb: "validated crc (rb_bytes batch) = Inr vb"
    using assms(2) append_corrupt [OF _ p] by (cases "validated crc (rb_bytes batch)") simp_all
  show thesis
    using that [OF p] assms(2) vb append_unfold [OF p vb no_clash [OF assms(1) p]] by (simp add: validated_Inr_iff)
qed

subsection \<open>Reclaiming segments\<close>

definition spared :: "segment_row list \<Rightarrow> log_row \<Rightarrow> bool" where
  "spared gone r \<longleftrightarrow> (\<forall>s \<in> set gone. \<not> in_segment s r)"

lemma fold_drop_doomed:
  "fold (drop_doomed topic part) gone db =
     db\<lparr>lg_log := filter (spared gone) (lg_log db),
        lg_segments := filter (\<lambda>q. \<forall>s \<in> set gone. \<not> (sg_at topic part q \<and> sg_base q = sg_base s)) (lg_segments db)\<rparr>"
proof (induction gone arbitrary: db)
  case Nil
  have "spared [] = (\<lambda>r. True)" by (simp add: spared_def fun_eq_iff)
  then show ?case by simp
next
  case (Cons s gone)
  show ?case
    by (simp add: Cons.IH) (simp add: drop_doomed_def drop_segment_table_def Let_def spared_def [abs_def] conj_commute imp_conjR)
qed

lemma dvd_same_range:
  fixes a b x n :: int
  assumes "n dvd a" and "n dvd b" and "a \<le> x" and "x < a + n" and "b \<le> x" and "x < b + n"
  shows "a = b"
proof -
  obtain i j where ij: "a = n * i" "b = n * j" using assms(1,2) by (auto elim!: dvdE)
  have "n * i < n * (j + 1)" "n * j < n * (i + 1)" "0 < n" using assms ij by (simp_all add: algebra_simps)
  then have "i < j + 1" "j < i + 1" by (simp_all add: mult_less_cancel_left)
  then show ?thesis using ij by simp
qed

lemma segment_unique:
  assumes "segments_ok seg_size ss" and "s \<in> set ss" and "q \<in> set ss" and "in_segment s r" and "in_segment q r"
  shows "s = q"
proof -
  have "sg_base s = sg_base q"
    using assms by (intro dvd_same_range [of seg_size _ _ "lr_base r"]) (simp_all add: segments_ok_def in_segment_def)
  moreover have "sg_topic s = sg_topic q" "sg_partition s = sg_partition q"
    using assms(4,5) by (simp_all add: in_segment_def lr_at_def)
  moreover have "inj_on (\<lambda>s. (sg_topic s, sg_partition s, sg_base s)) (set ss)"
    using assms(1) by (simp add: segments_ok_def distinct_map)
  ultimately show ?thesis using assms(2,3) by (simp add: inj_on_def)
qed

lemma doomed_set:
  "s \<in> set (doomed topic part target db) \<Longrightarrow> s \<in> set (lg_segments db) \<and> sg_at topic part s \<and> sg_max_last s < target"
  by (auto simp: doomed_def split: option.splits dest!: in_set_takeD)

lemma spared_above:
  assumes "log_inv seg_size crc db" and "r \<in> set (lg_log db)" and "target \<le> lr_last r"
  shows "spared (doomed topic part target db) r"
  unfolding spared_def
proof (intro ballI notI)
  fix s assume s: "s \<in> set (doomed topic part target db)" and "in_segment s r"
  obtain q where q: "q \<in> set (lg_segments db)" "covers q r"
    using log_inv_row [OF assms(1,2)] unfolding row_ok_def by blast
  have "in_segment q r" using q(2) by (simp add: covers_def)
  then have "s = q"
    using doomed_set [OF s] q(1) \<open>in_segment s r\<close> segment_unique [OF log_inv_segments [OF assms(1)]] by blast
  then show False using doomed_set [OF s] q assms(3) by (simp add: covers_def)
qed

lemma spared_other: "\<not> lr_at topic part r \<Longrightarrow> spared (doomed topic part target db) r"
  unfolding spared_def by (auto dest!: doomed_set simp: sg_at_def in_segment_def)

lemma spared_cover:
  assumes "segments_ok seg_size (lg_segments db)" and "spared gone r" and "s \<in> set (lg_segments db)" and "covers s r"
    and "\<forall>g \<in> set gone. g \<in> set (lg_segments db) \<and> sg_at topic part g"
  shows "s \<in> set (filter (\<lambda>q. \<forall>s \<in> set gone. \<not> (sg_at topic part q \<and> sg_base q = sg_base s)) (lg_segments db))"
proof -
  have "\<not> (sg_at topic part s \<and> sg_base s = sg_base g)" if g: "g \<in> set gone" for g
  proof
    assume a: "sg_at topic part s \<and> sg_base s = sg_base g"
    have "inj_on (\<lambda>s. (sg_topic s, sg_partition s, sg_base s)) (set (lg_segments db))"
      using assms(1) by (simp add: segments_ok_def distinct_map)
    then have "s = g" using a assms(3,5) g by (simp add: inj_on_def sg_at_def)
    then show False using assms(2,4) g by (simp add: spared_def covers_def)
  qed
  then show ?thesis using assms(3) by simp
qed

definition reclaim_effect :: "u32 \<Rightarrow> i32 \<Rightarrow> int \<Rightarrow> segment_row list \<Rightarrow> log_db \<Rightarrow> log_db" where
  "reclaim_effect topic part target gone db =
     forget_aborted_below topic part target (update_partition topic part (\<lambda>r. r\<lparr>pt_log_start := target\<rparr>)
       (fold (drop_doomed topic part) gone db))"

lemma reclaim_cases:
  assumes "partitions_ok (lg_partitions db)" and "reclaim topic part off db = Inr (n, db')"
  obtains p where "find_partition topic part db = Inr p" and "off \<le> pt_log_start p" and "db' = db" and "n = 0"
  | p where "find_partition topic part db = Inr p"
      and "db' = reclaim_effect topic part (max off (pt_log_start p)) (doomed topic part (max off (pt_log_start p)) db) db"
      and "n = length (doomed topic part (max off (pt_log_start p)) db)"
proof -
  obtain p where p: "find_partition topic part db = Inr p"
    using assms(2) by (cases "find_partition topic part db") (simp_all add: reclaim_def log_start_offset_def)
  show thesis
  proof (cases "off \<le> pt_log_start p \<and> doomed topic part (pt_log_start p) db = []")
    case True
    then show ?thesis using that(1) [OF p] assms(2) p by (simp add: reclaim_def log_start_offset_def)
  next
    case False
    then show ?thesis
      using that(2) [OF p] assms(2) p by (simp add: reclaim_def log_start_offset_def Let_def reclaim_effect_def split: if_splits)
  qed
qed

lemma reclaim_effect_fields [simp]:
  "lg_log (reclaim_effect topic part target gone db) = filter (spared gone) (lg_log db)"
  "lg_segments (reclaim_effect topic part target gone db) =
     filter (\<lambda>q. \<forall>s \<in> set gone. \<not> (sg_at topic part q \<and> sg_base q = sg_base s)) (lg_segments db)"
  "lg_partitions (reclaim_effect topic part target gone db) =
     map (\<lambda>r. if pt_at topic part r then r\<lparr>pt_log_start := target\<rparr> else r) (lg_partitions db)"
  "lg_aborted (reclaim_effect topic part target gone db) =
     filter (\<lambda>r. \<not> (ab_at topic part r \<and> ab_last_offset r < target)) (lg_aborted db)"
  "lg_topic_id_seq (reclaim_effect topic part target gone db) = lg_topic_id_seq db"
  "lg_topics (reclaim_effect topic part target gone db) = lg_topics db"
  "lg_epochs (reclaim_effect topic part target gone db) = lg_epochs db"
  "lg_markers (reclaim_effect topic part target gone db) = lg_markers db"
  "lg_txn_partitions (reclaim_effect topic part target gone db) = lg_txn_partitions db"
  "lg_txn_offsets (reclaim_effect topic part target gone db) = lg_txn_offsets db"
  "lg_offsets (reclaim_effect topic part target gone db) = lg_offsets db"
  "lg_producer (reclaim_effect topic part target gone db) = lg_producer db"
  by (simp_all add: reclaim_effect_def forget_aborted_below_def update_partition_def fold_drop_doomed)

lemma part_log_reclaim [simp]:
  "part_log topic' part' (reclaim_effect topic part target gone db) = filter (spared gone) (part_log topic' part' db)"
  by (simp add: part_log_def filter_sort) (simp only: conj_commute)

lemma reclaim_effect_inv:
  assumes inv: "log_inv seg_size crc db" and p: "find_partition topic part db = Inr p"
    and target: "0 \<le> target" "target \<le> pt_next_offset p"
    and gone: "\<forall>g \<in> set gone. g \<in> set (lg_segments db) \<and> sg_at topic part g"
  shows "log_inv seg_size crc (reclaim_effect topic part target gone db)"
proof -
  let ?db = "reclaim_effect topic part target gone db"
  have pok: "partitions_ok (lg_partitions db)" using inv by (rule log_inv_partitions)
  have uniq: "q = p" if "q \<in> set (lg_partitions db)" "pt_at topic part q" for q
    using that p find_partition_iff [OF pok, of topic part q] by simp
  have parts: "partitions_ok (lg_partitions ?db)"
  proof -
    have "0 \<le> target \<and> target \<le> pt_next_offset q" if "q \<in> set (lg_partitions db)" "pt_at topic part q" for q
      using uniq [OF that] target by simp
    then show ?thesis unfolding reclaim_effect_fields by (intro partitions_ok_update [OF pok]) simp_all
  qed
  have grow: "\<exists>b \<in> set (lg_partitions ?db). pt_at t q b \<and> pt_next_offset a \<le> pt_next_offset b"
    if a: "a \<in> set (lg_partitions db)" "pt_at t q a" for a t q
  proof -
    let ?a = "if pt_at topic part a then a\<lparr>pt_log_start := target\<rparr> else a"
    have "?a \<in> set (lg_partitions ?db)" using a(1) by simp
    moreover have "pt_at t q ?a \<and> pt_next_offset a \<le> pt_next_offset ?a" using a(2) by (simp add: pt_at_def)
    ultimately show ?thesis by (rule rev_bexI)
  qed
  have bounded: "segment_bounded ?db s" if "s \<in> set (lg_segments db)" for s
    using segment_bounded_mono [OF log_inv_bounded [OF inv that] grow] by blast
  have rows: "row_ok crc ?db r" if r: "r \<in> set (lg_log db)" "spared gone r" for r
  proof (rule row_ok_mono [OF log_inv_row [OF inv r(1)]])
    fix a assume "a \<in> set (lg_partitions db)" "pt_at (lr_topic r) (lr_partition r) a"
    then show "\<exists>b \<in> set (lg_partitions ?db). pt_at (lr_topic r) (lr_partition r) b \<and> pt_next_offset a \<le> pt_next_offset b"
      by (rule grow)
  next
    fix s assume "s \<in> set (lg_segments db)" "covers s r"
    then show "\<exists>s' \<in> set (lg_segments ?db). covers s' r"
      using spared_cover [OF log_inv_segments [OF inv] r(2) _ _ gone] unfolding reclaim_effect_fields by (intro rev_bexI)
  qed
  show ?thesis
    unfolding log_inv_def part_log_reclaim
    using parts segments_ok_filter [OF log_inv_segments [OF inv]] bounded rows ascending_filter [OF log_inv_ascending [OF inv]]
    by simp
qed

lemma reclaim_inv:
  assumes inv: "log_inv seg_size crc db" and r: "reclaim topic part off db = Inr (n, db')"
    and off: "\<And>p. find_partition topic part db = Inr p \<Longrightarrow> off \<le> pt_next_offset p"
  shows "log_inv seg_size crc db'"
  using log_inv_partitions [OF inv] r
proof (cases rule: reclaim_cases)
  case (1 p)
  then show ?thesis using inv by simp
next
  case (2 p)
  have "p \<in> set (lg_partitions db)"
    using 2(1) by (simp add: find_partition_iff [OF log_inv_partitions [OF inv]])
  then have "0 \<le> pt_log_start p" "pt_log_start p \<le> pt_next_offset p"
    using log_inv_partitions [OF inv] by (simp_all add: partitions_ok_def)
  moreover have "off \<le> pt_next_offset p" using 2(1) by (rule off)
  ultimately show ?thesis
    unfolding 2(2) using doomed_set by (intro reclaim_effect_inv [OF inv 2(1)]) auto
qed

text \<open>Retention never cuts past the end of the log.\<close>

lemma cut_by_time_le: "cutoff \<le> b \<Longrightarrow> \<forall>s \<in> set ss. sg_max_last s + 1 \<le> b \<Longrightarrow> cut_by_time horizon cutoff ss \<le> b"
  by (induction ss arbitrary: cutoff) simp_all

lemma cut_by_bytes_le: "cutoff \<le> b \<Longrightarrow> \<forall>s \<in> set ss. sg_max_last s + 1 \<le> b \<Longrightarrow> cut_by_bytes over cutoff ss \<le> b"
  by (induction ss arbitrary: cutoff over) simp_all

lemma segment_below_end:
  assumes "log_inv seg_size crc db" and "find_partition topic part db = Inr p"
    and "s \<in> set (lg_segments db)" and "sg_at topic part s"
  shows "sg_max_last s < pt_next_offset p"
proof -
  obtain q where q: "q \<in> set (lg_partitions db)" "pt_at (sg_topic s) (sg_partition s) q" "sg_max_last s < pt_next_offset q"
    using log_inv_bounded [OF assms(1,3)] unfolding segment_bounded_def by blast
  then have "find_partition topic part db = Inr q"
    using assms(4) by (simp add: find_partition_iff [OF log_inv_partitions [OF assms(1)]] sg_at_def)
  then show ?thesis using q(3) assms(2) by simp
qed

lemma retention_cutoff_le:
  assumes inv: "log_inv seg_size crc db" and p: "find_partition topic part db = Inr p"
  shows "retention_cutoff now topic part policy db \<le> pt_next_offset p"
proof -
  have "p \<in> set (lg_partitions db)"
    using p by (simp add: find_partition_iff [OF log_inv_partitions [OF inv]])
  then have z: "0 \<le> pt_next_offset p"
    using log_inv_partitions [OF inv] by (force simp: partitions_ok_def)
  have "sg_max_last s + 1 \<le> pt_next_offset p" if "s \<in> set (lg_segments db)" "sg_at topic part s" for s
    using segment_below_end [OF inv p that] by simp
  then show ?thesis
    using z unfolding retention_cutoff_def Let_def
    by (auto intro!: cut_by_time_le cut_by_bytes_le split: option.splits)
qed

lemma retain_each_inv:
  "log_inv seg_size crc db \<Longrightarrow> retain_each now topic policy ps db = Inr (n, db') \<Longrightarrow> log_inv seg_size crc db'"
proof (induction ps arbitrary: db n)
  case (Cons q ps)
  from Cons.prems(2) obtain m d k where r: "reclaim topic q (retention_cutoff now topic q policy db) db = Inr (m, d)"
    and rest: "retain_each now topic policy ps d = Inr (k, db')"
    by (auto simp: rbind_eq_Inr split: prod.splits)
  have "log_inv seg_size crc d"
    by (rule reclaim_inv [OF Cons.prems(1) r]) (rule retention_cutoff_le [OF Cons.prems(1)])
  then show ?case using Cons.IH rest by simp
qed simp

subsection \<open>Partitions and epochs\<close>

lemma update_epoch_inv:
  assumes inv: "log_inv seg_size crc db"
    and f: "\<And>r. pt_topic (f r) = pt_topic r \<and> pt_partition (f r) = pt_partition r
              \<and> pt_log_start (f r) = pt_log_start r \<and> pt_next_offset (f r) = pt_next_offset r"
    and db': "lg_partitions db' = map (\<lambda>r. if pt_at topic part r then f r else r) (lg_partitions db)"
      "lg_segments db' = lg_segments db" "lg_log db' = lg_log db"
  shows "log_inv seg_size crc db'"
proof -
  have grow: "\<exists>b \<in> set (lg_partitions db'). pt_at t q b \<and> pt_next_offset a \<le> pt_next_offset b"
    if a: "a \<in> set (lg_partitions db)" "pt_at t q a" for a t q
  proof -
    let ?a = "if pt_at topic part a then f a else a"
    have "?a \<in> set (lg_partitions db')" using a(1) unfolding db' by simp
    moreover have "pt_at t q ?a \<and> pt_next_offset a \<le> pt_next_offset ?a" using a(2) f [of a] by (simp add: pt_at_def)
    ultimately show ?thesis by (rule rev_bexI)
  qed
  have "partitions_ok (lg_partitions db')"
    unfolding db'(1) using log_inv_partitions [OF inv] f by (intro partitions_ok_update) (auto simp: partitions_ok_def)
  moreover have "segment_bounded db' s" if "s \<in> set (lg_segments db)" for s
    using segment_bounded_mono [OF log_inv_bounded [OF inv that] grow] by blast
  moreover have "row_ok crc db' r" if "r \<in> set (lg_log db)" for r
    using row_ok_mono [OF log_inv_row [OF inv that] grow] db'(2) by auto
  ultimately show ?thesis
    using log_inv_segments [OF inv] log_inv_ascending [OF inv] part_log_cong [OF db'(3)] db'(2,3)
    by (simp add: log_inv_def)
qed

lemma set_leader_epoch_cases:
  assumes "set_leader_epoch topic part epoch db = Inr (raised, db')"
  obtains p where "find_partition topic part db = Inr p" and "sint epoch \<le> sint (pt_leader_epoch p)" and "db' = db" and "\<not> raised"
  | p where "find_partition topic part db = Inr p" and "sint (pt_leader_epoch p) < sint epoch" and raised
      and "db' = db\<lparr>lg_partitions := map (\<lambda>r. if pt_at topic part r
             then r\<lparr>pt_leader_epoch := epoch, pt_epoch_start := pt_next_offset r\<rparr> else r) (lg_partitions db),
           lg_epochs := assign_epoch topic part epoch (pt_next_offset p) (lg_epochs db)\<rparr>"
proof -
  obtain p where p: "find_partition topic part db = Inr p"
    using assms by (cases "find_partition topic part db") (simp_all add: set_leader_epoch_def)
  show thesis
  proof (cases "sint epoch \<le> sint (pt_leader_epoch p)")
    case True
    then show ?thesis using assms p by (intro that(1)) (simp_all add: set_leader_epoch_def)
  next
    case False
    then show ?thesis
      using assms p by (intro that(2) [of p]) (simp_all add: set_leader_epoch_def Let_def update_partition_def)
  qed
qed

lemma set_leader_epoch_inv:
  assumes inv: "log_inv seg_size crc db" and "set_leader_epoch topic part epoch db = Inr (raised, db')"
  shows "log_inv seg_size crc db'"
  using assms(2)
proof (cases rule: set_leader_epoch_cases)
  case (1 p)
  then show ?thesis using inv by simp
next
  case (2 p)
  show ?thesis
    by (rule update_epoch_inv [OF inv, where topic = topic and part = part and f = "\<lambda>r. r\<lparr>pt_leader_epoch := epoch, pt_epoch_start := pt_next_offset r\<rparr>"])
      (simp_all add: 2(4))
qed

definition new_partition :: "u32 \<Rightarrow> i32 \<Rightarrow> i32 \<Rightarrow> partition_row" where
  "new_partition topic part epoch = \<lparr>pt_topic = topic, pt_partition = part, pt_next_offset = 0,
     pt_log_start = 0, pt_leader_epoch = epoch, pt_epoch_start = 0\<rparr>"

lemma pm_create_fields [simp]:
  "lg_partitions (pm_create_partition topic part epoch db) =
     (if \<exists>r \<in> set (lg_partitions db). pt_at topic part r then lg_partitions db
      else lg_partitions db @ [new_partition topic part epoch])"
  "lg_segments (pm_create_partition topic part epoch db) = lg_segments db"
  "lg_log (pm_create_partition topic part epoch db) = lg_log db"
  by (simp_all add: pm_create_partition_def Let_def new_partition_def)

lemma partitions_ok_snoc:
  assumes "partitions_ok ps" and "\<not> (\<exists>r \<in> set ps. pt_at topic part r)"
  shows "partitions_ok (ps @ [new_partition topic part epoch])"
proof -
  have "(topic, part) \<notin> (\<lambda>r. (pt_topic r, pt_partition r)) ` set ps"
    using assms(2) by (auto simp: pt_at_def)
  then show ?thesis using assms(1) by (simp add: partitions_ok_def new_partition_def)
qed

lemma pm_create_inv:
  assumes inv: "log_inv seg_size crc db"
  shows "log_inv seg_size crc (pm_create_partition topic part epoch db)"
proof -
  let ?d = "pm_create_partition topic part epoch db"
  have keep: "\<exists>q \<in> set (lg_partitions ?d). pt_at t a q \<and> pt_next_offset p \<le> pt_next_offset q"
    if "p \<in> set (lg_partitions db)" "pt_at t a p" for t a p
    using that by (intro bexI [of _ p]) simp_all
  have "partitions_ok (lg_partitions ?d)"
    using log_inv_partitions [OF inv] partitions_ok_snoc by simp
  moreover have "segment_bounded ?d s" if "s \<in> set (lg_segments db)" for s
    using log_inv_bounded [OF inv that] keep by (rule segment_bounded_mono)
  moreover have "row_ok crc ?d r" if "r \<in> set (lg_log db)" for r
    using log_inv_row [OF inv that] keep by (rule row_ok_mono) auto
  ultimately show ?thesis
    using log_inv_segments [OF inv] log_inv_ascending [OF inv]
    by (simp add: log_inv_def part_log_def)
qed

lemma ensure_segment_inv:
  assumes inv: "log_inv seg_size crc db" and p: "p \<in> set (lg_partitions db)" "pt_at topic part p"
  shows "log_inv seg_size crc (ensure_segment seg_size topic part off db)"
proof -
  let ?d = "ensure_segment seg_size topic part off db"
  have p0: "- 1 < pt_next_offset p" using log_inv_partitions [OF inv] p(1) by (fastforce simp: partitions_ok_def)
  have "segment_bounded ?d s" if "s \<in> set (lg_segments ?d)" for s
    using ensure_segment_new [OF that]
  proof
    assume "s \<in> set (lg_segments db)"
    then show ?thesis using log_inv_bounded [OF inv] by (simp add: segment_bounded_def)
  next
    assume "sg_at topic part s \<and> sg_max_last s = - 1"
    then show ?thesis
      using p p0 unfolding segment_bounded_def by (intro bexI [of _ p]) (simp_all add: at_defs)
  qed
  moreover have "row_ok crc ?d r" if "r \<in> set (lg_log db)" for r
    using log_inv_row [OF inv that] ensure_segment_mono [of db seg_size topic part off]
    unfolding row_ok_def by auto
  ultimately show ?thesis
    using log_inv_partitions [OF inv] ensure_segment_ok [OF log_inv_segments [OF inv]] log_inv_ascending [OF inv]
    by (simp add: log_inv_def part_log_def)
qed

lemma create_partition_inv:
  assumes "log_inv seg_size crc db"
  shows "log_inv seg_size crc (create_partition seg_size topic part epoch db)"
proof -
  let ?d = "pm_create_partition topic part epoch db"
  have "\<exists>p \<in> set (lg_partitions ?d). pt_at topic part p" by (simp add: pt_at_def new_partition_def)
  then obtain p where "p \<in> set (lg_partitions ?d)" "pt_at topic part p" by (rule bexE)
  then show ?thesis
    unfolding create_partition_def by (rule ensure_segment_inv [OF pm_create_inv [OF assms]])
qed

lemma fold_drop_tables:
  "fold drop_segment_table ss db = db\<lparr>lg_log := filter (spared ss) (lg_log db)\<rparr>"
proof (induction ss arbitrary: db)
  case Nil
  have "spared [] = (\<lambda>r. True)" by (simp add: spared_def fun_eq_iff)
  then show ?case by simp
next
  case (Cons s ss)
  show ?case by (simp add: Cons.IH) (simp add: drop_segment_table_def spared_def [abs_def] conj_commute)
qed

lemma drop_partition_fields:
  assumes inv: "log_inv seg_size crc db"
  shows "lg_log (drop_partition topic part db) = filter (\<lambda>r. \<not> lr_at topic part r) (lg_log db)"
    and "lg_partitions (drop_partition topic part db) = filter (\<lambda>r. \<not> pt_at topic part r) (lg_partitions db)"
    and "lg_segments (drop_partition topic part db) = filter (\<lambda>s. \<not> sg_at topic part s) (lg_segments db)"
proof -
  let ?ss = "filter (sg_at topic part) (lg_segments db)"
  have sp: "spared ?ss r \<longleftrightarrow> \<not> lr_at topic part r" if r: "r \<in> set (lg_log db)" for r
  proof -
    obtain s where s: "s \<in> set (lg_segments db)" "covers s r"
      using log_inv_row [OF inv r] unfolding row_ok_def by blast
    show ?thesis
    proof
      assume "spared ?ss r"
      then show "\<not> lr_at topic part r" using s by (auto simp: spared_def covers_def in_segment_def at_defs)
    next
      assume "\<not> lr_at topic part r"
      then show "spared ?ss r" by (auto simp: spared_def in_segment_def at_defs)
    qed
  qed
  have keep: "filter (spared ?ss) (lg_log db) = filter (\<lambda>r. \<not> lr_at topic part r) (lg_log db)"
    by (rule filter_cong) (simp_all add: sp)
  have gone: "filter (\<lambda>r. \<not> lr_at topic part r \<and> lr_topic r \<noteq> topic) (lg_log db) = filter (\<lambda>r. \<not> lr_at topic part r) (lg_log db)"
    if "filter (\<lambda>r. \<not> pt_at topic part r \<and> pt_topic r = topic) (lg_partitions db) = []"
  proof (rule filter_cong)
    fix r assume "r \<in> set (lg_log db)"
    then obtain p where "p \<in> set (lg_partitions db)" "pt_at (lr_topic r) (lr_partition r) p"
      using log_inv_row [OF inv] unfolding row_ok_def by blast
    then show "(\<not> lr_at topic part r \<and> lr_topic r \<noteq> topic) = (\<not> lr_at topic part r)"
      using that by (auto simp: filter_empty_conv at_defs)
  qed simp
  show "lg_log (drop_partition topic part db) = filter (\<lambda>r. \<not> lr_at topic part r) (lg_log db)"
    using gone by (simp add: drop_partition_def pm_drop_partition_def Let_def fold_drop_tables keep)
  show "lg_partitions (drop_partition topic part db) = filter (\<lambda>r. \<not> pt_at topic part r) (lg_partitions db)"
    by (simp add: drop_partition_def pm_drop_partition_def Let_def fold_drop_tables)
  show "lg_segments (drop_partition topic part db) = filter (\<lambda>s. \<not> sg_at topic part s) (lg_segments db)"
    by (simp add: drop_partition_def pm_drop_partition_def Let_def fold_drop_tables)
qed

lemma drop_partition_inv:
  assumes inv: "log_inv seg_size crc db"
  shows "log_inv seg_size crc (drop_partition topic part db)"
proof -
  let ?db = "drop_partition topic part db"
  note f = drop_partition_fields [OF inv, of topic part]
  have bounded: "segment_bounded ?db s" if "s \<in> set (lg_segments ?db)" for s
  proof -
    have s: "s \<in> set (lg_segments db)" "\<not> sg_at topic part s" using that f(3) by simp_all
    show ?thesis
      using log_inv_bounded [OF inv s(1)]
    proof (rule segment_bounded_mono)
      fix p assume "p \<in> set (lg_partitions db)" "pt_at (sg_topic s) (sg_partition s) p"
      then show "\<exists>q \<in> set (lg_partitions ?db). pt_at (sg_topic s) (sg_partition s) q \<and> pt_next_offset p \<le> pt_next_offset q"
        using s(2) unfolding f(2) by (intro bexI [of _ p]) (auto simp: at_defs)
    qed
  qed
  have rows: "row_ok crc ?db r" if "r \<in> set (lg_log ?db)" for r
  proof -
    have r: "r \<in> set (lg_log db)" "\<not> lr_at topic part r" using that f(1) by simp_all
    show ?thesis
      using log_inv_row [OF inv r(1)]
    proof (rule row_ok_mono)
      fix p assume "p \<in> set (lg_partitions db)" "pt_at (lr_topic r) (lr_partition r) p"
      then show "\<exists>q \<in> set (lg_partitions ?db). pt_at (lr_topic r) (lr_partition r) q \<and> pt_next_offset p \<le> pt_next_offset q"
        using r(2) unfolding f(2) by (intro bexI [of _ p]) (auto simp: at_defs)
    next
      fix s assume "s \<in> set (lg_segments db)" "covers s r"
      then show "\<exists>q \<in> set (lg_segments ?db). covers q r"
        using r(2) unfolding f(3) by (intro bexI [of _ s]) (auto simp: covers_def in_segment_def at_defs)
    qed
  qed
  have "part_log t q ?db = filter (\<lambda>r. \<not> lr_at topic part r) (part_log t q db)" for t q
    using part_log_filter [where P = "\<lambda>r. \<not> lr_at topic part r"] by (simp add: part_log_def f(1))
  then show ?thesis
    unfolding log_inv_def
    using partitions_ok_filter [OF log_inv_partitions [OF inv]] segments_ok_filter [OF log_inv_segments [OF inv]]
      bounded rows ascending_filter [OF log_inv_ascending [OF inv]]
    by (simp add: f(2,3))
qed

subsection \<open>Reading\<close>

text \<open>Ascending batches, as a reader at \<open>off\<close> sees them: those not wholly below it.\<close>

lemma ascending_sorted: "ascending rs \<Longrightarrow> \<forall>r \<in> set rs. lr_base r \<le> lr_last r \<Longrightarrow> sorted (map lr_base rs)"
  unfolding ascending_def by (induction rs) force+

lemma ascending_nth: "ascending rs \<Longrightarrow> i < j \<Longrightarrow> j < length rs \<Longrightarrow> lr_last (rs ! i) < lr_base (rs ! j)"
  by (simp add: ascending_def sorted_wrt_iff_nth_less)

lemma ascending_disjoint:
  assumes "ascending rs" and "a \<in> set rs" and "b \<in> set rs" and "\<forall>r \<in> set rs. lr_base r \<le> lr_last r"
    and "lr_base a \<le> off" and "off \<le> lr_last a" and "lr_base b \<le> off" and "off \<le> lr_last b"
  shows "a = b"
proof -
  obtain i j where ij: "i < length rs" "a = rs ! i" "j < length rs" "b = rs ! j"
    using assms(2,3) by (auto simp: in_set_conv_nth)
  have "\<not> i < j" using ascending_nth [OF assms(1), of i j] assms(5-) ij by auto
  moreover have "\<not> j < i" using ascending_nth [OF assms(1), of j i] assms(5-) ij by auto
  ultimately show ?thesis using ij by simp
qed

definition readable :: "int \<Rightarrow> int \<Rightarrow> log_row \<Rightarrow> bool" where
  "readable off ceiling r \<longleftrightarrow> off \<le> lr_last r \<and> lr_base r < ceiling"

lemma read_rows_spec:
  assumes inv: "log_inv seg_size crc db"
  shows "read_rows topic part off ceiling db = take READ_ROWS (filter (readable off ceiling) (part_log topic part db))"
proof -
  let ?rs = "part_log topic part db"
  have span: "\<forall>r \<in> set ?rs. lr_base r \<le> lr_last r"
    using row_ok_span [OF log_inv_row [OF inv]] by simp
  have asc: "ascending ?rs" using inv by (rule log_inv_ascending)
  have iff: "read_from topic part off db \<le> lr_base r \<longleftrightarrow> off \<le> lr_last r" if r: "r \<in> set ?rs" for r
  proof (cases "\<exists>a \<in> set ?rs. lr_base a \<le> off \<and> off \<le> lr_last a")
    case True
    then obtain a where a: "a \<in> set ?rs" "lr_base a \<le> off" "off \<le> lr_last a" by blast
    have "{b \<in> set ?rs. lr_base b \<le> off \<and> off \<le> lr_last b} = {a}"
      using ascending_disjoint [OF asc a(1) _ span a(2,3)] a by blast
    then have "lr_base ` {b \<in> set (lg_log db). lr_at topic part b \<and> lr_base b \<le> off \<and> off \<le> lr_last b} = {lr_base a}"
      by (auto simp: set_eq_iff)
    moreover have "filter (\<lambda>r. lr_at topic part r \<and> lr_base r \<le> off \<and> off \<le> lr_last r) (lg_log db) \<noteq> []"
      using a by (auto simp: filter_empty_conv)
    ultimately have from_a: "read_from topic part off db = lr_base a"
      by (simp add: read_from_def sql_max_def)
    obtain i j where ij: "i < length ?rs" "a = ?rs ! i" "j < length ?rs" "r = ?rs ! j"
      using a(1) r by (metis in_set_conv_nth)
    have r': "lr_base r \<le> lr_last r" using span r by blast
    consider "i < j" | "i = j" | "j < i" by linarith
    then show ?thesis
    proof cases
      case 1
      then have "lr_last a < lr_base r" using ascending_nth [OF asc] ij by simp
      then show ?thesis using a(2,3) r' unfolding from_a by linarith
    next
      case 2
      then show ?thesis using a ij unfolding from_a by simp
    next
      case 3
      then have "lr_last r < lr_base a" using ascending_nth [OF asc] ij by simp
      then show ?thesis using a(2,3) r' unfolding from_a by linarith
    qed
  next
    case False
    then have "filter (\<lambda>r. lr_at topic part r \<and> lr_base r \<le> off \<and> off \<le> lr_last r) (lg_log db) = []"
      by (auto simp: filter_empty_conv)
    then have "read_from topic part off db = off" by (simp add: read_from_def sql_max_def)
    moreover have "\<not> (lr_base r \<le> off \<and> off \<le> lr_last r)" using False r by blast
    moreover have "lr_base r \<le> lr_last r" using span r by blast
    ultimately show ?thesis by linarith
  qed
  have "sort_key lr_base (filter (\<lambda>r. lr_at topic part r \<and> read_from topic part off db \<le> lr_base r \<and> lr_base r < ceiling) (lg_log db))
      = filter (\<lambda>r. read_from topic part off db \<le> lr_base r \<and> lr_base r < ceiling) ?rs"
    by (simp add: part_log_def filter_sort conj_commute)
  also have "\<dots> = filter (readable off ceiling) ?rs"
    by (rule filter_cong) (simp_all only: iff readable_def)
  finally show ?thesis by (simp add: read_rows_def)
qed

text \<open>Collecting rows stops at the byte cap, but never before the first row.\<close>

lemma collect_rows_prefix:
  assumes "\<forall>r \<in> set rs. lr_batch r \<noteq> []"
  shows "\<exists>k \<le> length rs. collect_rows cap rs bytes next_offset =
       (bytes @ concat (map lr_batch (take k rs)), if k = 0 then next_offset else lr_last (rs ! (k - 1)) + 1)
     \<and> (bytes = [] \<longrightarrow> k = 0 \<longrightarrow> rs = [])
     \<and> (length (bytes @ concat (map lr_batch (take k rs))) \<le> cap \<or> k = 0 \<or> bytes = [] \<and> k = 1)"
  using assms
proof (induction rs arbitrary: bytes next_offset)
  case Nil
  show ?case by simp
next
  case (Cons r rs)
  let ?b = "bytes @ lr_batch r"
  show ?case
  proof (cases "bytes \<noteq> [] \<and> length bytes + length (lr_batch r) > cap")
    case True
    then show ?thesis by (intro exI [of _ 0]) simp
  next
    case fits: False
    show ?thesis
    proof (cases "length ?b \<ge> cap")
      case True
      then show ?thesis using fits by (intro exI [of _ 1]) auto
    next
      case False
      obtain k where k: "k \<le> length rs" "collect_rows cap rs ?b (lr_last r + 1) =
          (?b @ concat (map lr_batch (take k rs)), if k = 0 then lr_last r + 1 else lr_last (rs ! (k - 1)) + 1)"
        "length (?b @ concat (map lr_batch (take k rs))) \<le> cap \<or> k = 0"
        using Cons.IH [of ?b "lr_last r + 1"] Cons.prems by auto
      then show ?thesis
        using fits False by (intro exI [of _ "Suc k"]) (auto simp: nth_Cons')
    qed
  qed
qed

end
