(* ===== verification/Epoch_History.thy ===== *)
theory Epoch_History
  imports Log_Invariant
begin

text \<open>
  The history of leader epochs (\<open>kafgres_leader_epochs\<close>) against the log: every batch lies in the range
  its epoch's entry opens and the next entry closes. This is what makes \<open>epoch_end_offset\<close> a safe
  answer to a consumer asking where to truncate.
\<close>

definition epoch_at :: "log_row \<Rightarrow> epoch_row \<Rightarrow> bool" where
  "epoch_at r e \<longleftrightarrow> ep_at (lr_topic r) (lr_partition r) e"

definition entry_bounds :: "log_db \<Rightarrow> epoch_row \<Rightarrow> bool" where
  "entry_bounds db e \<longleftrightarrow> 0 \<le> sint (ep_epoch e) \<and> 0 \<le> ep_start e
     \<and> (\<exists>p \<in> set (lg_partitions db). pt_at (ep_topic e) (ep_partition e) p
          \<and> sint (ep_epoch e) \<le> sint (pt_leader_epoch p) \<and> ep_start e \<le> pt_next_offset p)"

definition current_recorded :: "log_db \<Rightarrow> partition_row \<Rightarrow> bool" where
  "current_recorded db p \<longleftrightarrow>
     (\<exists>e \<in> set (lg_epochs db). ep_at (pt_topic p) (pt_partition p) e \<and> ep_epoch e = pt_leader_epoch p)"

definition row_in_epoch :: "log_db \<Rightarrow> log_row \<Rightarrow> bool" where
  "row_in_epoch db r \<longleftrightarrow>
     (\<exists>e \<in> set (lg_epochs db). epoch_at r e \<and> ep_epoch e = lr_leader_epoch r)
     \<and> (\<forall>e \<in> set (lg_epochs db). epoch_at r e \<longrightarrow>
          (if sint (ep_epoch e) \<le> sint (lr_leader_epoch r) then ep_start e \<le> lr_base r else lr_last r < ep_start e))"

definition epoch_inv :: "log_db \<Rightarrow> bool" where
  "epoch_inv db \<longleftrightarrow>
     (\<forall>e \<in> set (lg_epochs db). entry_bounds db e)
     \<and> (\<forall>p \<in> set (lg_partitions db). current_recorded db p)
     \<and> (\<forall>r \<in> set (lg_log db). row_in_epoch db r)"

lemma epoch_invD:
  assumes "epoch_inv db"
  shows epoch_inv_entry: "e \<in> set (lg_epochs db) \<Longrightarrow> entry_bounds db e"
    and epoch_inv_current: "p \<in> set (lg_partitions db) \<Longrightarrow> current_recorded db p"
    and epoch_inv_row: "r \<in> set (lg_log db) \<Longrightarrow> row_in_epoch db r"
  using assms by (simp_all add: epoch_inv_def)

lemma epoch_inv_cong:
  "epoch_inv db \<Longrightarrow> lg_partitions db' = lg_partitions db \<Longrightarrow> lg_epochs db' = lg_epochs db \<Longrightarrow>
     set (lg_log db') \<subseteq> set (lg_log db) \<Longrightarrow> epoch_inv db'"
  by (auto simp: epoch_inv_def entry_bounds_def current_recorded_def row_in_epoch_def)

lemma entry_partition:
  assumes "log_inv seg_size crc db" and "epoch_inv db" and "e \<in> set (lg_epochs db)" and "ep_at topic part e"
    and "find_partition topic part db = Inr p"
  shows "sint (ep_epoch e) \<le> sint (pt_leader_epoch p)" and "ep_start e \<le> pt_next_offset p"
proof -
  obtain q where q: "q \<in> set (lg_partitions db)" "pt_at (ep_topic e) (ep_partition e) q"
      "sint (ep_epoch e) \<le> sint (pt_leader_epoch q)" "ep_start e \<le> pt_next_offset q"
    using epoch_inv_entry [OF assms(2,3)] unfolding entry_bounds_def by blast
  then have "find_partition topic part db = Inr q"
    using assms(4) by (simp add: find_partition_iff [OF log_inv_partitions [OF assms(1)]] ep_at_def)
  then have "q = p" using assms(5) by simp
  then show "sint (ep_epoch e) \<le> sint (pt_leader_epoch p)" "ep_start e \<le> pt_next_offset p" using q by simp_all
qed

text \<open>Partitions may grow, and rows may go.\<close>

lemma epoch_inv_grow:
  assumes "epoch_inv db" and "lg_epochs db' = lg_epochs db" and "set (lg_log db') \<subseteq> set (lg_log db)"
    and "lg_partitions db' = map f (lg_partitions db)"
    and "\<And>p. p \<in> set (lg_partitions db) \<Longrightarrow> pt_topic (f p) = pt_topic p \<and> pt_partition (f p) = pt_partition p
           \<and> pt_leader_epoch (f p) = pt_leader_epoch p \<and> pt_next_offset p \<le> pt_next_offset (f p)"
  shows "epoch_inv db'"
proof -
  have "entry_bounds db' e" if e: "e \<in> set (lg_epochs db)" for e
  proof -
    obtain p where p: "p \<in> set (lg_partitions db)" "pt_at (ep_topic e) (ep_partition e) p"
        "sint (ep_epoch e) \<le> sint (pt_leader_epoch p)" "ep_start e \<le> pt_next_offset p"
      using epoch_inv_entry [OF assms(1) e] unfolding entry_bounds_def by blast
    have "f p \<in> set (lg_partitions db')" using p(1) assms(4) by simp
    moreover have "pt_at (ep_topic e) (ep_partition e) (f p) \<and> sint (ep_epoch e) \<le> sint (pt_leader_epoch (f p))
        \<and> ep_start e \<le> pt_next_offset (f p)"
      using p assms(5) [OF p(1)] by (simp add: pt_at_def)
    ultimately have "\<exists>q \<in> set (lg_partitions db'). pt_at (ep_topic e) (ep_partition e) q
        \<and> sint (ep_epoch e) \<le> sint (pt_leader_epoch q) \<and> ep_start e \<le> pt_next_offset q" by (rule rev_bexI)
    then show ?thesis using epoch_inv_entry [OF assms(1) e] by (simp add: entry_bounds_def)
  qed
  moreover have "current_recorded db' p" if p: "p \<in> set (lg_partitions db')" for p
  proof -
    obtain q where "q \<in> set (lg_partitions db)" "p = f q" using p assms(4) by auto
    then show ?thesis using epoch_inv_current [OF assms(1)] assms(5) [of q] assms(2) by (simp add: current_recorded_def)
  qed
  moreover have "row_in_epoch db' r" if "r \<in> set (lg_log db')" for r
  proof -
    have "r \<in> set (lg_log db)" using that assms(3) by (rule subsetD [rotated])
    then show ?thesis using epoch_inv_row [OF assms(1)] assms(2) by (simp add: row_in_epoch_def)
  qed
  ultimately show ?thesis using assms(2) by (simp add: epoch_inv_def)
qed

lemma append_epoch_inv:
  assumes inv: "log_inv seg_size crc db" and e: "epoch_inv db" and p: "find_partition topic part db = Inr p"
    and r: "lr_at topic part r" "lr_base r = pt_next_offset p" "lr_leader_epoch r = pt_leader_epoch p" "lr_base r \<le> lr_last r"
  shows "epoch_inv (append_effect seg_size topic part r db)"
proof -
  let ?db = "append_effect seg_size topic part r db"
  have pin: "p \<in> set (lg_partitions db)" "pt_at topic part p"
    using p by (simp_all add: find_partition_iff [OF log_inv_partitions [OF inv]])
  have old: "epoch_inv (?db\<lparr>lg_log := lg_log db\<rparr>)"
  proof (rule epoch_inv_grow [OF e])
    show "lg_partitions (?db\<lparr>lg_log := lg_log db\<rparr>) =
        map (\<lambda>q. if pt_at topic part q then q\<lparr>pt_next_offset := lr_last r + 1\<rparr> else q) (lg_partitions db)" by simp
    fix q assume q: "q \<in> set (lg_partitions db)"
    have "q = p" if "pt_at topic part q"
      using that q p find_partition_iff [OF log_inv_partitions [OF inv], of topic part q] by simp
    then show "pt_topic (if pt_at topic part q then q\<lparr>pt_next_offset := lr_last r + 1\<rparr> else q) = pt_topic q
      \<and> pt_partition (if pt_at topic part q then q\<lparr>pt_next_offset := lr_last r + 1\<rparr> else q) = pt_partition q
      \<and> pt_leader_epoch (if pt_at topic part q then q\<lparr>pt_next_offset := lr_last r + 1\<rparr> else q) = pt_leader_epoch q
      \<and> pt_next_offset q \<le> pt_next_offset (if pt_at topic part q then q\<lparr>pt_next_offset := lr_last r + 1\<rparr> else q)"
      using r by (cases "pt_at topic part q") simp_all
  qed simp_all
  have "row_in_epoch db r"
  proof -
    have "epoch_at r = ep_at topic part" using r(1) by (simp add: epoch_at_def [abs_def] lr_at_def)
    moreover have "\<exists>e \<in> set (lg_epochs db). ep_at topic part e \<and> ep_epoch e = pt_leader_epoch p"
      using epoch_inv_current [OF e pin(1)] pin(2) by (simp add: current_recorded_def pt_at_def)
    ultimately show ?thesis
      using entry_partition [OF inv e _ _ p] r by (simp add: row_in_epoch_def)
  qed
  then show ?thesis
    using old by (auto simp: epoch_inv_def entry_bounds_def current_recorded_def row_in_epoch_def)
qed

lemma reclaim_epoch_inv:
  assumes "epoch_inv db"
  shows "epoch_inv (reclaim_effect topic part target gone db)"
  by (rule epoch_inv_grow [OF assms, where f = "\<lambda>q. if pt_at topic part q then q\<lparr>pt_log_start := target\<rparr> else q"]) auto


lemma create_epoch_inv:
  assumes inv: "log_inv seg_size crc db" and e: "epoch_inv db"
  shows "epoch_inv (create_partition seg_size topic part 0 db)"
proof -
  let ?db = "create_partition seg_size topic part 0 db"
  let ?new = "\<lparr>ep_topic = topic, ep_partition = part, ep_epoch = 0, ep_start = 0\<rparr> :: epoch_row"
  have parts: "set (lg_partitions ?db) \<subseteq> insert (new_partition topic part 0) (set (lg_partitions db))"
    "set (lg_partitions db) \<subseteq> set (lg_partitions ?db)" "\<exists>p \<in> set (lg_partitions ?db). pt_at topic part p"
    by (auto simp: create_partition_def pt_at_def new_partition_def)
  have log: "lg_log ?db = lg_log db" by (simp add: create_partition_def)
  have eps: "set (lg_epochs ?db) \<subseteq> insert ?new (set (lg_epochs db))" "set (lg_epochs db) \<subseteq> set (lg_epochs ?db)"
    "\<exists>e \<in> set (lg_epochs ?db). ep_at topic part e \<and> ep_epoch e = 0"
    by (auto simp: create_partition_def pm_create_partition_def Let_def ep_at_def)
  have nonneg: "0 \<le> pt_next_offset p" "0 \<le> sint (pt_leader_epoch p)" if p: "p \<in> set (lg_partitions ?db)" for p
  proof -
    have "partitions_ok (lg_partitions ?db)" using create_partition_inv [OF inv] by (rule log_inv_partitions)
    then show "0 \<le> pt_next_offset p" using p by (force simp: partitions_ok_def)
    show "0 \<le> sint (pt_leader_epoch p)"
    proof (cases "p \<in> set (lg_partitions db)")
      case True
      then obtain x where "x \<in> set (lg_epochs db)" "ep_epoch x = pt_leader_epoch p"
        using epoch_inv_current [OF e] unfolding current_recorded_def by blast
      then show ?thesis using epoch_inv_entry [OF e, of x] by (simp add: entry_bounds_def)
    next
      case False
      then have "p = new_partition topic part 0" using p parts(1) by blast
      then show ?thesis by (simp add: new_partition_def)
    qed
  qed
  have entry: "entry_bounds ?db x" if x: "x \<in> set (lg_epochs ?db)" for x
  proof (cases "x \<in> set (lg_epochs db)")
    case True
    then show ?thesis using epoch_inv_entry [OF e] parts(2) unfolding entry_bounds_def by blast
  next
    case False
    then have new: "x = ?new" using x eps(1) by blast
    obtain p where "p \<in> set (lg_partitions ?db)" "pt_at topic part p" using parts(3) by blast
    then show ?thesis using nonneg [of p] unfolding entry_bounds_def new by (intro conjI bexI [of _ p]) simp_all
  qed
  have current: "current_recorded ?db p" if p: "p \<in> set (lg_partitions ?db)" for p
  proof (cases "p \<in> set (lg_partitions db)")
    case True
    then show ?thesis using epoch_inv_current [OF e] eps(2) unfolding current_recorded_def by blast
  next
    case False
    then have "p = new_partition topic part 0" using p parts(1) by blast
    then show ?thesis using eps(3) by (simp add: current_recorded_def new_partition_def)
  qed
  have row: "row_in_epoch ?db r" if r: "r \<in> set (lg_log db)" for r
  proof -
    obtain x where x: "x \<in> set (lg_epochs db)" "epoch_at r x" "ep_epoch x = lr_leader_epoch r"
      using epoch_inv_row [OF e r] unfolding row_in_epoch_def by blast
    then have "0 \<le> sint (lr_leader_epoch r)" using epoch_inv_entry [OF e x(1)] by (simp add: entry_bounds_def)
    moreover have "0 \<le> lr_base r" using row_ok_base [OF log_inv_row [OF inv r]] .
    ultimately have "if sint (ep_epoch y) \<le> sint (lr_leader_epoch r) then ep_start y \<le> lr_base r else lr_last r < ep_start y"
      if "y \<in> set (lg_epochs ?db)" "epoch_at r y" for y
    proof (cases "y \<in> set (lg_epochs db)")
      case True
      then show ?thesis using epoch_inv_row [OF e r] that(2) unfolding row_in_epoch_def by blast
    next
      case False
      then have "y = ?new" using that(1) eps(1) by blast
      then show ?thesis using \<open>0 \<le> sint (lr_leader_epoch r)\<close> \<open>0 \<le> lr_base r\<close> by simp
    qed
    moreover have "x \<in> set (lg_epochs ?db)" using x(1) eps(2) by (rule subsetD [rotated])
    ultimately show ?thesis using x(2,3) unfolding row_in_epoch_def by blast
  qed
  show ?thesis unfolding epoch_inv_def log using entry current row by blast
qed

lemma drop_epoch_inv:
  assumes inv: "log_inv seg_size crc db" and e: "epoch_inv db"
  shows "epoch_inv (drop_partition topic part db)"
proof -
  let ?db = "drop_partition topic part db"
  note f = drop_partition_fields [OF inv, of topic part]
  have eps: "lg_epochs ?db = filter (\<lambda>x. \<not> ep_at topic part x) (lg_epochs db)"
    by (simp add: drop_partition_def pm_drop_partition_def Let_def fold_drop_tables)
  have "entry_bounds ?db x" if x: "x \<in> set (lg_epochs ?db)" for x
  proof -
    have x': "x \<in> set (lg_epochs db)" "\<not> ep_at topic part x" using x eps by simp_all
    obtain p where p: "p \<in> set (lg_partitions db)" "pt_at (ep_topic x) (ep_partition x) p
        \<and> sint (ep_epoch x) \<le> sint (pt_leader_epoch p) \<and> ep_start x \<le> pt_next_offset p"
      using epoch_inv_entry [OF e x'(1)] unfolding entry_bounds_def by blast
    have "p \<in> set (lg_partitions ?db)" using p x'(2) unfolding f(2) by (auto simp: at_defs)
    then show ?thesis
      using epoch_inv_entry [OF e x'(1)] p(2) unfolding entry_bounds_def by (intro conjI bexI [of _ p]) simp_all
  qed
  moreover have "current_recorded ?db p" if p: "p \<in> set (lg_partitions ?db)" for p
  proof -
    have p': "p \<in> set (lg_partitions db)" "\<not> pt_at topic part p" using p f(2) by simp_all
    obtain x where x: "x \<in> set (lg_epochs db)" "ep_at (pt_topic p) (pt_partition p) x \<and> ep_epoch x = pt_leader_epoch p"
      using epoch_inv_current [OF e p'(1)] unfolding current_recorded_def by blast
    have "x \<in> set (lg_epochs ?db)" using x p'(2) unfolding eps by (auto simp: at_defs)
    then show ?thesis using x(2) unfolding current_recorded_def by (rule bexI [rotated])
  qed
  moreover have "row_in_epoch ?db r" if r: "r \<in> set (lg_log ?db)" for r
  proof -
    have r': "r \<in> set (lg_log db)" "\<not> lr_at topic part r" using r f(1) by simp_all
    have "x \<in> set (lg_epochs ?db)" if "x \<in> set (lg_epochs db)" "epoch_at r x" for x
      using that r'(2) unfolding eps by (auto simp: at_defs epoch_at_def)
    moreover have "set (lg_epochs ?db) \<subseteq> set (lg_epochs db)" unfolding eps by simp
    ultimately show ?thesis using epoch_inv_row [OF e r'(1)] unfolding row_in_epoch_def by blast
  qed
  ultimately show ?thesis by (simp add: epoch_inv_def)
qed

lemma promote_epoch_inv:
  assumes inv: "log_inv seg_size crc db" and e: "epoch_inv db"
    and "set_leader_epoch topic part epoch db = Inr (raised, db')"
  shows "epoch_inv db'"
  using assms(3)
proof (cases rule: set_leader_epoch_cases)
  case (1 p)
  then show ?thesis using e by simp
next
  case (2 p)
  let ?new = "\<lparr>ep_topic = topic, ep_partition = part, ep_epoch = epoch, ep_start = pt_next_offset p\<rparr> :: epoch_row"
  let ?left = "filter (\<lambda>x. \<not> (ep_at topic part x \<and> ep_start x \<ge> pt_next_offset p \<and> sint (ep_epoch x) < sint epoch)) (lg_epochs db)"
  let ?f = "\<lambda>r. if pt_at topic part r then r\<lparr>pt_leader_epoch := epoch, pt_epoch_start := pt_next_offset r\<rparr> else r"
  have pok: "partitions_ok (lg_partitions db)" using inv by (rule log_inv_partitions)
  have pin: "p \<in> set (lg_partitions db)" "pt_at topic part p" using 2(1) by (simp_all add: find_partition_iff [OF pok])
  have uniq: "q = p" if "q \<in> set (lg_partitions db)" "pt_at topic part q" for q
    using that 2(1) find_partition_iff [OF pok, of topic part q] by simp
  have below: "sint (ep_epoch x) < sint epoch" if "x \<in> set (lg_epochs db)" "ep_at topic part x" for x
    using entry_partition(1) [OF inv e that 2(1)] 2(2) by simp
  have eps: "lg_epochs db' = ?left @ [?new]"
    using below by (auto simp: 2(4) assign_epoch_def Let_def)
  have parts: "lg_partitions db' = map ?f (lg_partitions db)" and log: "lg_log db' = lg_log db" by (simp_all add: 2(4))
  have p': "?f p \<in> set (lg_partitions db')" using pin(1) unfolding parts set_map by (rule imageI)
  have nonneg: "0 \<le> sint epoch" "0 \<le> pt_next_offset p"
  proof -
    obtain x where "x \<in> set (lg_epochs db)" "ep_epoch x = pt_leader_epoch p"
      using epoch_inv_current [OF e pin(1)] unfolding current_recorded_def by blast
    then show "0 \<le> sint epoch" using epoch_inv_entry [OF e, of x] 2(2) by (simp add: entry_bounds_def)
    show "0 \<le> pt_next_offset p" using pok pin(1) by (force simp: partitions_ok_def)
  qed
  have entry: "entry_bounds db' x" if x: "x \<in> set (lg_epochs db')" for x
  proof (cases "x = ?new")
    case True
    then show ?thesis
      using nonneg pin(2) p' unfolding entry_bounds_def by (intro conjI bexI [of _ "?f p"]) (simp_all add: at_defs)
  next
    case False
    then have x': "x \<in> set (lg_epochs db)" using x eps by auto
    obtain q where q: "q \<in> set (lg_partitions db)" "pt_at (ep_topic x) (ep_partition x) q"
        "sint (ep_epoch x) \<le> sint (pt_leader_epoch q)" "ep_start x \<le> pt_next_offset q"
      using epoch_inv_entry [OF e x'] unfolding entry_bounds_def by blast
    have "?f q \<in> set (lg_partitions db')" using q(1) unfolding parts set_map by (rule imageI)
    moreover have "pt_at (ep_topic x) (ep_partition x) (?f q) \<and> sint (ep_epoch x) \<le> sint (pt_leader_epoch (?f q))
        \<and> ep_start x \<le> pt_next_offset (?f q)"
    proof (cases "pt_at topic part q")
      case True
      then have "q = p" by (rule uniq [OF q(1)])
      then show ?thesis using q 2(2) pin(2) by (simp add: pt_at_def)
    next
      case False
      then show ?thesis using q by simp
    qed
    ultimately have "\<exists>q \<in> set (lg_partitions db'). pt_at (ep_topic x) (ep_partition x) q
        \<and> sint (ep_epoch x) \<le> sint (pt_leader_epoch q) \<and> ep_start x \<le> pt_next_offset q" by (rule rev_bexI)
    then show ?thesis using epoch_inv_entry [OF e x'] by (simp add: entry_bounds_def)
  qed
  have current: "current_recorded db' a" if a: "a \<in> set (lg_partitions db')" for a
  proof -
    obtain q where q: "q \<in> set (lg_partitions db)" "a = ?f q" using a unfolding parts set_map by (rule imageE)
    show ?thesis
    proof (cases "pt_at topic part q")
      case True
      then show ?thesis unfolding current_recorded_def eps q(2) by (intro bexI [of _ ?new]) (simp_all add: at_defs)
    next
      case False
      obtain x where x: "x \<in> set (lg_epochs db)" "ep_at (pt_topic q) (pt_partition q) x" "ep_epoch x = pt_leader_epoch q"
        using epoch_inv_current [OF e q(1)] unfolding current_recorded_def by blast
      then have "x \<in> set (lg_epochs db')" using False unfolding eps by (auto simp: at_defs)
      then show ?thesis using x(2,3) False unfolding current_recorded_def q(2) by (intro bexI [of _ x]) simp_all
    qed
  qed
  have row: "row_in_epoch db' r" if r: "r \<in> set (lg_log db)" for r
  proof -
    obtain x where x: "x \<in> set (lg_epochs db)" "epoch_at r x" "ep_epoch x = lr_leader_epoch r" "ep_start x \<le> lr_base r"
      using epoch_inv_row [OF e r] unfolding row_in_epoch_def by fastforce
    have end_r: "lr_last r < pt_next_offset p" "lr_base r < pt_next_offset p" if "lr_at topic part r"
      using row_partition [OF inv r that 2(1)] row_ok_span [OF log_inv_row [OF inv r]] by simp_all
    have "x \<in> set ?left" using x end_r by (auto simp: epoch_at_def at_defs)
    then have keep: "\<exists>x \<in> set (lg_epochs db'). epoch_at r x \<and> ep_epoch x = lr_leader_epoch r"
      using x(2,3) unfolding eps by (intro bexI [of _ x]) simp_all
    have "if sint (ep_epoch y) \<le> sint (lr_leader_epoch r) then ep_start y \<le> lr_base r else lr_last r < ep_start y"
      if y: "y \<in> set (lg_epochs db')" "epoch_at r y" for y
    proof (cases "y = ?new")
      case True
      then have at: "lr_at topic part r" using y(2) by (simp add: epoch_at_def at_defs)
      then have "sint (lr_leader_epoch r) < sint epoch"
        using below [OF x(1)] x(2,3) by (simp add: epoch_at_def at_defs)
      then show ?thesis using True end_r(1) [OF at] by simp
    next
      case False
      then have "y \<in> set (lg_epochs db)" using y(1) eps by auto
      then show ?thesis using epoch_inv_row [OF e r] y(2) unfolding row_in_epoch_def by blast
    qed
    with keep show ?thesis unfolding row_in_epoch_def by blast
  qed
  show ?thesis unfolding epoch_inv_def log using entry current row by blast
qed

text \<open>The answer separates the log: batches of the epochs up to the one asked about end below it, later
  ones start at or above it.\<close>

lemma matched_epoch_max:
  "matched_epoch topic part epoch db = Some m \<Longrightarrow>
     (\<exists>x \<in> set (lg_epochs db). ep_at topic part x \<and> sint (ep_epoch x) = m) \<and> m \<le> sint epoch
     \<and> (\<forall>x \<in> set (lg_epochs db). ep_at topic part x \<longrightarrow> sint (ep_epoch x) \<le> sint epoch \<longrightarrow> sint (ep_epoch x) \<le> m)"
proof -
  let ?xs = "filter (\<lambda>r. ep_at topic part r \<and> sint (ep_epoch r) \<le> sint epoch) (lg_epochs db)"
  assume "matched_epoch topic part epoch db = Some m"
  then have ne: "?xs \<noteq> []" and m: "m = Max ((\<lambda>r. sint (ep_epoch r)) ` set ?xs)"
    by (auto simp: matched_epoch_def sql_max_def split: if_splits)
  have "m \<in> (\<lambda>r. sint (ep_epoch r)) ` set ?xs" unfolding m by (rule Max_in) (use ne in \<open>simp_all del: set_filter add: set_empty\<close>)
  moreover have "\<forall>x \<in> set ?xs. sint (ep_epoch x) \<le> m" unfolding m by simp
  ultimately show ?thesis by auto
qed

lemma matched_epoch_None:
  "matched_epoch topic part epoch db = None \<Longrightarrow>
     \<forall>x \<in> set (lg_epochs db). ep_at topic part x \<longrightarrow> sint epoch < sint (ep_epoch x)"
  by (auto simp: matched_epoch_def sql_max_def filter_empty_conv split: if_splits)

end
