(* ===== verification/TxnCoordinator.thy ===== *)
theory TxnCoordinator
  imports Epoch_History BatchBuild Acl
begin

text \<open>
  The transaction coordinator (\<open>src/extension/src/handlers/txn.rs\<close>) and \<open>InitProducerId\<close>
  (\<open>src/extension/src/handlers/init_producer_id.rs\<close>), on the tables of \<open>LogTables\<close> and the table engine.

  Every handler runs in one database transaction that is rolled back on an error, so an error carries
  no state. Two kinds are told apart: \<open>TxnInternal\<close> is the \<open>Err\<close> a caller can still catch, \<open>Raised\<close> a
  statement PostgreSQL refused, which ends the request. Row and advisory locks order the requests;
  a step of the model runs under them. \<open>tv\<close> is the setting \<open>transaction_version\<close>.
\<close>

datatype txn_failure = TxnInternal | Raised

subsection \<open>Admission\<close>

datatype verdict = NoTransactionalId | UnknownProducer | Stale

fun verdict_code :: "verdict \<Rightarrow> i16 \<Rightarrow> error_code" where
  "verdict_code NoTransactionalId version = E_InvalidRequest"
| "verdict_code UnknownProducer version = E_InvalidProducerIdMapping"
| "verdict_code Stale version = (if sint version \<ge> 2 then E_ProducerFenced else E_InvalidProducerEpoch)"

record admitted =
  ad_producer_id :: i64
  ad_epoch :: i16

definition producer_of :: "i64 \<Rightarrow> log_db \<Rightarrow> producer_row option" where
  "producer_of pid db = List.find (\<lambda>r. pr_producer_id r = pid) (db_producers (lg_producer db))"

definition txn_of :: "i64 \<Rightarrow> log_db \<Rightarrow> txn_row option" where
  "txn_of pid db = List.find (\<lambda>t. tx_producer_id t = pid) (db_txns (lg_producer db))"

definition update_producers :: "(producer_row \<Rightarrow> producer_row) \<Rightarrow> log_db \<Rightarrow> log_db" where
  "update_producers f db =
     db\<lparr>lg_producer := (lg_producer db)\<lparr>db_producers := map f (db_producers (lg_producer db))\<rparr>\<rparr>"

definition update_txn :: "i64 \<Rightarrow> (txn_row \<Rightarrow> txn_row) \<Rightarrow> log_db \<Rightarrow> log_db" where
  "update_txn pid f db =
     db\<lparr>lg_producer := (lg_producer db)\<lparr>db_txns := map (\<lambda>t. if tx_producer_id t = pid then f t else t)
       (db_txns (lg_producer db))\<rparr>\<rparr>"

definition txn_lists :: "i64 \<Rightarrow> u32 \<Rightarrow> i32 \<Rightarrow> log_db \<Rightarrow> bool" where
  "txn_lists pid topic part db \<longleftrightarrow>
     (\<exists>r \<in> set (lg_txn_partitions db). tp_producer_id r = pid \<and> tp_at topic part r)"

definition admission :: "i64 \<Rightarrow> i16 \<Rightarrow> i16 \<Rightarrow> bool \<Rightarrow> bool \<Rightarrow> (txn_state \<times> i16) option \<Rightarrow> (verdict + admitted) \<times> bool" where
  "admission pid epoch current mapped listed txn =
     (if \<not> mapped then (Inl UnknownProducer, False)
      else if epoch \<noteq> current then (Inl Stale, False)
      else (Inr \<lparr>ad_producer_id = pid, ad_epoch = epoch\<rparr>, listed \<and> txn = Some (TxnOngoing, epoch)))"

text \<open>\<open>lock_txn\<close> reads the state and epoch of the transaction row it locks.\<close>

definition lock_txn :: "i64 \<Rightarrow> log_db \<Rightarrow> (txn_state \<times> i16) option" where
  "lock_txn pid db = map_option (\<lambda>t. (tx_state t, tx_producer_epoch t)) (txn_of pid db)"

text \<open>A row without a transactional id concatenates to NULL, as no row does.\<close>

definition judge :: "bytes \<Rightarrow> i64 \<Rightarrow> i16 \<Rightarrow> (u32 \<times> i32) option \<Rightarrow> log_db \<Rightarrow> (verdict + admitted) \<times> bool" where
  "judge txn_id pid epoch listing db =
     (if txn_id = [] then (Inl NoTransactionalId, False)
      else let txn = lock_txn pid db;
               listed = (case listing of None \<Rightarrow> False | Some (topic, part) \<Rightarrow> txn_lists pid topic part db)
           in case producer_of pid db of
                None \<Rightarrow> (Inl UnknownProducer, False)
              | Some p \<Rightarrow>
                  (case pr_transactional_id p of
                     None \<Rightarrow> (Inl UnknownProducer, False)
                   | Some t \<Rightarrow> admission pid epoch (pr_producer_epoch p) (t = txn_id) listed txn))"

definition verdict :: "bytes \<Rightarrow> i64 \<Rightarrow> i16 \<Rightarrow> log_db \<Rightarrow> verdict + admitted" where
  "verdict txn_id pid epoch db = fst (judge txn_id pid epoch None db)"

definition judge_held :: "bytes \<Rightarrow> i64 \<Rightarrow> i16 \<Rightarrow> u32 \<Rightarrow> i32 \<Rightarrow> log_db \<Rightarrow> (verdict + admitted) \<times> bool" where
  "judge_held txn_id pid epoch topic part db =
     (if txn_id = [] then (Inl NoTransactionalId, False)
      else case producer_of pid db of
             None \<Rightarrow> (Inl UnknownProducer, False)
           | Some p \<Rightarrow>
               (case pr_transactional_id p of
                  None \<Rightarrow> (Inl UnknownProducer, False)
                | Some t \<Rightarrow>
                    admission pid epoch (pr_producer_epoch p) (t = txn_id) (txn_lists pid topic part db)
                      (map_option (\<lambda>t. (tx_state t, tx_producer_epoch t)) (txn_of pid db))))"

subsection \<open>Beginning a transaction\<close>

definition upsert_txn :: "txn_row \<Rightarrow> (txn_row \<Rightarrow> txn_row) \<Rightarrow> log_db \<Rightarrow> log_db" where
  "upsert_txn new f db =
     (if \<exists>t \<in> set (db_txns (lg_producer db)). tx_producer_id t = tx_producer_id new
      then update_txn (tx_producer_id new) f db
      else db\<lparr>lg_producer := (lg_producer db)\<lparr>db_txns := db_txns (lg_producer db) @ [new]\<rparr>\<rparr>)"

text \<open>The row inserted takes the defaults of its columns.\<close>

definition fresh_txn :: "i64 \<Rightarrow> i16 \<Rightarrow> bytes \<Rightarrow> txn_state \<Rightarrow> int \<Rightarrow> i32 \<Rightarrow> txn_row" where
  "fresh_txn pid epoch txn_id state started timeout =
     \<lparr>tx_producer_id = pid, tx_producer_epoch = epoch, tx_transactional_id = txn_id, tx_state = state,
      tx_started_at = started, tx_timeout_ms = timeout, tx_forced_result = None, tx_offsets_partitions = []\<rparr>"

definition DEFAULT_TIMEOUT_MS :: i32 where "DEFAULT_TIMEOUT_MS = 60000"

definition clear_txn_rows :: "i64 \<Rightarrow> log_db \<Rightarrow> log_db" where
  "clear_txn_rows pid db =
     db\<lparr>lg_txn_partitions := filter (\<lambda>r. tp_producer_id r \<noteq> pid) (lg_txn_partitions db),
        lg_txn_offsets := filter (\<lambda>r. to_producer_id r \<noteq> pid) (lg_txn_offsets db)\<rparr>"

definition begin_or_continue :: "int \<Rightarrow> admitted \<Rightarrow> bytes \<Rightarrow> log_db \<Rightarrow> log_db" where
  "begin_or_continue now ad txn_id db =
     (let pid = ad_producer_id ad;
          db = update_producers (\<lambda>r. if pr_producer_id r = pid then r\<lparr>pr_last_ts := now\<rparr> else r) db;
          beginning = (case txn_of pid db of None \<Rightarrow> True | Some t \<Rightarrow> tx_state t \<noteq> TxnOngoing);
          db = (if beginning then clear_txn_rows pid db else db)
      in upsert_txn (fresh_txn pid (ad_epoch ad) txn_id TxnOngoing now DEFAULT_TIMEOUT_MS)
           (\<lambda>t. t\<lparr>tx_producer_epoch := ad_epoch ad, tx_state := TxnOngoing,
                  tx_started_at := (if tx_state t = TxnOngoing then tx_started_at t else now),
                  tx_offsets_partitions := (if tx_state t = TxnOngoing then tx_offsets_partitions t else []),
                  tx_forced_result := (if tx_state t = TxnOngoing then tx_forced_result t else None)\<rparr>) db)"

definition add_partition :: "i64 \<Rightarrow> u32 \<Rightarrow> i32 \<Rightarrow> log_db \<Rightarrow> log_db" where
  "add_partition pid topic part db =
     (if txn_lists pid topic part db then db
      else db\<lparr>lg_txn_partitions := lg_txn_partitions db @
             [\<lparr>tp_producer_id = pid, tp_topic = topic, tp_partition = part, tp_first_offset = - 1\<rparr>]\<rparr>)"

fun add_topic_partitions :: "i64 \<Rightarrow> u32 \<Rightarrow> i32 \<Rightarrow> i32 list \<Rightarrow> log_db \<Rightarrow> log_db" where
  "add_topic_partitions pid topic n [] db = db"
| "add_topic_partitions pid topic n (p # ps) db =
     add_topic_partitions pid topic n ps
       (if sint p < 0 \<or> sint p \<ge> sint n then db else add_partition pid topic p db)"

fun add_topics :: "i64 \<Rightarrow> (bytes \<times> i32 list) list \<Rightarrow> log_db \<Rightarrow> log_db" where
  "add_topics pid [] db = db"
| "add_topics pid ((name, ps) # ts) db =
     add_topics pid ts
       (case topic_id_by_name name db of
          None \<Rightarrow> db
        | Some topic \<Rightarrow> add_topic_partitions pid topic (partition_count topic db) ps db)"

record add_partitions_request =
  ap_transactional_id :: bytes
  ap_producer_id :: i64
  ap_producer_epoch :: i16
  ap_topics :: "(bytes \<times> i32 list) list"

record add_partitions_reply =
  ar_error_code :: error_code
  ar_results_by_topic :: "(bytes \<times> (i32 \<times> error_code) list) list"

definition handle_add_partitions :: "int \<Rightarrow> add_partitions_request \<Rightarrow> i16 \<Rightarrow> log_db \<Rightarrow> add_partitions_reply \<times> log_db" where
  "handle_add_partitions now req version db =
     (if sint version \<ge> 4 then (\<lparr>ar_error_code = E_InvalidRequest, ar_results_by_topic = []\<rparr>, db)
      else let v = verdict (ap_transactional_id req) (ap_producer_id req) (ap_producer_epoch req) db;
               err = (case v of Inl e \<Rightarrow> verdict_code e version | Inr _ \<Rightarrow> E_None);
               db = (case v of
                       Inl _ \<Rightarrow> db
                     | Inr ad \<Rightarrow> add_topics (ap_producer_id req) (ap_topics req)
                                  (begin_or_continue now ad (ap_transactional_id req) db))
           in (\<lparr>ar_error_code = E_None,
                ar_results_by_topic = map (\<lambda>(name, ps). (name, map (\<lambda>p. (p, err)) ps)) (ap_topics req)\<rparr>, db))"

subsection \<open>Checking a produced batch\<close>

datatype produce_txn = TxnAdded | AddsPartition admitted | TxnRefused error_code

definition PRODUCE_ADDS_PARTITION_FROM :: int where "PRODUCE_ADDS_PARTITION_FROM = 12"
definition PRODUCE_ABORTABLE_FROM :: int where "PRODUCE_ABORTABLE_FROM = 11"

fun produce_verdict :: "(verdict + admitted) \<times> bool \<Rightarrow> i16 \<Rightarrow> produce_txn" where
  "produce_verdict (Inl Stale, _) version = TxnRefused E_InvalidProducerEpoch"
| "produce_verdict (Inl v, _) version = TxnRefused E_InvalidProducerIdMapping"
| "produce_verdict (Inr ad, True) version = TxnAdded"
| "produce_verdict (Inr ad, False) version =
     (if sint version \<ge> PRODUCE_ADDS_PARTITION_FROM then AddsPartition ad
      else if sint version \<ge> PRODUCE_ABORTABLE_FROM then TxnRefused E_TransactionAbortable
      else TxnRefused E_InvalidTxnState)"

definition verify_held_produce :: "bytes option \<Rightarrow> i64 \<Rightarrow> i16 \<Rightarrow> u32 \<Rightarrow> i32 \<Rightarrow> i16 \<Rightarrow> log_db \<Rightarrow> produce_txn" where
  "verify_held_produce transactional_id pid epoch topic part version db =
     (case transactional_id of
        None \<Rightarrow> TxnRefused E_TransactionalIdAuthorizationFailed
      | Some txn_id \<Rightarrow> produce_verdict (judge_held txn_id pid epoch topic part db) version)"

subsection \<open>Markers\<close>

definition append_marker :: "int \<Rightarrow> (bytes \<Rightarrow> u32) \<Rightarrow> int \<Rightarrow> i64 \<Rightarrow> i16 \<Rightarrow> u32 \<Rightarrow> i32 \<Rightarrow> int \<Rightarrow> bool \<Rightarrow> log_db \<Rightarrow> txn_failure + log_db" where
  "append_marker seg_size crc now pid epoch topic part first_offset committed db =
     (let bytes = build_control_batch crc pid epoch committed in
      case record_batch_new bytes of
        Inl _ \<Rightarrow> Inl TxnInternal
      | Inr view \<Rightarrow>
          (case append seg_size crc now topic part
                  \<lparr>rb_bytes = bytes, rb_record_count = record_count view,
                   rb_last_offset_delta = last_offset_delta view, rb_max_timestamp = max_timestamp view,
                   rb_producer_id = pid, rb_producer_epoch = epoch, rb_base_sequence = - 1,
                   rb_is_transactional = True, rb_is_control = True\<rparr> db of
             Inl StoreIo \<Rightarrow> Inl Raised
           | Inl _ \<Rightarrow> Inl TxnInternal
           | Inr (marker_offset, db) \<Rightarrow>
               Inr (if \<not> committed \<and> first_offset \<ge> 0
                    then record_aborted_txn topic part pid first_offset marker_offset db else db)))"

fun append_markers :: "int \<Rightarrow> (bytes \<Rightarrow> u32) \<Rightarrow> int \<Rightarrow> i64 \<Rightarrow> i16 \<Rightarrow> bool \<Rightarrow> txn_partition_row list \<Rightarrow> log_db \<Rightarrow> txn_failure + log_db" where
  "append_markers seg_size crc now pid epoch committed [] db = Inr db"
| "append_markers seg_size crc now pid epoch committed (r # rs) db =
     rbind (append_marker seg_size crc now pid epoch (tp_topic r) (tp_partition r) (tp_first_offset r) committed db)
       (append_markers seg_size crc now pid epoch committed rs)"

text \<open>\<open>producer_epoch\<close> is a \<open>smallint\<close>: incrementing 32767 fails the statement.\<close>

definition fence :: "i64 \<Rightarrow> log_db \<Rightarrow> txn_failure + (int \<times> log_db)" where
  "fence pid db =
     (case producer_of pid db of
        None \<Rightarrow> Inr (- 1, db)
      | Some p \<Rightarrow>
          if sint (pr_producer_epoch p) = 32767 then Inl Raised
          else Inr (sint (pr_producer_epoch p + 1),
            update_producers (\<lambda>r. if pr_producer_id r = pid
              then r\<lparr>pr_producer_epoch := pr_producer_epoch r + 1, pr_retired_producer_id := None,
                     pr_retired_epoch := None, pr_retired_committed := None\<rparr> else r) db))"

subsection \<open>Ending a transaction\<close>

datatype finish = NotOurs | Ended | NotOpen "bool option" | Overridden

text \<open>The staged offsets of the producer, upserted into the committed ones.\<close>

definition commit_staged :: "int \<Rightarrow> txn_offset_row \<Rightarrow> offset_row list \<Rightarrow> offset_row list" where
  "commit_staged now s rows =
     (let this = (\<lambda>r. of_group_id r = to_group_id s \<and> of_topic r = to_topic s \<and> of_partition r = to_partition s) in
      if \<exists>r \<in> set rows. this r
      then map (\<lambda>r. if this r then r\<lparr>of_committed_offset := to_committed_offset s,
                 of_committed_leader_epoch := to_committed_leader_epoch s, of_metadata := to_metadata s,
                 of_commit_ts := now\<rparr> else r) rows
      else rows @ [\<lparr>of_group_id = to_group_id s, of_topic = to_topic s, of_partition = to_partition s,
             of_committed_offset = to_committed_offset s, of_committed_leader_epoch = to_committed_leader_epoch s,
             of_metadata = to_metadata s, of_commit_ts = now\<rparr>])"

definition settle_offsets :: "int \<Rightarrow> i64 \<Rightarrow> bool \<Rightarrow> log_db \<Rightarrow> log_db" where
  "settle_offsets now pid committed db =
     (let db = (if committed
                then db\<lparr>lg_offsets := fold (commit_staged now)
                       (filter (\<lambda>s. to_producer_id s = pid) (lg_txn_offsets db)) (lg_offsets db)\<rparr>
                else db)
      in db\<lparr>lg_txn_offsets := filter (\<lambda>s. to_producer_id s \<noteq> pid) (lg_txn_offsets db)\<rparr>)"

definition settle_txn :: "i64 \<Rightarrow> bool \<Rightarrow> log_db \<Rightarrow> log_db" where
  "settle_txn pid committed db =
     update_txn pid (\<lambda>t. t\<lparr>tx_state := (if committed then TxnCommitted else TxnAborted),
                            tx_offsets_partitions := []\<rparr>) db"

text \<open>The partitions to mark: those of topics that still exist, in order.\<close>

definition marked_partitions :: "i64 \<Rightarrow> log_db \<Rightarrow> txn_partition_row list" where
  "marked_partitions pid db =
     sort_key (\<lambda>r. uint (tp_topic r)) (sort_key (\<lambda>r. sint (tp_partition r))
       (filter (\<lambda>r. tp_producer_id r = pid \<and> (\<exists>t \<in> set (lg_topics db). tr_topic_id t = tp_topic r))
          (lg_txn_partitions db)))"

definition finish_transaction :: "int \<Rightarrow> (bytes \<Rightarrow> u32) \<Rightarrow> int \<Rightarrow> i64 \<Rightarrow> i16 \<Rightarrow> bool \<Rightarrow> log_db \<Rightarrow> txn_failure + (finish \<times> log_db)" where
  "finish_transaction seg_size crc now pid epoch requested db =
     (case txn_of pid db of
        None \<Rightarrow> Inr (NotOurs, db)
      | Some t \<Rightarrow>
          if (case producer_of pid db of None \<Rightarrow> False | Some p \<Rightarrow> sint (pr_producer_epoch p) > sint epoch) then Inr (NotOurs, db)
          else case tx_state t of
            TxnEmpty \<Rightarrow> Inr (NotOpen None, db)
          | TxnCommitted \<Rightarrow> Inr (NotOpen (Some True), db)
          | TxnAborted \<Rightarrow> Inr (NotOpen (Some False), db)
          | TxnOngoing \<Rightarrow>
              let committed = (case tx_forced_result t of None \<Rightarrow> requested | Some f \<Rightarrow> f);
                  overridden = (case tx_forced_result t of None \<Rightarrow> False | Some f \<Rightarrow> f \<noteq> requested)
              in rbind (append_markers seg_size crc now pid epoch committed (marked_partitions pid db) db) (\<lambda>db.
                   let db = settle_offsets now pid committed db;
                       db = db\<lparr>lg_txn_partitions := filter (\<lambda>r. tp_producer_id r \<noteq> pid) (lg_txn_partitions db)\<rparr>;
                       db = settle_txn pid committed db
                   in if overridden then rbind (fence pid db) (\<lambda>(_, db). Inr (Overridden, db))
                      else Inr (Ended, db)))"

datatype retry = RetryOf i64 i16 | OutcomeMismatch | NotRetry

definition completed_retry :: "bytes \<Rightarrow> i64 \<Rightarrow> i16 \<Rightarrow> bool \<Rightarrow> log_db \<Rightarrow> retry" where
  "completed_retry txn_id pid epoch committed db =
     (case List.find (\<lambda>p. pr_retired_producer_id p = Some pid \<and> pr_retired_epoch p = Some epoch
                        \<and> pr_transactional_id p = Some txn_id
                        \<and> \<not> has_open_txn (lg_producer db) (pr_producer_id p)) (db_producers (lg_producer db)) of
        None \<Rightarrow> NotRetry
      | Some p \<Rightarrow> if pr_retired_committed p = Some committed
                  then RetryOf (pr_producer_id p) (pr_producer_epoch p) else OutcomeMismatch)"

record end_txn_request =
  et_transactional_id :: bytes
  et_producer_id :: i64
  et_producer_epoch :: i16
  et_committed :: bool

record end_txn_reply =
  er_error_code :: error_code
  er_producer_id :: i64
  er_producer_epoch :: i16

definition unchanged_pair :: "end_txn_request \<Rightarrow> error_code \<Rightarrow> end_txn_reply" where
  "unchanged_pair req err = \<lparr>er_error_code = err, er_producer_id = et_producer_id req,
     er_producer_epoch = et_producer_epoch req\<rparr>"

text \<open>\<open>bump_epoch_for_next_txn\<close> of \<open>Producer\<close>, on the producer tables of the database.\<close>

definition rotate_pair :: "int \<Rightarrow> end_txn_request \<Rightarrow> log_db \<Rightarrow> end_txn_reply \<times> log_db" where
  "rotate_pair now req db =
     (let ((pid, epoch), pdb) = bump_epoch_for_next_txn now (et_producer_id req) (et_committed req) (lg_producer db)
      in (\<lparr>er_error_code = E_None, er_producer_id = pid, er_producer_epoch = epoch\<rparr>, db\<lparr>lg_producer := pdb\<rparr>))"

definition end_verified :: "int \<Rightarrow> (bytes \<Rightarrow> u32) \<Rightarrow> int \<Rightarrow> bool \<Rightarrow> end_txn_request \<Rightarrow> log_db \<Rightarrow> txn_failure + (end_txn_reply \<times> log_db)" where
  "end_verified seg_size crc now rotating req db =
     rbind (finish_transaction seg_size crc now (et_producer_id req) (et_producer_epoch req) (et_committed req) db)
       (\<lambda>(outcome, db).
          case outcome of
            NotOurs \<Rightarrow> Inr (unchanged_pair req E_InvalidProducerEpoch, db)
          | Overridden \<Rightarrow> Inr (unchanged_pair req E_InvalidProducerEpoch, db)
          | NotOpen prev \<Rightarrow>
              if \<not> rotating
              then Inr (unchanged_pair req (if prev = Some (et_committed req) then E_None else E_InvalidTxnState), db)
              else if et_committed req then Inr (unchanged_pair req E_InvalidTxnState, db)
              else Inr (rotate_pair now req (update_txn (et_producer_id req)
                     (\<lambda>t. t\<lparr>tx_state := TxnAborted, tx_offsets_partitions := []\<rparr>) db))
          | Ended \<Rightarrow>
              if \<not> rotating then Inr (unchanged_pair req E_None, db) else Inr (rotate_pair now req db))"

definition handle_end_txn :: "int \<Rightarrow> (bytes \<Rightarrow> u32) \<Rightarrow> int \<Rightarrow> int \<Rightarrow> end_txn_request \<Rightarrow> i16 \<Rightarrow> log_db \<Rightarrow> txn_failure + (end_txn_reply \<times> log_db)" where
  "handle_end_txn seg_size crc now tv req version db =
     (if et_transactional_id req = [] then Inr (unchanged_pair req (verdict_code NoTransactionalId version), db)
      else let rotating = (sint version \<ge> 5 \<and> tv \<ge> 2);
               retry = (if rotating then completed_retry (et_transactional_id req) (et_producer_id req)
                          (et_producer_epoch req) (et_committed req) db else NotRetry)
           in case retry of
                RetryOf pid epoch \<Rightarrow>
                  Inr (\<lparr>er_error_code = E_None, er_producer_id = pid, er_producer_epoch = epoch\<rparr>, db)
              | OutcomeMismatch \<Rightarrow> Inr (unchanged_pair req E_InvalidTxnState, db)
              | NotRetry \<Rightarrow>
                  (case verdict (et_transactional_id req) (et_producer_id req) (et_producer_epoch req) db of
                     Inl v \<Rightarrow> Inr (unchanged_pair req (verdict_code v version), db)
                   | Inr _ \<Rightarrow> end_verified seg_size crc now rotating req db))"

subsection \<open>InitProducerId\<close>

text \<open>The open transactions of a transactional id: those of its producer, and those whose producer row is
  gone. Each is ended at the producer's current epoch, or its own when the producer is gone.\<close>

definition abandoned :: "bytes \<Rightarrow> log_db \<Rightarrow> (i64 \<times> i16) list" where
  "abandoned txn_id db =
     map (\<lambda>t. (tx_producer_id t, case producer_of (tx_producer_id t) db of
                 None \<Rightarrow> tx_producer_epoch t | Some p \<Rightarrow> pr_producer_epoch p))
       (sort_key (\<lambda>t. sint (tx_producer_id t))
         (filter (\<lambda>t. tx_transactional_id t = txn_id \<and> tx_state t = TxnOngoing
                    \<and> (case producer_of (tx_producer_id t) db of
                         None \<Rightarrow> True | Some p \<Rightarrow> pr_transactional_id p = Some txn_id))
            (db_txns (lg_producer db))))"

fun abort_each :: "int \<Rightarrow> (bytes \<Rightarrow> u32) \<Rightarrow> int \<Rightarrow> (i64 \<times> i16) list \<Rightarrow> log_db \<Rightarrow> txn_failure + log_db" where
  "abort_each seg_size crc now [] db = Inr db"
| "abort_each seg_size crc now ((pid, epoch) # ts) db =
     rbind (finish_transaction seg_size crc now pid epoch False db)
       (\<lambda>(_, db). abort_each seg_size crc now ts db)"

definition abort_abandoned :: "int \<Rightarrow> (bytes \<Rightarrow> u32) \<Rightarrow> int \<Rightarrow> bytes \<Rightarrow> log_db \<Rightarrow> txn_failure + log_db" where
  "abort_abandoned seg_size crc now txn_id db = abort_each seg_size crc now (abandoned txn_id db) db"

definition MAX_TRANSACTION_TIMEOUT_MS :: int where "MAX_TRANSACTION_TIMEOUT_MS = 900000"

definition clamp_timeout :: "i32 \<Rightarrow> i32" where
  "clamp_timeout ms = word_of_int (min MAX_TRANSACTION_TIMEOUT_MS (max 1000 (sint ms)))"

definition finished_elsewhere :: "bytes \<Rightarrow> i64 \<Rightarrow> txn_row \<Rightarrow> bool" where
  "finished_elsewhere txn_id pid t \<longleftrightarrow>
     tx_transactional_id t = txn_id \<and> tx_producer_id t \<noteq> pid \<and> tx_state t \<noteq> TxnOngoing"

definition forget_finished :: "bytes \<Rightarrow> i64 \<Rightarrow> log_db \<Rightarrow> log_db" where
  "forget_finished txn_id pid db =
     (let gone = map tx_producer_id (filter (finished_elsewhere txn_id pid) (db_txns (lg_producer db))) in
      db\<lparr>lg_txn_partitions := filter (\<lambda>r. tp_producer_id r \<notin> set gone) (lg_txn_partitions db),
         lg_txn_offsets := filter (\<lambda>r. to_producer_id r \<notin> set gone) (lg_txn_offsets db),
         lg_producer := (lg_producer db)\<lparr>db_txns :=
           filter (\<lambda>t. \<not> finished_elsewhere txn_id pid t) (db_txns (lg_producer db))\<rparr>\<rparr>)"

record init_producer_request =
  ip_transactional_id :: "bytes option"
  ip_transaction_timeout_ms :: i32

record init_producer_reply =
  ir_error_code :: error_code
  ir_producer_id :: i64
  ir_producer_epoch :: i16

definition take_producer_id :: "int \<Rightarrow> bytes option \<Rightarrow> log_db \<Rightarrow> txn_failure + ((i64 \<times> i16) \<times> log_db)" where
  "take_producer_id now txn_id db =
     (case init_producer_id now txn_id (lg_producer db) of
        Inl _ \<Rightarrow> Inl Raised
      | Inr (pair, pdb) \<Rightarrow> Inr (pair, db\<lparr>lg_producer := pdb\<rparr>))"

definition handle_init_producer_id ::
  "int \<Rightarrow> (bytes \<Rightarrow> u32) \<Rightarrow> int \<Rightarrow> init_producer_request \<Rightarrow> authz \<Rightarrow> log_db \<Rightarrow> txn_failure + (init_producer_reply \<times> log_db)" where
  "handle_init_producer_id seg_size crc now req authz db =
     (case authz_check authz IdempotentWrite Cluster CLUSTER_NAME of
        Inl err \<Rightarrow> Inr (\<lparr>ir_error_code = err, ir_producer_id = - 1, ir_producer_epoch = - 1\<rparr>, db)
      | Inr _ \<Rightarrow>
          let txn_id = nonempty (ip_transactional_id req) in
          rbind (case txn_id of None \<Rightarrow> Inr db | Some i \<Rightarrow> abort_abandoned seg_size crc now i db) (\<lambda>db.
          rbind (take_producer_id now txn_id db) (\<lambda>((pid, epoch), db).
            let db = (case txn_id of
                        None \<Rightarrow> db
                      | Some i \<Rightarrow>
                          let timeout = clamp_timeout (ip_transaction_timeout_ms req) in
                          upsert_txn (fresh_txn pid epoch i TxnEmpty now timeout)
                            (\<lambda>t. t\<lparr>tx_producer_epoch := epoch, tx_timeout_ms := timeout,
                                   tx_forced_result := (if tx_state t = TxnOngoing then tx_forced_result t else None),
                                   tx_state := (if tx_state t = TxnOngoing then tx_state t else TxnEmpty)\<rparr>)
                            (forget_finished i pid db))
            in Inr (\<lparr>ir_error_code = E_None, ir_producer_id = pid, ir_producer_epoch = epoch\<rparr>, db))))"

subsection \<open>Offsets in a transaction\<close>

text \<open>\<open>str::encode_utf16\<close> of a valid UTF-8 string.\<close>

fun encode_utf16 :: "bytes \<Rightarrow> u16 list" where
  "encode_utf16 [] = []"
| "encode_utf16 (a # bs) =
     (if uint a < 0x80 then word_of_int (uint a) # encode_utf16 bs
      else if uint a < 0xE0 then
        (case bs of b # bs' \<Rightarrow> word_of_int (uint a mod 32 * 64 + uint b mod 64) # encode_utf16 bs' | _ \<Rightarrow> [])
      else if uint a < 0xF0 then
        (case bs of b # c # bs' \<Rightarrow>
             word_of_int (uint a mod 16 * 4096 + uint b mod 64 * 64 + uint c mod 64) # encode_utf16 bs'
         | _ \<Rightarrow> [])
      else
        (case bs of b # c # d # bs' \<Rightarrow>
             let v = uint a mod 8 * 262144 + uint b mod 64 * 4096 + uint c mod 64 * 64 + uint d mod 64 - 0x10000
             in word_of_int (0xD800 + v div 1024) # word_of_int (0xDC00 + v mod 1024) # encode_utf16 bs'
         | _ \<Rightarrow> []))"

definition OFFSETS_TOPIC_PARTITIONS :: int where "OFFSETS_TOPIC_PARTITIONS = 50"

definition offsets_partition :: "bytes \<Rightarrow> i32" where
  "offsets_partition gid =
     (let h = fold (\<lambda>u h. h * 31 + word_of_int (uint u)) (encode_utf16 gid) (0 :: i32) in
      if sint h = - (2 ^ 31) then 0 else word_of_int (\<bar>sint h\<bar> mod OFFSETS_TOPIC_PARTITIONS))"

definition add_offsets_partition :: "admitted \<Rightarrow> bytes \<Rightarrow> log_db \<Rightarrow> log_db" where
  "add_offsets_partition ad gid db =
     update_txn (ad_producer_id ad)
       (\<lambda>t. if offsets_partition gid \<in> set (tx_offsets_partitions t) then t
            else t\<lparr>tx_offsets_partitions := tx_offsets_partitions t @ [offsets_partition gid]\<rparr>) db"

definition offsets_partition_added :: "admitted \<Rightarrow> bytes \<Rightarrow> log_db \<Rightarrow> bool" where
  "offsets_partition_added ad gid db \<longleftrightarrow>
     (case txn_of (ad_producer_id ad) db of
        None \<Rightarrow> False
      | Some t \<Rightarrow> tx_state t = TxnOngoing \<and> tx_producer_epoch t = ad_epoch ad
                \<and> offsets_partition gid \<in> set (tx_offsets_partitions t))"

record add_offsets_request =
  ao_transactional_id :: bytes
  ao_producer_id :: i64
  ao_producer_epoch :: i16
  ao_group_id :: bytes

definition handle_add_offsets :: "int \<Rightarrow> add_offsets_request \<Rightarrow> i16 \<Rightarrow> log_db \<Rightarrow> error_code \<times> log_db" where
  "handle_add_offsets now req version db =
     (case verdict (ao_transactional_id req) (ao_producer_id req) (ao_producer_epoch req) db of
        Inl v \<Rightarrow> (verdict_code v version, db)
      | Inr ad \<Rightarrow> (E_None, add_offsets_partition ad (ao_group_id req)
                            (begin_or_continue now ad (ao_transactional_id req) db)))"

subsection \<open>Expiry\<close>

definition MAX_PER_SWEEP :: nat where "MAX_PER_SWEEP = 64"

definition txn_stale :: "int \<Rightarrow> txn_row \<Rightarrow> bool" where
  "txn_stale now t \<longleftrightarrow> tx_state t = TxnOngoing \<and> now - tx_started_at t > sint (tx_timeout_ms t)"

fun expire_each :: "int \<Rightarrow> (bytes \<Rightarrow> u32) \<Rightarrow> int \<Rightarrow> i64 list \<Rightarrow> nat \<Rightarrow> log_db \<Rightarrow> txn_failure + (nat \<times> log_db)" where
  "expire_each seg_size crc now [] ended db = Inr (ended, db)"
| "expire_each seg_size crc now (pid # pids) ended db =
     (case txn_of pid db of
        None \<Rightarrow> expire_each seg_size crc now pids ended db
      | Some t \<Rightarrow>
          if \<not> txn_stale now t then expire_each seg_size crc now pids ended db
          else rbind (finish_transaction seg_size crc now pid (tx_producer_epoch t) False db) (\<lambda>(outcome, db).
            case outcome of
              NotOurs \<Rightarrow> expire_each seg_size crc now pids ended db
            | NotOpen _ \<Rightarrow> expire_each seg_size crc now pids ended db
            | Overridden \<Rightarrow> expire_each seg_size crc now pids (ended + 1) db
            | Ended \<Rightarrow> rbind (fence pid db) (\<lambda>(_, db). expire_each seg_size crc now pids (ended + 1) db)))"

definition expire_stale_transactions :: "int \<Rightarrow> (bytes \<Rightarrow> u32) \<Rightarrow> int \<Rightarrow> log_db \<Rightarrow> txn_failure + (nat \<times> log_db)" where
  "expire_stale_transactions seg_size crc now db =
     (let stale = take MAX_PER_SWEEP (sort_key tx_started_at (filter (txn_stale now) (db_txns (lg_producer db))))
      in expire_each seg_size crc now (sort_key sint (map tx_producer_id stale)) 0 db)"

subsection \<open>Markers forced by an operator\<close>

definition finish_partition ::
  "int \<Rightarrow> (bytes \<Rightarrow> u32) \<Rightarrow> int \<Rightarrow> i64 \<Rightarrow> i16 \<Rightarrow> u32 \<Rightarrow> i32 \<Rightarrow> bool \<Rightarrow> log_db \<Rightarrow> txn_failure + (error_code \<times> log_db)" where
  "finish_partition seg_size crc now pid epoch topic part committed db =
     (let this = (\<lambda>r. tp_producer_id r = pid \<and> tp_at topic part r) in
      case (txn_of pid db, List.find this (lg_txn_partitions db)) of
        (Some t, Some r) \<Rightarrow>
          if tx_state t \<noteq> TxnOngoing then Inr (E_None, db)
          else if sint (tx_producer_epoch t) > sint epoch then Inr (E_InvalidProducerEpoch, db)
          else rbind (append_marker seg_size crc now pid epoch topic part (tp_first_offset r) committed db) (\<lambda>db.
            let db = db\<lparr>lg_txn_partitions := filter (\<lambda>r. \<not> this r) (lg_txn_partitions db)\<rparr>;
                db = update_txn pid (\<lambda>t. t\<lparr>tx_forced_result :=
                       (case tx_forced_result t of None \<Rightarrow> Some committed | Some f \<Rightarrow> Some f)\<rparr>) db
            in if \<exists>r \<in> set (lg_txn_partitions db). tp_producer_id r = pid then Inr (E_None, db)
               else rbind (fence pid (settle_txn pid committed (settle_offsets now pid committed db)))
                      (\<lambda>(_, db). Inr (E_None, db)))
      | _ \<Rightarrow> Inr (E_None, db))"

definition mark_one ::
  "int \<Rightarrow> (bytes \<Rightarrow> u32) \<Rightarrow> int \<Rightarrow> i64 \<Rightarrow> i16 \<Rightarrow> bytes \<Rightarrow> i32 \<Rightarrow> bool \<Rightarrow> log_db \<Rightarrow> txn_failure + (error_code \<times> log_db)" where
  "mark_one seg_size crc now pid epoch name part committed db =
     (case topic_id_by_name name db of
        None \<Rightarrow> Inr (E_UnknownTopicOrPartition, db)
      | Some topic \<Rightarrow>
          if sint part < 0 \<or> sint part \<ge> sint (partition_count topic db) then Inr (E_UnknownTopicOrPartition, db)
          else case producer_of pid db of
                 None \<Rightarrow> Inr (E_InvalidProducerEpoch, db)
               | Some p \<Rightarrow>
                   if sint epoch < sint (pr_producer_epoch p) then Inr (E_InvalidProducerEpoch, db)
                   else if \<not> txn_lists pid topic part db then Inr (E_InvalidTxnState, db)
                   else finish_partition seg_size crc now pid epoch topic part committed db)"

record txn_marker =
  tm_producer_id :: i64
  tm_producer_epoch :: i16
  tm_transaction_result :: bool
  tm_topics :: "(bytes \<times> i32 list) list"

text \<open>A partition whose marker fails with an \<open>Err\<close> is answered \<open>UNKNOWN_SERVER_ERROR\<close> and the request goes
  on; the statements run before the failing one keep their effect. In \<open>mark_one\<close> only the append fails
  so, and it comes first, so the failing partition has changed nothing.\<close>

fun mark_partitions :: "(i32 \<Rightarrow> log_db \<Rightarrow> txn_failure + (error_code \<times> log_db)) \<Rightarrow> i32 list \<Rightarrow> log_db \<Rightarrow>
    txn_failure + ((i32 \<times> error_code) list \<times> log_db)" where
  "mark_partitions mark [] db = Inr ([], db)"
| "mark_partitions mark (p # ps) db =
     rbind (case mark p db of
              Inl Raised \<Rightarrow> Inl Raised
            | Inl TxnInternal \<Rightarrow> Inr (E_UnknownServerError, db)
            | Inr r \<Rightarrow> Inr r) (\<lambda>(err, db).
     rbind (mark_partitions mark ps db) (\<lambda>(rest, db). Inr ((p, err) # rest, db)))"

fun mark_topics :: "(bytes \<Rightarrow> i32 \<Rightarrow> log_db \<Rightarrow> txn_failure + (error_code \<times> log_db)) \<Rightarrow> (bytes \<times> i32 list) list \<Rightarrow> log_db \<Rightarrow>
    txn_failure + ((bytes \<times> (i32 \<times> error_code) list) list \<times> log_db)" where
  "mark_topics mark [] db = Inr ([], db)"
| "mark_topics mark ((name, ps) # ts) db =
     rbind (mark_partitions (mark name) ps db) (\<lambda>(codes, db).
     rbind (mark_topics mark ts db) (\<lambda>(rest, db). Inr ((name, codes) # rest, db)))"

type_synonym marker_results = "(i64 \<times> (bytes \<times> (i32 \<times> error_code) list) list) list"

fun mark_all :: "(txn_marker \<Rightarrow> bytes \<Rightarrow> i32 \<Rightarrow> log_db \<Rightarrow> txn_failure + (error_code \<times> log_db)) \<Rightarrow> txn_marker list \<Rightarrow> log_db \<Rightarrow>
    txn_failure + (marker_results \<times> log_db)" where
  "mark_all mark [] db = Inr ([], db)"
| "mark_all mark (m # ms) db =
     rbind (mark_topics (mark m) (tm_topics m) db) (\<lambda>(topics, db).
     rbind (mark_all mark ms db) (\<lambda>(rest, db). Inr ((tm_producer_id m, topics) # rest, db)))"

definition marker_partitions :: "txn_marker \<Rightarrow> nat" where
  "marker_partitions m = sum_list (map (\<lambda>(name, ps). length ps) (tm_topics m))"

datatype markers_failure = MarkersRefused handler_error | MarkersFailed txn_failure

definition write_txn_markers ::
  "int \<Rightarrow> (bytes \<Rightarrow> u32) \<Rightarrow> int \<Rightarrow> txn_marker list \<Rightarrow> authz \<Rightarrow> log_db \<Rightarrow> markers_failure + (marker_results \<times> log_db)" where
  "write_txn_markers seg_size crc now ms authz db =
     (case check_nested_len ''transaction markers'' ''marker partitions'' ms marker_partitions of
        Inl e \<Rightarrow> Inl (MarkersRefused e)
      | Inr _ \<Rightarrow>
          let authorized = authz_check authz ClusterAction Cluster CLUSTER_NAME;
              mark = (\<lambda>m name p db. case authorized of
                        Inl err \<Rightarrow> Inr (err, db)
                      | Inr _ \<Rightarrow> mark_one seg_size crc now (tm_producer_id m) (tm_producer_epoch m) name p
                                  (tm_transaction_result m) db)
          in case mark_all mark ms db of Inl e \<Rightarrow> Inl (MarkersFailed e) | Inr r \<Rightarrow> Inr r)"

end
