(* ===== verification/Topics.thy ===== *)
theory Topics
  imports TableStore Acl
begin

text \<open>
  Topics (\<open>src/extension/src/meta.rs\<close>) over the table engine: names, creation, growth, deletion and lookup, and
  the reading of \<open>cleanup.policy\<close> (\<open>src/extension/src/config.rs\<close>).

  A uuid comes from the database and is an argument. A topic id is drawn from a sequence and cast to
  \<open>oid\<close>, which fails past \<open>2^32 - 1\<close>; the failed statement is \<open>TopicInternal\<close>. The archive of segments, which
  \<open>delete_topic\<close> also clears, belongs to the segment engine and is not part of this model.
\<close>

datatype topic_error =
    InvalidName
  | InvalidPartitions i32
  | InvalidReplicationFactor i16
  | AlreadyExists
  | UnknownTopic
  | InvalidConfig
  | PartitionCountReduced i32 i32
  | TopicInternal

fun topic_error_code :: "topic_error \<Rightarrow> error_code" where
  "topic_error_code InvalidName = E_InvalidTopicException"
| "topic_error_code (InvalidPartitions _) = E_InvalidPartitions"
| "topic_error_code (PartitionCountReduced _ _) = E_InvalidPartitions"
| "topic_error_code (InvalidReplicationFactor _) = E_InvalidReplicationFactor"
| "topic_error_code AlreadyExists = E_TopicAlreadyExists"
| "topic_error_code UnknownTopic = E_UnknownTopicOrPartition"
| "topic_error_code InvalidConfig = E_InvalidConfig"
| "topic_error_code TopicInternal = E_UnknownServerError"

definition MAX_PARTITIONS :: int where "MAX_PARTITIONS = 10000"

subsection \<open>Cleanup policy\<close>

record cleanup_policy =
  cp_compacts :: bool
  cp_deletes :: bool

definition trim_matches :: "(u8 \<Rightarrow> bool) \<Rightarrow> bytes \<Rightarrow> bytes" where
  "trim_matches P s = rev (dropWhile P (rev (dropWhile P s)))"

definition java_trim :: "bytes \<Rightarrow> bytes" where
  "java_trim s = trim_matches (\<lambda>b. b \<le> 0x20) s"

definition java_ws :: "u8 \<Rightarrow> bool" where
  "java_ws b \<longleftrightarrow> b = 0x20 \<or> b = 0x09 \<or> b = 0x0A \<or> b = 0x0B \<or> b = 0x0C \<or> b = 0x0D"

fun policy_items :: "bytes list \<Rightarrow> bool \<Rightarrow> bool \<Rightarrow> cleanup_policy option" where
  "policy_items [] compacts deletes = Some \<lparr>cp_compacts = compacts, cp_deletes = deletes\<rparr>"
| "policy_items (item # items) compacts deletes =
     (let item = trim_matches java_ws item in
      if item = ascii ''compact'' then (if compacts then None else policy_items items True deletes)
      else if item = ascii ''delete'' then (if deletes then None else policy_items items compacts True)
      else None)"

definition policy_list :: "bytes \<Rightarrow> cleanup_policy option" where
  "policy_list v = policy_items (split_on 0x2c (java_trim v)) False False"

definition parse_cleanup_policy :: "bytes option \<Rightarrow> cleanup_policy" where
  "parse_cleanup_policy v =
     (case Option.bind v policy_list of
        None \<Rightarrow> \<lparr>cp_compacts = False, cp_deletes = True\<rparr> | Some p \<Rightarrow> p)"

definition DEFAULT_MAX_MESSAGE_BYTES :: int where "DEFAULT_MAX_MESSAGE_BYTES = 1048588"

subsection \<open>Lookup\<close>

record resolved_topic =
  rt_topic_id :: u32
  rt_name :: bytes
  rt_uuid :: bytes
  rt_max_message_bytes :: int
  rt_compacted :: bool

definition to_uuid :: "bytes \<Rightarrow> bytes" where
  "to_uuid raw = (if length raw = 16 then raw else replicate 16 0)"

definition resolve_topic :: "bytes \<Rightarrow> bytes \<Rightarrow> log_db \<Rightarrow> resolved_topic option" where
  "resolve_topic name uuid db =
     map_option (\<lambda>t. \<lparr>rt_topic_id = tr_topic_id t, rt_name = tr_name t, rt_uuid = to_uuid (tr_uuid t),
         rt_max_message_bytes =
           (case tr_max_message_bytes t of None \<Rightarrow> DEFAULT_MAX_MESSAGE_BYTES | Some n \<Rightarrow> n),
         rt_compacted = cp_compacts (parse_cleanup_policy (tr_cleanup_policy t))\<rparr>)
       (List.find (\<lambda>t. if name = [] then tr_uuid t = uuid else tr_name t = name) (lg_topics db))"

definition topic_by_uuid :: "bytes \<Rightarrow> log_db \<Rightarrow> (u32 \<times> bytes) option" where
  "topic_by_uuid uuid db =
     map_option (\<lambda>t. (tr_topic_id t, tr_name t)) (List.find (\<lambda>t. tr_uuid t = uuid) (lg_topics db))"

definition all_partitions :: "log_db \<Rightarrow> (u32 \<times> i32) list" where
  "all_partitions db =
     sort_key (\<lambda>(t, p). uint t) (sort_key (\<lambda>(t, p). sint p)
       (map (\<lambda>r. (pt_topic r, pt_partition r)) (lg_partitions db)))"

definition topic_name_by_id :: "u32 \<Rightarrow> log_db \<Rightarrow> bytes option" where
  "topic_name_by_id topic db = map_option tr_name (List.find (\<lambda>t. tr_topic_id t = topic) (lg_topics db))"

subsection \<open>Creation, growth, deletion\<close>

definition name_char :: "u8 \<Rightarrow> bool" where
  "name_char b \<longleftrightarrow> (0x61 \<le> b \<and> b \<le> 0x7a) \<or> (0x41 \<le> b \<and> b \<le> 0x5a) \<or> (0x30 \<le> b \<and> b \<le> 0x39)
     \<or> b = 0x2e \<or> b = 0x5f \<or> b = 0x2d"

definition validate_topic_name :: "bytes \<Rightarrow> topic_error + unit" where
  "validate_topic_name name =
     (if name = [] then Inl InvalidName
      else if length name > 249 then Inl InvalidName
      else if name = [0x2e] \<or> name = [0x2e, 0x2e] then Inl InvalidName
      else if \<not> list_all name_char name then Inl InvalidName
      else Inr ())"

definition validate_replication_factor :: "i16 \<Rightarrow> topic_error + unit" where
  "validate_replication_factor rf = (if rf = - 1 \<or> rf = 1 then Inr () else Inl (InvalidReplicationFactor rf))"

text \<open>The loop \<open>for p in from..to\<close> over partition numbers.\<close>

definition create_range :: "int \<Rightarrow> u32 \<Rightarrow> int \<Rightarrow> int \<Rightarrow> log_db \<Rightarrow> log_db" where
  "create_range seg_size topic lo hi db =
     fold (\<lambda>p. create_partition seg_size topic (word_of_int p) 0) [lo..hi - 1] db"

record created_topic =
  ct_topic_id :: u32
  ct_uuid :: bytes
  ct_partitions :: i32

definition create_topic :: "int \<Rightarrow> bytes \<Rightarrow> bytes \<Rightarrow> i32 \<Rightarrow> int option \<Rightarrow> bytes option \<Rightarrow> log_db \<Rightarrow>
    topic_error + (created_topic \<times> log_db)" where
  "create_topic seg_size uuid name parts max_message_bytes policy db =
     rbind (validate_topic_name name) (\<lambda>_.
       if sint parts < 1 \<or> sint parts > MAX_PARTITIONS then Inl (InvalidPartitions parts)
       else if topic_id_by_name name db \<noteq> None then Inl AlreadyExists
       else if lg_topic_id_seq db > 2 ^ 32 - 1 then Inl TopicInternal
       else let topic = word_of_int (lg_topic_id_seq db);
                db = db\<lparr>lg_topic_id_seq := lg_topic_id_seq db + 1,
                        lg_topics := lg_topics db @ [\<lparr>tr_topic_id = topic, tr_name = name, tr_num_partitions = parts,
                          tr_uuid = uuid, tr_max_message_bytes = max_message_bytes, tr_cleanup_policy = policy\<rparr>]\<rparr>
            in Inr (\<lparr>ct_topic_id = topic, ct_uuid = to_uuid uuid, ct_partitions = parts\<rparr>,
                    create_range seg_size topic 0 (sint parts) db))"

definition create_partitions :: "int \<Rightarrow> bytes \<Rightarrow> i32 \<Rightarrow> log_db \<Rightarrow> topic_error + log_db" where
  "create_partitions seg_size name want db =
     (case topic_id_by_name name db of
        None \<Rightarrow> Inl UnknownTopic
      | Some topic \<Rightarrow>
          let have_n = partition_count topic db in
          if sint want < sint have_n then Inl (PartitionCountReduced have_n want)
          else if want = have_n \<or> sint want > MAX_PARTITIONS then Inl (InvalidPartitions want)
          else let db = create_range seg_size topic (sint have_n) (sint want) db
               in Inr (db\<lparr>lg_topics := map (\<lambda>t. if tr_topic_id t = topic then t\<lparr>tr_num_partitions := want\<rparr> else t)
                         (lg_topics db)\<rparr>))"

text \<open>The last statement deletes the topic row, and the rows of \<open>kafgres_partitions\<close> go with it: their foreign
  key cascades.\<close>

definition delete_topic :: "bytes \<Rightarrow> log_db \<Rightarrow> bool \<times> log_db" where
  "delete_topic name db =
     (case topic_id_by_name name db of
        None \<Rightarrow> (False, db)
      | Some topic \<Rightarrow>
          let parts = map pt_partition (filter (\<lambda>r. pt_topic r = topic) (lg_partitions db));
              db = fold (drop_partition topic) parts db
          in (True, db\<lparr>lg_producer := (lg_producer db)\<lparr>db_batches :=
                  filter (\<lambda>b. br_topic_id b \<noteq> topic) (db_batches (lg_producer db))\<rparr>,
                lg_offsets := filter (\<lambda>r. of_topic r \<noteq> topic) (lg_offsets db),
                lg_txn_partitions := filter (\<lambda>r. tp_topic r \<noteq> topic) (lg_txn_partitions db),
                lg_txn_offsets := filter (\<lambda>r. to_topic r \<noteq> topic) (lg_txn_offsets db),
                lg_topics := filter (\<lambda>t. tr_topic_id t \<noteq> topic) (lg_topics db),
                lg_partitions := filter (\<lambda>r. pt_topic r \<noteq> topic) (lg_partitions db)\<rparr>))"

end
