(* ===== verification/ProducePath.thy ===== *)
theory ProducePath
  imports TxnCoordinator Topics
begin

text \<open>
  Produce (\<open>src/extension/src/handlers/produce.rs\<close>) over the table engine: every batch of the request is
  decided first, then the window rows and the transaction registrations are written, then the batches
  are appended and their offsets stamped into the rows.

  A statement the database refuses for reasons outside the tables (a lock or statement timeout, a
  cancelled query) is not modelled, so the first attempt, one savepoint for the whole request,
  completes and the per-partition retry does not run. \<open>LANDED\<close> is \<open>None\<close> on this engine. The locks
  \<open>hold_for_produce\<close> takes order the requests.
\<close>

datatype append_error =
    AppendStore store_error
  | AppendBatch batch_error
  | OutOfOrderSequence i32 i32
  | StaleProducerState
  | FencedEpoch i16
  | AppendTooLarge nat int
  | NullKeyOnCompacted
  | DuplicateUnknownOffset
  | AppendTxn error_code

fun append_error_code :: "append_error \<Rightarrow> error_code" where
  "append_error_code (AppendStore e) = store_error_code e"
| "append_error_code (AppendBatch e) = batch_error_code e"
| "append_error_code (OutOfOrderSequence _ _) = E_OutOfOrderSequenceNumber"
| "append_error_code StaleProducerState = E_UnknownProducerId"
| "append_error_code (FencedEpoch _) = E_InvalidProducerEpoch"
| "append_error_code (AppendTooLarge _ _) = E_MessageTooLarge"
| "append_error_code NullKeyOnCompacted = E_InvalidRecord"
| "append_error_code DuplicateUnknownOffset = E_DuplicateSequenceNumber"
| "append_error_code (AppendTxn c) = c"

record idem =
  id_producer_id :: i64
  id_epoch :: i16
  id_first_seq :: i32
  id_last_seq :: i32
  id_transactional :: bool
  id_adds_partition :: "admitted option"

datatype decision = Plain | Append idem | Duplicate i64 | DuplicateOf nat

record partition_plan =
  pl_tid :: u32
  pl_index :: i32
  pl_batches :: "(record_batch \<times> decision) list"

subsection \<open>Phase 1: deciding\<close>

text \<open>The producer tables as \<open>producer::check\<close> reads them: the start of the current leader epoch is a
  column of the partition row.\<close>

definition producer_view :: "log_db \<Rightarrow> producer_db" where
  "producer_view db = (lg_producer db)\<lparr>db_epoch_start :=
     (\<lambda>topic part. map_option (\<lambda>r. word_of_int (pt_epoch_start r)) (List.find (pt_at topic part) (lg_partitions db)))\<rparr>"

definition decide_after :: "(record_batch \<times> decision) list \<Rightarrow> idem \<Rightarrow> idem \<Rightarrow> append_error + decision" where
  "decide_after batches prev idem =
     (if sint (id_epoch idem) < sint (id_epoch prev) then Inl (FencedEpoch (id_epoch prev))
      else if sint (id_epoch idem) > sint (id_epoch prev) then
        (if id_first_seq idem \<noteq> 0 then Inl (OutOfOrderSequence 0 (id_first_seq idem)) else Inr (Append idem))
      else
        let same = (\<lambda>d. case d of
                      Append p \<Rightarrow> id_producer_id p = id_producer_id idem \<and> id_epoch p = id_epoch idem
                        \<and> id_first_seq p = id_first_seq idem \<and> id_last_seq p = id_last_seq idem
                    | _ \<Rightarrow> False)
        in if \<exists>b \<in> set batches. same (snd b)
           then Inr (DuplicateOf (length (takeWhile (\<lambda>b. \<not> same (snd b)) batches)))
           else if in_sequence (id_last_seq prev) (id_first_seq idem) then Inr (Append idem)
           else Inl (OutOfOrderSequence (increment_sequence (id_last_seq prev) 1) (id_first_seq idem)))"

fun append_of :: "i64 \<Rightarrow> decision \<Rightarrow> idem option" where
  "append_of pid (Append p) = (if id_producer_id p = pid then Some p else None)"
| "append_of pid _ = None"

definition prior_append :: "i64 \<Rightarrow> (record_batch \<times> decision) list \<Rightarrow> idem option" where
  "prior_append pid batches =
     (case List.find (\<lambda>b. append_of pid (snd b) \<noteq> None) (rev batches) of
        None \<Rightarrow> None | Some b \<Rightarrow> append_of pid (snd b))"

fun checked :: "idem \<Rightarrow> sequence_check \<Rightarrow> append_error + decision" where
  "checked idem CheckAppend = Inr (Append idem)"
| "checked idem (CheckDuplicate base) = (if sint base < 0 then Inl DuplicateUnknownOffset else Inr (Duplicate base))"
| "checked idem (CheckOutOfOrder expected got) = Inl (OutOfOrderSequence expected got)"
| "checked idem CheckStale = Inl StaleProducerState"
| "checked idem (CheckFenced current) = Inl (FencedEpoch current)"

text \<open>\<open>verified\<close> only saves asking twice for a producer and epoch: nothing is written in this phase, so the
  answer is the same.\<close>

definition decide_batch :: "u32 \<Rightarrow> i32 \<Rightarrow> bytes option \<Rightarrow> i16 \<Rightarrow> log_db \<Rightarrow> (record_batch \<times> decision) list \<Rightarrow> record_batch \<Rightarrow>
    append_error + decision" where
  "decide_batch tid index txn_id version db batches view =
     (let pid = producer_id view; first_seq = base_sequence view in
      if pid = NO_PRODUCER_ID \<or> first_seq = NO_SEQUENCE then
        (if is_transactional view \<and> \<not> is_control view then Inl (AppendTxn E_InvalidRecord) else Inr Plain)
      else
        let transactional = (is_transactional view \<and> \<not> is_control view) in
        rbind (if transactional
               then (case verify_held_produce txn_id pid (producer_epoch view) tid index version db of
                       TxnAdded \<Rightarrow> Inr None
                     | AddsPartition ad \<Rightarrow> Inr (Some ad)
                     | TxnRefused c \<Rightarrow> Inl (AppendTxn c))
               else Inr None) (\<lambda>adds.
          let idem = \<lparr>id_producer_id = pid, id_epoch = producer_epoch view, id_first_seq = first_seq,
                      id_last_seq = increment_sequence first_seq (last_offset_delta view),
                      id_transactional = transactional, id_adds_partition = adds\<rparr>
          in case prior_append pid batches of
               Some prev \<Rightarrow> decide_after batches prev idem
             | None \<Rightarrow> checked idem (check pid (id_epoch idem) first_seq (id_last_seq idem) tid index (producer_view db))))"

fun plan_batches :: "u32 \<Rightarrow> i32 \<Rightarrow> bytes option \<Rightarrow> i16 \<Rightarrow> log_db \<Rightarrow> (batch_error + record_batch) list \<Rightarrow>
    (record_batch \<times> decision) list \<Rightarrow> append_error + (record_batch \<times> decision) list" where
  "plan_batches tid index txn_id version db [] batches = Inr batches"
| "plan_batches tid index txn_id version db (Inl e # items) batches = Inl (AppendBatch e)"
| "plan_batches tid index txn_id version db (Inr view # items) batches =
     rbind (decide_batch tid index txn_id version db batches view) (\<lambda>d.
       plan_batches tid index txn_id version db items (batches @ [(view, d)]))"

definition plan_partition :: "u32 \<Rightarrow> i32 \<Rightarrow> bytes option \<Rightarrow> bytes option \<Rightarrow> i16 \<Rightarrow> log_db \<Rightarrow> append_error + partition_plan" where
  "plan_partition tid index recs txn_id version db =
     (case recs of
        None \<Rightarrow> Inr \<lparr>pl_tid = tid, pl_index = index, pl_batches = []\<rparr>
      | Some bytes \<Rightarrow>
          if bytes = [] then Inr \<lparr>pl_tid = tid, pl_index = index, pl_batches = []\<rparr>
          else rbind (plan_batches tid index txn_id version db (batch_iter bytes) []) (\<lambda>batches.
                 Inr \<lparr>pl_tid = tid, pl_index = index, pl_batches = batches\<rparr>))"

fun oversized_in :: "int \<Rightarrow> (batch_error + record_batch) list \<Rightarrow> append_error option" where
  "oversized_in limit [] = None"
| "oversized_in limit (Inl e # items) = None"
| "oversized_in limit (Inr view # items) =
     (let n = length (batch_bytes view) in
      if int n > limit then Some (AppendTooLarge n limit) else oversized_in limit items)"

definition oversized :: "bytes option \<Rightarrow> int \<Rightarrow> append_error option" where
  "oversized recs limit = (case recs of None \<Rightarrow> None | Some bytes \<Rightarrow> oversized_in limit (batch_iter bytes))"

fun undecodable :: "batch_error \<Rightarrow> append_error option" where
  "undecodable (Compressed _) = None"
| "undecodable e = Some (AppendBatch e)"

fun null_key_in :: "(batch_error + record_ref) list \<Rightarrow> append_error option option" where
  "null_key_in [] = None"
| "null_key_in (Inl e # rs) = Some (undecodable e)"
| "null_key_in (Inr r # rs) = (if rec_key r = None then Some (Some NullKeyOnCompacted) else null_key_in rs)"

fun null_keyed_in :: "codec_env \<Rightarrow> record_batch list \<Rightarrow> append_error option" where
  "null_keyed_in env [] = None"
| "null_keyed_in env (view # views) =
     (if is_control view then null_keyed_in env views
      else case stream_keys env view of
             Inl e \<Rightarrow> undecodable e
           | Inr it \<Rightarrow> (case null_key_in (record_iter_all env it) of
                          Some answer \<Rightarrow> answer | None \<Rightarrow> null_keyed_in env views))"

definition null_keyed :: "codec_env \<Rightarrow> (bytes \<Rightarrow> u32) \<Rightarrow> bytes option \<Rightarrow> append_error option" where
  "null_keyed env crc recs =
     (case recs of
        None \<Rightarrow> None
      | Some bytes \<Rightarrow>
          let items = batch_iter bytes in
          if list_all (\<lambda>i. case i of Inl _ \<Rightarrow> False | Inr view \<Rightarrow> verify_crc crc view = Inr ()) items
          then null_keyed_in env (List.map_filter (\<lambda>i. case i of Inl _ \<Rightarrow> None | Inr view \<Rightarrow> Some view) items)
          else None)"

subsection \<open>Phase 2: reserving\<close>

fun reserve_batches :: "int \<Rightarrow> u32 \<Rightarrow> i32 \<Rightarrow> bytes \<Rightarrow> decision list \<Rightarrow> i64 list \<Rightarrow> i64 list \<Rightarrow> log_db \<Rightarrow> i64 list \<times> log_db" where
  "reserve_batches now tid index txn_id [] registered begun db = (begun, db)"
| "reserve_batches now tid index txn_id (Append idem # ds) registered begun db =
     (let pid = id_producer_id idem;
          db = db\<lparr>lg_producer := record_batch_seq now pid (id_epoch idem) tid index (id_first_seq idem)
                     (id_last_seq idem) (- 1) (lg_producer db)\<rparr>
      in if id_transactional idem \<and> pid \<notin> set registered
         then let (begun, db) = (case id_adds_partition idem of
                     Some ad \<Rightarrow> if pid \<in> set begun then (begun, db)
                                else (begun @ [pid], begin_or_continue now ad txn_id db)
                   | None \<Rightarrow> (begun, db))
              in reserve_batches now tid index txn_id ds (registered @ [pid]) begun
                   (register_txn_partition pid tid index (- 1) db)
         else reserve_batches now tid index txn_id ds registered begun db)"
| "reserve_batches now tid index txn_id (_ # ds) registered begun db =
     reserve_batches now tid index txn_id ds registered begun db"

definition reserve_partition :: "int \<Rightarrow> partition_plan \<Rightarrow> bytes option \<Rightarrow> i64 list \<Rightarrow> log_db \<Rightarrow> i64 list \<times> log_db" where
  "reserve_partition now plan txn_id begun db =
     reserve_batches now (pl_tid plan) (pl_index plan) (case txn_id of None \<Rightarrow> [] | Some t \<Rightarrow> t)
       (map snd (pl_batches plan)) [] begun db"

subsection \<open>Phase 3: writing\<close>

definition raw_batch_of :: "record_batch \<Rightarrow> raw_batch" where
  "raw_batch_of view = \<lparr>rb_bytes = batch_bytes view, rb_record_count = record_count view,
     rb_last_offset_delta = last_offset_delta view, rb_max_timestamp = max_timestamp view,
     rb_producer_id = producer_id view, rb_producer_epoch = producer_epoch view,
     rb_base_sequence = base_sequence view, rb_is_transactional = is_transactional view,
     rb_is_control = is_control view\<rparr>"

fun release_reservations :: "u32 \<Rightarrow> i32 \<Rightarrow> decision list \<Rightarrow> log_db \<Rightarrow> log_db" where
  "release_reservations tid index [] db = db"
| "release_reservations tid index (Append idem # ds) db =
     release_reservations tid index ds (db\<lparr>lg_producer :=
       release_batch (id_producer_id idem) tid index (id_first_seq idem) (lg_producer db)\<rparr>)"
| "release_reservations tid index (_ # ds) db = release_reservations tid index ds db"

definition stamp_offset :: "u32 \<Rightarrow> i32 \<Rightarrow> decision \<Rightarrow> int \<Rightarrow> log_db \<Rightarrow> log_db" where
  "stamp_offset tid index d off db =
     (case d of
        Append idem \<Rightarrow>
          let db = db\<lparr>lg_producer := stamp_batch (id_producer_id idem) tid index (id_first_seq idem)
                        (word_of_int off) (lg_producer db)\<rparr>
          in if id_transactional idem then stamp_txn_partition (id_producer_id idem) tid index off db else db
      | _ \<Rightarrow> db)"

record appended =
  ap_base_offset :: int
  ap_wrote :: bool

definition get_or_insert :: "int option \<Rightarrow> int \<Rightarrow> int option" where
  "get_or_insert base off = (case base of None \<Rightarrow> Some off | Some b \<Rightarrow> Some b)"

fun write_batches :: "int \<Rightarrow> (bytes \<Rightarrow> u32) \<Rightarrow> int \<Rightarrow> u32 \<Rightarrow> i32 \<Rightarrow> (record_batch \<times> decision) list \<Rightarrow> int option list \<Rightarrow>
    int option \<Rightarrow> bool \<Rightarrow> log_db \<Rightarrow> (append_error + appended) \<times> log_db" where
  "write_batches seg_size crc now tid index [] assigned base wrote db =
     (case base of
        Some b \<Rightarrow> (Inr \<lparr>ap_base_offset = b, ap_wrote = wrote\<rparr>, db)
      | None \<Rightarrow> (case high_watermark tid index db of
                   Inl e \<Rightarrow> (Inl (AppendStore e), db)
                 | Inr hw \<Rightarrow> (Inr \<lparr>ap_base_offset = hw, ap_wrote = False\<rparr>, db)))"
| "write_batches seg_size crc now tid index ((view, Duplicate b) # bs) assigned base wrote db =
     write_batches seg_size crc now tid index bs (assigned @ [None]) (get_or_insert base (sint b)) wrote db"
| "write_batches seg_size crc now tid index ((view, DuplicateOf j) # bs) assigned base wrote db =
     write_batches seg_size crc now tid index bs (assigned @ [None])
       (get_or_insert base (case assigned ! j of None \<Rightarrow> - 1 | Some off \<Rightarrow> off)) wrote db"
| "write_batches seg_size crc now tid index ((view, d) # bs) assigned base wrote db =
     (case append seg_size crc now tid index (raw_batch_of view) db of
        Inl e \<Rightarrow> (Inl (AppendStore e), release_reservations tid index (d # map snd bs) db)
      | Inr (off, db) \<Rightarrow>
          write_batches seg_size crc now tid index bs (assigned @ [Some off]) (get_or_insert base off) True
            (stamp_offset tid index d off db))"

definition write_partition :: "int \<Rightarrow> (bytes \<Rightarrow> u32) \<Rightarrow> int \<Rightarrow> partition_plan \<Rightarrow> log_db \<Rightarrow> (append_error + appended) \<times> log_db" where
  "write_partition seg_size crc now plan db =
     write_batches seg_size crc now (pl_tid plan) (pl_index plan) (pl_batches plan) [] None False db"

subsection \<open>The request\<close>

record produce_partition =
  pp_index :: i32
  pp_records :: "bytes option"

record produce_topic =
  pd_name :: bytes
  pd_topic_id :: bytes
  pd_partitions :: "produce_partition list"

record produce_request =
  pq_transactional_id :: "bytes option"
  pq_acks :: i16
  pq_topics :: "produce_topic list"

record partition_answer =
  pa_index :: i32
  pa_error_code :: error_code
  pa_base_offset :: int
  pa_log_start_offset :: int

definition failed :: "i32 \<Rightarrow> error_code \<Rightarrow> partition_answer" where
  "failed index c = \<lparr>pa_index = index, pa_error_code = c, pa_base_offset = - 1, pa_log_start_offset = - 1\<rparr>"

definition start_or_zero :: "u32 \<Rightarrow> i32 \<Rightarrow> log_db \<Rightarrow> int" where
  "start_or_zero tid index db = (case log_start_offset tid index db of Inl _ \<Rightarrow> 0 | Inr s \<Rightarrow> s)"

definition failed_in :: "u32 \<Rightarrow> i32 \<Rightarrow> append_error \<Rightarrow> log_db \<Rightarrow> partition_answer" where
  "failed_in tid index e db =
     (let a = failed index (append_error_code e) in
      if e = StaleProducerState then a\<lparr>pa_log_start_offset := start_or_zero tid index db\<rparr> else a)"

text \<open>One entry of the request after phase 1: its key, the size of its records, and either an answer or a plan.\<close>

record entry =
  en_key :: "bytes \<times> i32"
  en_bytes :: nat
  en_plan :: "partition_answer + partition_plan"

definition topic_label :: "produce_topic \<Rightarrow> log_db \<Rightarrow> bytes \<times> bytes" where
  "topic_label topic db =
     (case resolve_topic (pd_name topic) (pd_topic_id topic) db of
        None \<Rightarrow> (pd_name topic, pd_topic_id topic) | Some r \<Rightarrow> (rt_name r, rt_uuid r))"

definition plan_entry :: "codec_env \<Rightarrow> (bytes \<Rightarrow> u32) \<Rightarrow> produce_request \<Rightarrow> i16 \<Rightarrow> authz \<Rightarrow> log_db \<Rightarrow> produce_topic \<Rightarrow>
    produce_partition \<Rightarrow> entry" where
  "plan_entry env crc req version authz db topic pd =
     (let resolved = resolve_topic (pd_name topic) (pd_topic_id topic) db;
          name = fst (topic_label topic db);
          index = pp_index pd
      in \<lparr>en_key = (name, index), en_bytes = (case pp_records pd of None \<Rightarrow> 0 | Some bs \<Rightarrow> length bs),
          en_plan =
            (case authz_check authz Write Topic name of
               Inl c \<Rightarrow> Inl (failed index c)
             | Inr _ \<Rightarrow>
                 (case resolved of
                    None \<Rightarrow> Inl (failed index (append_error_code (AppendStore UnknownTopicOrPartition)))
                  | Some r \<Rightarrow>
                      let tid = rt_topic_id r in
                      if pq_transactional_id req \<noteq> None \<and> (sint index < 0 \<or> sint index \<ge> sint (partition_count tid db))
                      then Inl (failed index (append_error_code (AppendStore UnknownTopicOrPartition)))
                      else case oversized (pp_records pd) (rt_max_message_bytes r) of
                        Some e \<Rightarrow> Inl (failed index (append_error_code e))
                      | None \<Rightarrow>
                          (case (if rt_compacted r then null_keyed env crc (pp_records pd) else None) of
                             Some e \<Rightarrow> Inl (failed index (append_error_code e))
                           | None \<Rightarrow>
                               (case plan_partition tid index (pp_records pd) (pq_transactional_id req) version db of
                                  Inl e \<Rightarrow> Inl (failed_in tid index e db)
                                | Inr plan \<Rightarrow> Inr plan))))\<rparr>)"

text \<open>A topic partition named twice is decided by its last entry, whose answer the others repeat.\<close>

fun shadow :: "entry list \<Rightarrow> (entry \<times> bool) list" where
  "shadow [] = []"
| "shadow (e # es) = (e, \<exists>f \<in> set es. en_key f = en_key e) # shadow es"

definition pending_plans :: "entry list \<Rightarrow> partition_plan list" where
  "pending_plans es = List.map_filter (\<lambda>(e, shadowed). if shadowed then None
     else case en_plan e of Inl _ \<Rightarrow> None | Inr plan \<Rightarrow> Some plan) (shadow es)"

fun reserve_all :: "int \<Rightarrow> bytes option \<Rightarrow> partition_plan list \<Rightarrow> i64 list \<Rightarrow> log_db \<Rightarrow> log_db" where
  "reserve_all now txn_id [] begun db = db"
| "reserve_all now txn_id (p # ps) begun db =
     (let (begun, db) = reserve_partition now p txn_id begun db in reserve_all now txn_id ps begun db)"

definition finish_answer :: "partition_plan \<Rightarrow> (append_error + appended) \<Rightarrow> log_db \<Rightarrow> partition_answer" where
  "finish_answer plan outcome db =
     (case outcome of
        Inr d \<Rightarrow> \<lparr>pa_index = pl_index plan, pa_error_code = E_None, pa_base_offset = ap_base_offset d,
                 pa_log_start_offset = start_or_zero (pl_tid plan) (pl_index plan) db\<rparr>
      | Inl e \<Rightarrow> failed_in (pl_tid plan) (pl_index plan) e db)"

fun write_all :: "int \<Rightarrow> (bytes \<Rightarrow> u32) \<Rightarrow> int \<Rightarrow> entry list \<Rightarrow> log_db \<Rightarrow> (entry \<times> partition_answer) list \<times> ((u32 \<times> i32) \<times> nat) list \<times> log_db" where
  "write_all seg_size crc now [] db = ([], [], db)"
| "write_all seg_size crc now (e # es) db =
     (if \<exists>f \<in> set es. en_key f = en_key e then write_all seg_size crc now es db
      else case en_plan e of
        Inl answer \<Rightarrow>
          (let (rest, wrote, db) = write_all seg_size crc now es db in ((e, answer) # rest, wrote, db))
      | Inr plan \<Rightarrow>
          let (outcome, db) = write_partition seg_size crc now plan db;
              answer = finish_answer plan outcome db;
              landed = (case outcome of Inr d \<Rightarrow> if ap_wrote d then [((pl_tid plan, pl_index plan), en_bytes e)] else [] | Inl _ \<Rightarrow> []);
              (rest, wrote, db) = write_all seg_size crc now es db
          in ((e, answer) # rest, landed @ wrote, db))"

definition answer_for :: "(entry \<times> partition_answer) list \<Rightarrow> entry \<Rightarrow> partition_answer" where
  "answer_for answers e =
     (case List.find (\<lambda>(f, a). en_key f = en_key e) answers of
        None \<Rightarrow> failed (snd (en_key e)) E_None | Some (f, a) \<Rightarrow> a)"

record produce_outcome =
  po_response :: "((bytes \<times> bytes) \<times> partition_answer list) list option"
  po_appended :: "(u32 \<times> i32) list"
  po_bytes :: nat

definition ACKS_NONE :: i16 where "ACKS_NONE = 0"

definition produce :: "int \<Rightarrow> codec_env \<Rightarrow> (bytes \<Rightarrow> u32) \<Rightarrow> int \<Rightarrow> produce_request \<Rightarrow> i16 \<Rightarrow> authz \<Rightarrow> log_db \<Rightarrow>
    produce_outcome \<times> log_db" where
  "produce seg_size env crc now req version authz db =
     (let entries = map (\<lambda>t. (topic_label t db, map (plan_entry env crc req version authz db t) (pd_partitions t))) (pq_topics req);
          all_entries = concat (map snd entries);
          db = reserve_all now (pq_transactional_id req) (pending_plans all_entries) [] db;
          (answers, wrote, db) = write_all seg_size crc now all_entries db
      in (\<lparr>po_response = (if pq_acks req = ACKS_NONE then None
             else Some (map (\<lambda>(label, es). (label, map (answer_for answers) es)) entries)),
           po_appended = map fst wrote, po_bytes = sum_list (map snd wrote)\<rparr>, db))"

end
