(* ===== verification/Txn_Invariant.thy ===== *)
theory Txn_Invariant
  imports ProducePath
begin

text \<open>
  What ties the transaction tables to the log. A transactional batch is either still open, and then the
  table of transaction partitions holds a first offset at or below it for a transaction that is ongoing,
  or a marker of its producer follows it in the log, and then the index of aborted transactions covers it
  exactly when that marker is an abort. \<open>txn_inv\<close> states this for every batch not yet below the log start,
  with what its preservation needs of offsets and keys.
\<close>

definition data_row :: "log_row \<Rightarrow> bool" where
  "data_row r \<longleftrightarrow> lr_is_txn r \<and> \<not> lr_is_control r"

definition aborts :: "codec_env \<Rightarrow> log_row \<Rightarrow> bool" where
  "aborts env m \<longleftrightarrow> iterate_records env (records (RecordBatch (lr_batch m))) = Inr [control_record False]"

definition marker_after :: "log_db \<Rightarrow> log_row \<Rightarrow> log_row \<Rightarrow> bool" where
  "marker_after db r m \<longleftrightarrow> m \<in> set (lg_log db) \<and> lr_at (lr_topic r) (lr_partition r) m \<and> lr_is_control m
     \<and> lr_producer_id m = lr_producer_id r \<and> lr_base r < lr_base m"

definition first_marker :: "log_db \<Rightarrow> log_row \<Rightarrow> log_row \<Rightarrow> bool" where
  "first_marker db r m \<longleftrightarrow> marker_after db r m \<and> (\<forall>m'. marker_after db r m' \<longrightarrow> lr_base m \<le> lr_base m')"

definition live :: "log_db \<Rightarrow> log_row \<Rightarrow> bool" where
  "live db r \<longleftrightarrow> (\<forall>p \<in> set (lg_partitions db). pt_at (lr_topic r) (lr_partition r) p \<longrightarrow> pt_log_start p \<le> lr_last r)"

definition holds :: "txn_partition_row \<Rightarrow> log_row \<Rightarrow> bool" where
  "holds q r \<longleftrightarrow> Some (tp_producer_id q) = lr_producer_id r \<and> tp_at (lr_topic r) (lr_partition r) q
     \<and> 0 \<le> tp_first_offset q \<and> tp_first_offset q \<le> lr_base r"

definition held_open :: "log_db \<Rightarrow> log_row \<Rightarrow> bool" where
  "held_open db r \<longleftrightarrow> (\<exists>q \<in> set (lg_txn_partitions db). holds q r \<and> has_open_txn (lg_producer db) (tp_producer_id q))"

definition abort_covers :: "aborted_row \<Rightarrow> log_row \<Rightarrow> bool" where
  "abort_covers a r \<longleftrightarrow> ab_at (lr_topic r) (lr_partition r) a \<and> Some (ab_producer_id a) = lr_producer_id r
     \<and> ab_first_offset a \<le> lr_base r \<and> lr_base r \<le> ab_last_offset a"

definition aborted_in :: "log_db \<Rightarrow> log_row \<Rightarrow> bool" where
  "aborted_in db r \<longleftrightarrow> (\<exists>a \<in> set (lg_aborted db). abort_covers a r)"

definition data_ok :: "codec_env \<Rightarrow> log_db \<Rightarrow> log_row \<Rightarrow> bool" where
  "data_ok env db r \<longleftrightarrow> lr_producer_id r \<noteq> None
     \<and> (live db r \<longrightarrow> (\<exists>m. marker_after db r m) \<or> held_open db r)
     \<and> (live db r \<longrightarrow> (\<forall>m. first_marker db r m \<longrightarrow> aborted_in db r = aborts env m))"

definition in_partition :: "log_db \<Rightarrow> u32 \<Rightarrow> i32 \<Rightarrow> int \<Rightarrow> bool" where
  "in_partition db topic part off \<longleftrightarrow> (\<exists>p \<in> set (lg_partitions db). pt_at topic part p \<and> off < pt_next_offset p)"

definition tp_clear :: "txn_partition_row \<Rightarrow> aborted_row \<Rightarrow> bool" where
  "tp_clear q a \<longleftrightarrow> (ab_at (tp_topic q) (tp_partition q) a \<longrightarrow> ab_first_offset a \<noteq> tp_first_offset q
     \<and> (ab_producer_id a = tp_producer_id q \<longrightarrow> ab_last_offset a < tp_first_offset q))"

definition tp_after :: "txn_partition_row \<Rightarrow> log_row \<Rightarrow> bool" where
  "tp_after q m \<longleftrightarrow> (lr_at (tp_topic q) (tp_partition q) m \<longrightarrow> lr_is_control m \<longrightarrow>
     lr_producer_id m = Some (tp_producer_id q) \<longrightarrow> lr_base m < tp_first_offset q)"

definition tp_ok :: "log_db \<Rightarrow> txn_partition_row \<Rightarrow> bool" where
  "tp_ok db q \<longleftrightarrow> in_partition db (tp_topic q) (tp_partition q) (tp_first_offset q)
     \<and> (\<forall>a \<in> set (lg_aborted db). tp_clear q a) \<and> (\<forall>m \<in> set (lg_log db). tp_after q m)
     \<and> (\<forall>q' \<in> set (lg_txn_partitions db). tp_at (tp_topic q) (tp_partition q) q' \<longrightarrow>
          tp_first_offset q' = tp_first_offset q \<longrightarrow> q' = q)"

definition ab_apart :: "aborted_row \<Rightarrow> log_row \<Rightarrow> bool" where
  "ab_apart a r \<longleftrightarrow> (lr_at (ab_topic a) (ab_partition a) r \<longrightarrow>
     lr_last r < ab_last_offset a \<or> ab_last_offset a < lr_base r \<or> (lr_base r = ab_last_offset a \<and> lr_is_control r))"

text \<open>An entry of the index ends at the abort marker of its producer, and no other marker of that producer
  lies between its ends.\<close>

definition ab_marker :: "codec_env \<Rightarrow> aborted_row \<Rightarrow> log_row \<Rightarrow> bool" where
  "ab_marker env a m \<longleftrightarrow> lr_at (ab_topic a) (ab_partition a) m \<and> lr_is_control m
     \<and> lr_producer_id m = Some (ab_producer_id a) \<and> lr_base m = ab_last_offset a \<and> aborts env m"

definition ab_alone :: "aborted_row \<Rightarrow> log_row \<Rightarrow> bool" where
  "ab_alone a m \<longleftrightarrow> (lr_at (ab_topic a) (ab_partition a) m \<longrightarrow> lr_is_control m \<longrightarrow>
     lr_producer_id m = Some (ab_producer_id a) \<longrightarrow> lr_base m < ab_first_offset a \<or> ab_last_offset a \<le> lr_base m)"

definition ab_ok :: "codec_env \<Rightarrow> log_db \<Rightarrow> aborted_row \<Rightarrow> bool" where
  "ab_ok env db a \<longleftrightarrow> ab_first_offset a \<le> ab_last_offset a
     \<and> in_partition db (ab_topic a) (ab_partition a) (ab_last_offset a) \<and> (\<forall>r \<in> set (lg_log db). ab_apart a r)
     \<and> (\<exists>m \<in> set (lg_log db). ab_marker env a m) \<and> (\<forall>m \<in> set (lg_log db). ab_alone a m)"

definition tp_key :: "txn_partition_row \<Rightarrow> i64 \<times> u32 \<times> i32" where
  "tp_key q = (tp_producer_id q, tp_topic q, tp_partition q)"

definition topics_ok :: "log_db \<Rightarrow> bool" where
  "topics_ok db \<longleftrightarrow> (\<forall>p \<in> set (lg_partitions db). \<exists>t \<in> set (lg_topics db). tr_topic_id t = pt_topic p)"

definition txns_of :: "log_db \<Rightarrow> txn_row list" where
  "txns_of db = db_txns (lg_producer db)"

definition txn_inv :: "codec_env \<Rightarrow> log_db \<Rightarrow> bool" where
  "txn_inv env db \<longleftrightarrow> distinct (map tp_key (lg_txn_partitions db))
     \<and> (\<forall>q \<in> set (lg_txn_partitions db). 0 \<le> tp_first_offset q \<longrightarrow> tp_ok db q)
     \<and> (\<forall>a \<in> set (lg_aborted db). ab_ok env db a)
     \<and> (\<forall>r \<in> set (lg_log db). data_row r \<longrightarrow> data_ok env db r)
     \<and> topics_ok db \<and> distinct (map tx_producer_id (txns_of db))"

lemma txn_invD:
  assumes "txn_inv env db"
  shows txn_inv_keys: "distinct (map tp_key (lg_txn_partitions db))"
    and txn_inv_tp: "q \<in> set (lg_txn_partitions db) \<Longrightarrow> 0 \<le> tp_first_offset q \<Longrightarrow> tp_ok db q"
    and txn_inv_ab: "a \<in> set (lg_aborted db) \<Longrightarrow> ab_ok env db a"
    and txn_inv_data: "r \<in> set (lg_log db) \<Longrightarrow> data_row r \<Longrightarrow> data_ok env db r"
    and txn_inv_topics: "topics_ok db"
    and txn_inv_txns: "distinct (map tx_producer_id (txns_of db))"
  using assms by (simp_all add: txn_inv_def)

lemma txn_invI:
  assumes "distinct (map tp_key (lg_txn_partitions db))"
    and "\<And>q. q \<in> set (lg_txn_partitions db) \<Longrightarrow> 0 \<le> tp_first_offset q \<Longrightarrow> tp_ok db q"
    and "\<And>a. a \<in> set (lg_aborted db) \<Longrightarrow> ab_ok env db a"
    and "\<And>r. r \<in> set (lg_log db) \<Longrightarrow> data_row r \<Longrightarrow> data_ok env db r"
    and "topics_ok db" and "distinct (map tx_producer_id (txns_of db))"
  shows "txn_inv env db"
  unfolding txn_inv_def using assms by blast

lemma tp_okD:
  assumes "tp_ok db q"
  shows tp_ok_in: "in_partition db (tp_topic q) (tp_partition q) (tp_first_offset q)"
    and tp_ok_clear: "a \<in> set (lg_aborted db) \<Longrightarrow> tp_clear q a"
    and tp_ok_after: "m \<in> set (lg_log db) \<Longrightarrow> tp_after q m"
    and tp_ok_unique: "q' \<in> set (lg_txn_partitions db) \<Longrightarrow> tp_at (tp_topic q) (tp_partition q) q' \<Longrightarrow>
          tp_first_offset q' = tp_first_offset q \<Longrightarrow> q' = q"
  using assms by (simp_all add: tp_ok_def)

lemma ab_okD:
  assumes "ab_ok env db a"
  shows ab_ok_span: "ab_first_offset a \<le> ab_last_offset a"
    and ab_ok_in: "in_partition db (ab_topic a) (ab_partition a) (ab_last_offset a)"
    and ab_ok_apart: "r \<in> set (lg_log db) \<Longrightarrow> ab_apart a r"
    and ab_ok_marker: "\<exists>m \<in> set (lg_log db). ab_marker env a m"
    and ab_ok_alone: "r \<in> set (lg_log db) \<Longrightarrow> ab_alone a r"
  using assms by (simp_all add: ab_ok_def)

lemma tp_key_unique:
  "distinct (map tp_key qs) \<Longrightarrow> q \<in> set qs \<Longrightarrow> q' \<in> set qs \<Longrightarrow> tp_producer_id q' = tp_producer_id q \<Longrightarrow>
     tp_at (tp_topic q) (tp_partition q) q' \<Longrightarrow> q' = q"
  by (auto simp: distinct_map inj_on_def tp_key_def tp_at_def)

subsection \<open>Changes outside the log\<close>

text \<open>The transaction tables may lose rows no open batch relies on and gain rows without a first offset.\<close>

lemma marker_after_cong: "lg_log db' = lg_log db \<Longrightarrow> marker_after db' r m = marker_after db r m"
  by (simp add: marker_after_def)

lemma first_marker_cong: "lg_log db' = lg_log db \<Longrightarrow> first_marker db' r m = first_marker db r m"
  by (simp add: first_marker_def marker_after_def)

lemma txn_inv_frame:
  assumes inv: "txn_inv env db" and same: "lg_log db' = lg_log db" "lg_partitions db' = lg_partitions db"
      "lg_aborted db' = lg_aborted db" "set (lg_topics db) \<subseteq> set (lg_topics db')"
    and keys: "distinct (map tp_key (lg_txn_partitions db'))"
    and old: "\<And>q. q \<in> set (lg_txn_partitions db') \<Longrightarrow> 0 \<le> tp_first_offset q \<Longrightarrow> q \<in> set (lg_txn_partitions db)"
    and kept: "\<And>q r. q \<in> set (lg_txn_partitions db) \<Longrightarrow> has_open_txn (lg_producer db) (tp_producer_id q) \<Longrightarrow>
        r \<in> set (lg_log db) \<Longrightarrow> holds q r \<Longrightarrow>
        q \<in> set (lg_txn_partitions db') \<and> has_open_txn (lg_producer db') (tp_producer_id q)"
    and txns: "distinct (map tx_producer_id (txns_of db'))"
  shows "txn_inv env db'"
proof (rule txn_invI [OF keys])
  fix q assume q: "q \<in> set (lg_txn_partitions db')" "0 \<le> tp_first_offset q"
  have ok: "tp_ok db q" using txn_inv_tp [OF inv old [OF q] q(2)] .
  have "\<forall>q' \<in> set (lg_txn_partitions db'). tp_at (tp_topic q) (tp_partition q) q' \<longrightarrow> tp_first_offset q' = tp_first_offset q \<longrightarrow> q' = q"
  proof (intro ballI impI)
    fix q' assume q': "q' \<in> set (lg_txn_partitions db')" "tp_at (tp_topic q) (tp_partition q) q'" "tp_first_offset q' = tp_first_offset q"
    then have "q' \<in> set (lg_txn_partitions db)" using q(2) by (intro old) simp_all
    then show "q' = q" using tp_ok_unique [OF ok] q'(2,3) by blast
  qed
  with ok show "tp_ok db' q" by (simp add: tp_ok_def in_partition_def same)
next
  fix a assume "a \<in> set (lg_aborted db')"
  then show "ab_ok env db' a" using txn_inv_ab [OF inv, of a] by (simp add: ab_ok_def in_partition_def same)
next
  fix r assume r: "r \<in> set (lg_log db')" "data_row r"
  have ok: "data_ok env db r" using txn_inv_data [OF inv, of r] r by (simp add: same)
  have held: "held_open db r \<Longrightarrow> held_open db' r"
    unfolding held_open_def using kept r(1) same(1) by metis
  have lv: "live db' r = live db r" by (simp add: live_def same)
  have ab: "aborted_in db' r = aborted_in db r" by (simp add: aborted_in_def same)
  show "data_ok env db' r"
    using ok held unfolding data_ok_def lv ab marker_after_cong [OF same(1)] first_marker_cong [OF same(1)] by blast
next
  show "topics_ok db'" using txn_inv_topics [OF inv] same(4) by (auto simp: topics_ok_def same(2))
qed (rule txns)

subsection \<open>Appends\<close>

text \<open>A row put at the end of a partition's log.\<close>

definition fresh_row :: "log_db \<Rightarrow> log_row \<Rightarrow> bool" where
  "fresh_row db r \<longleftrightarrow> lr_base r \<le> lr_last r
     \<and> (\<forall>x \<in> set (lg_log db). lr_at (lr_topic r) (lr_partition r) x \<longrightarrow> lr_base x \<le> lr_last x \<and> lr_last x < lr_base r)
     \<and> (\<forall>off. in_partition db (lr_topic r) (lr_partition r) off \<longrightarrow> off < lr_base r)
     \<and> (\<exists>p \<in> set (lg_partitions db). pt_at (lr_topic r) (lr_partition r) p)"

definition extends :: "log_db \<Rightarrow> log_row \<Rightarrow> log_db \<Rightarrow> bool" where
  "extends db r db' \<longleftrightarrow> lg_log db' = lg_log db @ [r] \<and> lg_topics db' = lg_topics db
     \<and> lg_partitions db' = map (\<lambda>q. if pt_at (lr_topic r) (lr_partition r) q then q\<lparr>pt_next_offset := lr_last r + 1\<rparr> else q)
         (lg_partitions db)"

lemma extends_log: "extends db r db' \<Longrightarrow> lg_log db' = lg_log db @ [r]"
  by (simp add: extends_def)

lemma append_fresh:
  assumes "log_inv seg_size crc db" and "find_partition topic part db = Inr p"
    and "lr_topic r = topic" "lr_partition r = part" "lr_base r = pt_next_offset p" "lr_base r \<le> lr_last r"
  shows "fresh_row db r" and "extends db r (append_effect seg_size topic part r db)"
proof -
  have p: "p \<in> set (lg_partitions db)" "pt_at topic part p"
    using assms(1,2) by (simp_all add: find_partition_iff log_inv_partitions)
  have "off < pt_next_offset p" if e: "in_partition db topic part off" for off
  proof -
    from e obtain p' where p': "p' \<in> set (lg_partitions db)" "pt_at topic part p'" "off < pt_next_offset p'"
      by (auto simp: in_partition_def)
    then have "find_partition topic part db = Inr p'"
      using assms(1) by (simp add: find_partition_iff log_inv_partitions)
    then show ?thesis using p'(3) assms(2) by simp
  qed
  moreover have "lr_base x \<le> lr_last x \<and> lr_last x < pt_next_offset p" if "x \<in> set (lg_log db)" "lr_at topic part x" for x
    using row_partition [OF assms(1) that assms(2)] row_ok_span [OF log_inv_row [OF assms(1) that(1)]] by simp
  ultimately show "fresh_row db r" using p assms(3-6) unfolding fresh_row_def by auto
  show "extends db r (append_effect seg_size topic part r db)" using assms(3,4) by (simp add: extends_def)
qed

lemma grow_ball:
  "(\<forall>q \<in> set (map (\<lambda>q. if P q then q\<lparr>pt_next_offset := n\<rparr> else q) ps). pt_at topic part q \<longrightarrow> pt_log_start q \<le> k)
     \<longleftrightarrow> (\<forall>q \<in> set ps. pt_at topic part q \<longrightarrow> pt_log_start q \<le> k)"
  by (induction ps) (auto simp: pt_at_def)

lemma grow_bex:
  assumes "\<And>q. q \<in> set ps \<Longrightarrow> P q \<Longrightarrow> pt_next_offset q \<le> n" and "p \<in> set ps" and "pt_at topic part p" and "off < pt_next_offset p"
  shows "\<exists>q \<in> set (map (\<lambda>q. if P q then q\<lparr>pt_next_offset := n\<rparr> else q) ps). pt_at topic part q \<and> off < pt_next_offset q"
proof (rule bexI)
  let ?f = "\<lambda>q. if P q then q\<lparr>pt_next_offset := n\<rparr> else q"
  show "?f p \<in> set (map ?f ps)" unfolding set_map by (rule imageI [OF assms(2)])
  show "pt_at topic part (?f p) \<and> off < pt_next_offset (?f p)"
    using assms(1) [OF assms(2)] assms(3,4) by (cases "P p") (simp_all add: pt_at_def)
qed

lemma grow_new:
  "p \<in> set ps \<Longrightarrow> P p \<Longrightarrow> pt_at topic part p \<Longrightarrow> off < n \<Longrightarrow>
     \<exists>q \<in> set (map (\<lambda>q. if P q then q\<lparr>pt_next_offset := n\<rparr> else q) ps). pt_at topic part q \<and> off < pt_next_offset q"
  by (induction ps) (auto simp: pt_at_def)

lemma fresh_next:
  assumes "fresh_row db r" and "q \<in> set (lg_partitions db)" and "pt_at (lr_topic r) (lr_partition r) q"
  shows "pt_next_offset q \<le> lr_last r + 1"
proof -
  have "in_partition db (lr_topic r) (lr_partition r) (pt_next_offset q - 1)"
    unfolding in_partition_def using assms(2,3) by (intro bexI [of _ q]) auto
  then have "pt_next_offset q - 1 < lr_base r" "lr_base r \<le> lr_last r" using assms(1) unfolding fresh_row_def by blast+
  then show ?thesis by linarith
qed

lemma extends_in:
  assumes "extends db r db'" and "fresh_row db r" and "in_partition db topic part off"
  shows "in_partition db' topic part off"
proof -
  obtain p where p: "p \<in> set (lg_partitions db)" "pt_at topic part p" "off < pt_next_offset p"
    using assms(3) unfolding in_partition_def by blast
  have parts: "lg_partitions db' = map (\<lambda>q. if pt_at (lr_topic r) (lr_partition r) q
      then q\<lparr>pt_next_offset := lr_last r + 1\<rparr> else q) (lg_partitions db)" using assms(1) by (simp add: extends_def)
  show ?thesis unfolding in_partition_def parts by (rule grow_bex [OF fresh_next [OF assms(2)] p])
qed

lemma extends_in_new:
  assumes "extends db r db'" and "fresh_row db r" and "off \<le> lr_last r"
  shows "in_partition db' (lr_topic r) (lr_partition r) off"
proof -
  obtain p where p: "p \<in> set (lg_partitions db)" "pt_at (lr_topic r) (lr_partition r) p"
    using assms(2) unfolding fresh_row_def by blast
  have parts: "lg_partitions db' = map (\<lambda>q. if pt_at (lr_topic r) (lr_partition r) q
      then q\<lparr>pt_next_offset := lr_last r + 1\<rparr> else q) (lg_partitions db)" using assms(1) by (simp add: extends_def)
  show ?thesis unfolding in_partition_def parts using assms(3) p
    by (intro grow_new [where p = p]) simp_all
qed

lemma extends_live: "extends db r db' \<Longrightarrow> live db' x = live db x"
  unfolding live_def extends_def by (simp only: grow_ball)

lemma extends_topics: "extends db r db' \<Longrightarrow> topics_ok db \<Longrightarrow> topics_ok db'"
  unfolding topics_ok_def extends_def by auto

lemma extends_marker:
  "extends db r db' \<Longrightarrow> marker_after db' x m \<longleftrightarrow> marker_after db x m \<or> (m = r \<and> lr_at (lr_topic x) (lr_partition x) r
     \<and> lr_is_control r \<and> lr_producer_id r = lr_producer_id x \<and> lr_base x < lr_base r)"
  unfolding marker_after_def by (auto simp: extends_log)

lemma fresh_no_marker: "fresh_row db r \<Longrightarrow> \<not> marker_after db r m"
  by (fastforce simp: fresh_row_def marker_after_def)

lemma fresh_ab:
  assumes "fresh_row db r" and "txn_inv env db" and "a \<in> set (lg_aborted db)" and "ab_at (lr_topic r) (lr_partition r) a"
  shows "ab_first_offset a < lr_base r" and "ab_last_offset a < lr_base r"
proof -
  have "in_partition db (lr_topic r) (lr_partition r) (ab_last_offset a)" "ab_first_offset a \<le> ab_last_offset a"
    using txn_inv_ab [OF assms(2,3)] assms(4) by (simp_all add: ab_ok_def ab_at_def)
  then show "ab_last_offset a < lr_base r" "ab_first_offset a < lr_base r"
    using assms(1) by (auto simp: fresh_row_def)
qed

lemma fresh_tp:
  assumes "fresh_row db r" and "txn_inv env db" and "q \<in> set (lg_txn_partitions db)"
    and "tp_at (lr_topic r) (lr_partition r) q" and "0 \<le> tp_first_offset q"
  shows "tp_first_offset q < lr_base r"
  using tp_ok_in [OF txn_inv_tp [OF assms(2,3,5)]] assms(1,4) by (simp add: fresh_row_def tp_at_def)

lemma extends_ab_ok:
  assumes "extends db r db'" and "fresh_row db r" and "txn_inv env db" and "a \<in> set (lg_aborted db)"
  shows "ab_ok env db' a"
proof -
  have ok: "ab_ok env db a" by (rule txn_inv_ab [OF assms(3,4)])
  have "ab_last_offset a < lr_base r" if "lr_at (ab_topic a) (ab_partition a) r"
    using that assms(2-4) by (intro fresh_ab(2)) (auto simp: lr_at_def ab_at_def)
  then have new: "ab_apart a r" "ab_alone a r" by (auto simp: ab_apart_def ab_alone_def)
  have old: "ab_apart a x" "ab_alone a x" if "x \<in> set (lg_log db)" for x
    using ab_ok_apart [OF ok that] ab_ok_alone [OF ok that] by simp_all
  obtain m where "m \<in> set (lg_log db)" "ab_marker env a m" using ab_ok_marker [OF ok] by blast
  then show ?thesis
    using new old ab_ok_span [OF ok] extends_in [OF assms(1,2) ab_ok_in [OF ok]]
    unfolding ab_ok_def extends_log [OF assms(1)] by auto
qed

text \<open>A data or plain batch is appended, and some rows of its producer on the partition that had no first
  offset take the batch's.\<close>

lemma append_row_inv:
  assumes inv: "txn_inv env db" and fresh: "fresh_row db r" and ext: "extends db r db'" and plain: "\<not> lr_is_control r"
    and same: "lg_aborted db' = lg_aborted db" "lg_producer db' = lg_producer db"
    and f: "\<And>q. f q = (if chosen q then q\<lparr>tp_first_offset := lr_base r\<rparr> else q)"
    and tps: "lg_txn_partitions db' = map f (lg_txn_partitions db)"
    and chosen: "\<And>q. chosen q \<Longrightarrow> tp_first_offset q < 0 \<and> Some (tp_producer_id q) = lr_producer_id r
        \<and> tp_at (lr_topic r) (lr_partition r) q"
    and data: "data_row r \<Longrightarrow> \<exists>q \<in> set (lg_txn_partitions db). Some (tp_producer_id q) = lr_producer_id r
        \<and> tp_at (lr_topic r) (lr_partition r) q \<and> has_open_txn (lg_producer db) (tp_producer_id q)
        \<and> (tp_first_offset q < 0 \<longrightarrow> chosen q)"
    and base: "0 \<le> lr_base r"
  shows "txn_inv env db'"
proof (rule txn_invI)
  have key: "tp_key (f q) = tp_key q" "tp_producer_id (f q) = tp_producer_id q" "tp_topic (f q) = tp_topic q"
      "tp_partition (f q) = tp_partition q" for q
    by (simp_all add: f tp_key_def)
  have tp_at_f: "tp_at t k (f q) = tp_at t k q" for t k q by (simp add: tp_at_def key)
  show "distinct (map tp_key (lg_txn_partitions db'))"
    using txn_inv_keys [OF inv] by (simp add: tps key comp_def)
  show "topics_ok db'" by (rule extends_topics [OF ext txn_inv_topics [OF inv]])
  show "distinct (map tx_producer_id (txns_of db'))" using txn_inv_txns [OF inv] by (simp add: txns_of_def same)
  show "ab_ok env db' a" if "a \<in> set (lg_aborted db')" for a
    using that extends_ab_ok [OF ext fresh inv] by (simp add: same)
  show "tp_ok db' q" if qin: "q \<in> set (lg_txn_partitions db')" and q0: "0 \<le> tp_first_offset q" for q
  proof -
    obtain x where x: "x \<in> set (lg_txn_partitions db)" "q = f x" using qin by (auto simp: tps)
    have after: "tp_after q r" by (simp add: tp_after_def plain)
    have first: "tp_first_offset y < lr_base r"
      if "y \<in> set (lg_txn_partitions db)" "tp_at (lr_topic r) (lr_partition r) y" "0 \<le> tp_first_offset y" for y
      by (rule fresh_tp [OF fresh inv that])
    show ?thesis
    proof (cases "chosen x")
      case False
      then have qx: "q = x" using x(2) f by simp
      have ok: "tp_ok db x" using x(1) q0 qx by (intro txn_inv_tp [OF inv]) simp_all
      have "y = x" if y: "z \<in> set (lg_txn_partitions db)" "y = f z" "tp_at (tp_topic x) (tp_partition x) y"
          "tp_first_offset y = tp_first_offset x" for y z
      proof (cases "chosen z")
        case True
        then have "tp_first_offset x = lr_base r" "tp_at (lr_topic r) (lr_partition r) x"
          using y chosen [OF True] f by (auto simp: tp_at_def)
        then show ?thesis using first [OF x(1)] q0 qx by simp
      next
        case False
        then show ?thesis using tp_ok_unique [OF ok y(1)] y f by simp
      qed
      then show ?thesis
        using ok after extends_in [OF ext fresh] extends_log [OF ext] unfolding qx tp_ok_def tps same by auto
    next
      case True
      note c = chosen [OF True]
      have q: "tp_first_offset q = lr_base r" "tp_topic q = lr_topic r" "tp_partition q = lr_partition r"
          "Some (tp_producer_id q) = lr_producer_id r"
        using x(2) f True c by (auto simp: tp_at_def)
      have "in_partition db' (tp_topic q) (tp_partition q) (tp_first_offset q)"
        unfolding q by (rule extends_in_new [OF ext fresh]) (use fresh in \<open>simp add: fresh_row_def\<close>)
      moreover have "tp_clear q a" if "a \<in> set (lg_aborted db')" for a
        using that fresh_ab [OF fresh inv, of a] by (auto simp: tp_clear_def q same)
      moreover have "tp_after q m" if "m \<in> set (lg_log db)" for m
        using that fresh unfolding tp_after_def q fresh_row_def by force
      moreover have "y = q" if y: "y \<in> set (lg_txn_partitions db')" "tp_at (tp_topic q) (tp_partition q) y"
          "tp_first_offset y = tp_first_offset q" for y
      proof -
        obtain z where z: "z \<in> set (lg_txn_partitions db)" "y = f z" using y(1) by (auto simp: tps)
        have zat: "tp_at (lr_topic r) (lr_partition r) z" using y(2) unfolding z(2) tp_at_f q(2,3) .
        have "chosen z"
        proof (rule ccontr)
          assume "\<not> chosen z"
          then have "tp_first_offset z = lr_base r" using y(3) z(2) f q(1) by simp
          then show False using first [OF z(1) zat] base by simp
        qed
        then have "tp_producer_id z = tp_producer_id x" "tp_at (tp_topic x) (tp_partition x) z"
          using chosen [of z] c option.inject by (metis, simp add: tp_at_def)
        then have "z = x" using tp_key_unique [OF txn_inv_keys [OF inv] x(1) z(1)] by simp
        then show ?thesis using z(2) x(2) by simp
      qed
      ultimately show ?thesis using after extends_log [OF ext] unfolding tp_ok_def by auto
    qed
  qed
  show "data_ok env db' x" if xin: "x \<in> set (lg_log db')" and xd: "data_row x" for x
  proof (cases "x \<in> set (lg_log db)")
    case True
    have ok: "data_ok env db x" by (rule txn_inv_data [OF inv True xd])
    have mk: "marker_after db' x m = marker_after db x m" for m by (simp add: extends_marker [OF ext] plain)
    have "f q = q" if "holds q x" for q using that chosen f by (force simp: holds_def)
    then have "held_open db x \<Longrightarrow> held_open db' x" unfolding held_open_def tps same by force
    then show ?thesis
      using ok unfolding data_ok_def extends_live [OF ext] first_marker_def mk aborted_in_def same by blast
  next
    case False
    then have xr: "x = r" using xin by (auto simp: extends_log [OF ext])
    obtain q where q: "q \<in> set (lg_txn_partitions db)" "Some (tp_producer_id q) = lr_producer_id r"
        "tp_at (lr_topic r) (lr_partition r) q" "has_open_txn (lg_producer db) (tp_producer_id q)"
        "tp_first_offset q < 0 \<longrightarrow> chosen q"
      using data xd xr by blast
    have "holds (f q) r"
    proof (cases "tp_first_offset q < 0")
      case True
      then show ?thesis using q base by (simp add: holds_def f tp_at_def)
    next
      case False
      then have "\<not> chosen q" "tp_first_offset q < lr_base r" using chosen fresh_tp [OF fresh inv q(1,3)] by auto
      then show ?thesis using q False by (simp add: holds_def f)
    qed
    then have "held_open db' r" unfolding held_open_def tps same using q(1,4) key(2) by auto
    moreover have "\<not> marker_after db' r m" for m
      using fresh_no_marker [OF fresh] plain by (simp add: extends_marker [OF ext])
    moreover have "lr_producer_id r \<noteq> None" using q(2) by (metis option.distinct(1))
    ultimately show ?thesis unfolding data_ok_def xr first_marker_def by blast
  qed
qed

text \<open>A marker closes one partition of its producer's transaction: the row leaves the table, and an abort
  with a first offset enters the index.\<close>

lemma append_marker_row_inv:
  assumes inv: "txn_inv env db" and fresh: "fresh_row db r" and ext: "extends db r db'"
    and r: "lr_is_control r" "aborts env r \<longleftrightarrow> \<not> committed"
    and q: "q \<in> set (lg_txn_partitions db)" "Some (tp_producer_id q) = lr_producer_id r" "tp_at (lr_topic r) (lr_partition r) q"
    and prod: "lg_producer db' = lg_producer db"
    and tps: "lg_txn_partitions db' = filter (\<lambda>x. x \<noteq> q) (lg_txn_partitions db)"
    and ab: "set (lg_aborted db') = (if \<not> committed \<and> 0 \<le> tp_first_offset q
        then insert \<lparr>ab_topic = lr_topic r, ab_partition = lr_partition r, ab_producer_id = tp_producer_id q,
               ab_first_offset = tp_first_offset q, ab_last_offset = lr_base r\<rparr> (set (lg_aborted db))
        else set (lg_aborted db))"
  shows "txn_inv env db'"
proof (rule txn_invI)
  let ?new = "\<lparr>ab_topic = lr_topic r, ab_partition = lr_partition r, ab_producer_id = tp_producer_id q,
               ab_first_offset = tp_first_offset q, ab_last_offset = lr_base r\<rparr>"
  have only: "x = q" if "x \<in> set (lg_txn_partitions db)" "Some (tp_producer_id x) = lr_producer_id r"
      "tp_at (lr_topic r) (lr_partition r) x" for x
  proof -
    have "Some (tp_producer_id x) = Some (tp_producer_id q)" using that(2) q(2) by (rule trans [OF _ sym])
    then show ?thesis using tp_key_unique [OF txn_inv_keys [OF inv] q(1) that(1)] that(3) q(3) by (simp add: tp_at_def)
  qed
  have qok: "tp_ok db q" if "0 \<le> tp_first_offset q" using txn_inv_tp [OF inv q(1) that] .
  have qb: "tp_first_offset q < lr_base r" if "0 \<le> tp_first_offset q" by (rule fresh_tp [OF fresh inv q(1,3) that])
  show "distinct (map tp_key (lg_txn_partitions db'))"
    using txn_inv_keys [OF inv] by (simp add: tps distinct_map_filter)
  show "topics_ok db'" by (rule extends_topics [OF ext txn_inv_topics [OF inv]])
  show "distinct (map tx_producer_id (txns_of db'))" using txn_inv_txns [OF inv] by (simp add: txns_of_def prod)
  show "tp_ok db' x" if xin: "x \<in> set (lg_txn_partitions db')" and x0: "0 \<le> tp_first_offset x" for x
  proof -
    have x: "x \<in> set (lg_txn_partitions db)" "x \<noteq> q" using xin by (simp_all add: tps)
    have ok: "tp_ok db x" by (rule txn_inv_tp [OF inv x(1) x0])
    have apart: "Some (tp_producer_id x) \<noteq> lr_producer_id r" if "tp_at (lr_topic r) (lr_partition r) x"
      using only [OF x(1) _ that] x(2) by blast
    have "tp_after x r" using apart unfolding tp_after_def by (simp add: lr_at_def tp_at_def) metis
    moreover have "tp_clear x ?new"
    proof -
      have "tp_first_offset q \<noteq> tp_first_offset x" "tp_producer_id q \<noteq> tp_producer_id x"
        if "tp_at (lr_topic r) (lr_partition r) x"
        using tp_ok_unique [OF ok q(1)] x(2) that q(2,3) apart [OF that] by (auto simp: tp_at_def)
      then show ?thesis unfolding tp_clear_def by (auto simp: ab_at_def tp_at_def)
    qed
    then have "\<forall>a \<in> set (lg_aborted db'). tp_clear x a" using tp_ok_clear [OF ok] by (auto simp: ab)
    ultimately show ?thesis
      using ok extends_in [OF ext fresh] extends_log [OF ext] unfolding tp_ok_def tps by auto
  qed
  show "ab_ok env db' a" if ain: "a \<in> set (lg_aborted db')" for a
  proof (cases "a \<in> set (lg_aborted db)")
    case True
    then show ?thesis by (rule extends_ab_ok [OF ext fresh inv])
  next
    case False
    then have a: "a = ?new" "0 \<le> tp_first_offset q" using ain by (auto simp: ab split: if_splits)
    have "in_partition db' (lr_topic r) (lr_partition r) (lr_base r)"
      by (rule extends_in_new [OF ext fresh]) (use fresh in \<open>simp add: fresh_row_def\<close>)
    moreover have "ab_apart ?new x" if "x \<in> set (lg_log db')" for x
      using that fresh r(1) by (auto simp: ab_apart_def extends_log [OF ext] fresh_row_def)
    moreover have "ab_alone ?new x" if "x \<in> set (lg_log db')" for x
      using that tp_ok_after [OF qok [OF a(2)], of x] q(3)
      by (auto simp: ab_alone_def tp_after_def tp_at_def extends_log [OF ext])
    moreover have "\<exists>m \<in> set (lg_log db'). ab_marker env ?new m"
      using r q(2) ain False by (auto simp: ab_marker_def lr_at_def extends_log [OF ext] ab split: if_splits)
    ultimately show ?thesis using qb [OF a(2)] unfolding a(1) ab_ok_def by simp
  qed
  show "data_ok env db' x" if xin: "x \<in> set (lg_log db')" and xd: "data_row x" for x
  proof -
    have xlog: "x \<in> set (lg_log db)" using xin xd r(1) by (auto simp: extends_log [OF ext] data_row_def)
    have ok: "data_ok env db x" by (rule txn_inv_data [OF inv xlog xd])
    have qr: "tp_topic q = lr_topic r" "tp_partition q = lr_partition r" using q(3) by (simp_all add: tp_at_def)
    have by_q: "q' = q" if "q' \<in> set (lg_txn_partitions db)" "holds q' x" "lr_at (lr_topic x) (lr_partition x) r"
        "lr_producer_id r = lr_producer_id x" for q'
      using that by (intro only) (auto simp: holds_def lr_at_def tp_at_def)
    have xr: "lr_base x < lr_base r" if "lr_at (lr_topic x) (lr_partition x) r"
      using that xlog fresh by (auto simp: fresh_row_def lr_at_def)
    have closes: "marker_after db' x r" if "holds q x"
    proof -
      have "lr_at (lr_topic x) (lr_partition x) r" "lr_producer_id r = lr_producer_id x"
        using that q(2) qr by (auto simp: holds_def lr_at_def tp_at_def)
      then show ?thesis using xr r(1) by (simp add: extends_marker [OF ext])
    qed
    have first: "(\<exists>m. marker_after db' x m) \<or> held_open db' x" if lv: "live db x"
      using ok lv closes extends_marker [OF ext] unfolding data_ok_def held_open_def tps prod by fastforce
    have second: "aborted_in db' x = aborts env m" if lv: "live db x" and m: "first_marker db' x m" for m
    proof (cases "\<exists>m0. marker_after db x m0")
      case True
      then obtain m0 where m0: "marker_after db x m0" by blast
      have "lr_base m \<le> lr_base m0" using m m0 by (auto simp: first_marker_def extends_marker [OF ext])
      moreover have "lr_base m0 < lr_base r" if "lr_at (lr_topic x) (lr_partition x) r"
        using m0 that fresh by (force simp: marker_after_def fresh_row_def lr_at_def)
      ultimately have old: "marker_after db x m" using m by (auto simp: first_marker_def extends_marker [OF ext])
      then have fm: "first_marker db x m" using m by (auto simp: first_marker_def extends_marker [OF ext])
      have "\<not> abort_covers ?new x" if "0 \<le> tp_first_offset q"
      proof
        assume c: "abort_covers ?new x"
        have "tp_after q m" using tp_ok_after [OF qok [OF that]] old by (simp add: marker_after_def)
        moreover have "lr_at (tp_topic q) (tp_partition q) m" "lr_is_control m" "lr_producer_id m = Some (tp_producer_id q)"
            "lr_base x < lr_base m"
          using c old qr by (auto simp: abort_covers_def ab_at_def marker_after_def lr_at_def)
        ultimately show False using c by (auto simp: tp_after_def abort_covers_def)
      qed
      then have "aborted_in db' x = aborted_in db x" unfolding aborted_in_def ab by auto
      then show ?thesis using ok lv fm unfolding data_ok_def by blast
    next
      case False
      then have mr: "m = r" and at: "lr_at (lr_topic x) (lr_partition x) r" "lr_producer_id r = lr_producer_id x"
        using m by (auto simp: first_marker_def extends_marker [OF ext])
      obtain q' where q': "q' \<in> set (lg_txn_partitions db)" "holds q' x"
        using ok lv False unfolding data_ok_def held_open_def by blast
      then have hq: "holds q x" using by_q [OF q' at] by simp
      have q0: "0 \<le> tp_first_offset q" using hq by (simp add: holds_def)
      have none: "\<not> abort_covers a x" if "a \<in> set (lg_aborted db)" for a
        using tp_ok_clear [OF qok [OF q0] that] hq
        by (cases "lr_producer_id x") (auto simp: tp_clear_def abort_covers_def holds_def ab_at_def tp_at_def)
      have "abort_covers ?new x"
        using hq at xr [OF at(1)] by (auto simp: abort_covers_def holds_def ab_at_def lr_at_def tp_at_def)
      then have "aborted_in db' x \<longleftrightarrow> \<not> committed" using none q0 unfolding aborted_in_def ab by auto
      then show ?thesis using r(2) mr by simp
    qed
    show ?thesis using ok first second unfolding data_ok_def extends_live [OF ext] by blast
  qed
qed

subsection \<open>Retention and partitions\<close>

lemma later_row_apart:
  assumes "log_inv seg_size crc db" and "x \<in> set (lg_log db)" and "m \<in> set (lg_log db)"
    and "lr_at (lr_topic x) (lr_partition x) m" and "lr_base x < lr_base m"
  shows "lr_last x < lr_last m"
proof -
  let ?log = "part_log (lr_topic x) (lr_partition x) db"
  have in_log: "x \<in> set ?log" "m \<in> set ?log" using assms(2-4) by (simp_all add: lr_at_def)
  have span: "\<forall>r \<in> set ?log. lr_base r \<le> lr_last r" using row_ok_span [OF log_inv_row [OF assms(1)]] by simp
  have m: "lr_base m \<le> lr_last m" using span in_log(2) by blast
  have "lr_last x < lr_base m"
  proof (rule ccontr)
    assume "\<not> lr_last x < lr_base m"
    then have "x = m"
      by (intro ascending_disjoint [OF log_inv_ascending [OF assms(1)] in_log span, of "lr_base m"]) (use assms(5) m in simp_all)
    then show False using assms(5) by simp
  qed
  then show ?thesis using m by simp
qed

lemma in_partition_update:
  assumes "lg_partitions db' = map g (lg_partitions db)"
    and "\<And>r. pt_topic (g r) = pt_topic r \<and> pt_partition (g r) = pt_partition r \<and> pt_next_offset (g r) = pt_next_offset r"
  shows "in_partition db' topic part off = in_partition db topic part off"
  unfolding in_partition_def assms(1) set_map bex_simps(7) by (simp add: pt_at_def assms(2))

lemma live_update:
  assumes "lg_partitions db' = map g (lg_partitions db)"
    and "\<And>r. r \<in> set (lg_partitions db) \<Longrightarrow> pt_topic (g r) = pt_topic r \<and> pt_partition (g r) = pt_partition r \<and> pt_log_start r \<le> pt_log_start (g r)"
    and "live db' x"
  shows "live db x"
  using assms(3) unfolding live_def assms(1) set_map ball_simps(9)
  using assms(2) by (force simp: pt_at_def)

lemma topics_update:
  assumes "lg_partitions db' = map g (lg_partitions db)" and "lg_topics db' = lg_topics db" and "\<And>r. pt_topic (g r) = pt_topic r"
  shows "topics_ok db' = topics_ok db"
  unfolding topics_ok_def assms(1,2) set_map ball_simps(9) by (simp add: assms(3))

lemma reclaim_txn_inv:
  assumes linv: "log_inv seg_size crc db" and inv: "txn_inv env db" and p: "find_partition topic part db = Inr p"
    and target: "pt_log_start p \<le> target"
  shows "txn_inv env (reclaim_effect topic part target (doomed topic part target db) db)" (is "txn_inv env ?db")
proof (rule txn_invI)
  have ip: "in_partition ?db t k off = in_partition db t k off" for t k off
    by (rule in_partition_update [where g = "\<lambda>r. if pt_at topic part r then r\<lparr>pt_log_start := target\<rparr> else r"]) simp_all
  have pin: "p' = p" if "p' \<in> set (lg_partitions db)" "pt_at topic part p'" for p'
    using that p find_partition_iff [OF log_inv_partitions [OF linv], of topic part p'] by simp
  have lv: "live db x" if "live ?db x" for x
    by (rule live_update [OF _ _ that, where g = "\<lambda>r. if pt_at topic part r then r\<lparr>pt_log_start := target\<rparr> else r"])
      (use pin target in auto)
  have above: "target \<le> lr_last x" if "live ?db x" "lr_at topic part x" for x
  proof -
    have "p \<in> set (lg_partitions db)" "pt_at topic part p"
      using p by (simp_all add: find_partition_iff [OF log_inv_partitions [OF linv]])
    then have "p\<lparr>pt_log_start := target\<rparr> \<in> set (lg_partitions ?db)" by (force simp: image_iff)
    moreover have "pt_at (lr_topic x) (lr_partition x) (p\<lparr>pt_log_start := target\<rparr>)"
      using that(2) \<open>pt_at topic part p\<close> by (simp add: pt_at_def lr_at_def)
    ultimately have "pt_log_start (p\<lparr>pt_log_start := target\<rparr>) \<le> lr_last x" using that(1) unfolding live_def by blast
    then show ?thesis by simp
  qed
  show "distinct (map tp_key (lg_txn_partitions ?db))" using txn_inv_keys [OF inv] by simp
  have "topics_ok ?db = topics_ok db"
    by (rule topics_update [where g = "\<lambda>r. if pt_at topic part r then r\<lparr>pt_log_start := target\<rparr> else r"]) simp_all
  then show "topics_ok ?db" using txn_inv_topics [OF inv] by simp
  show "distinct (map tx_producer_id (txns_of ?db))" using txn_inv_txns [OF inv] by (simp add: txns_of_def)
  show "tp_ok ?db q" if "q \<in> set (lg_txn_partitions ?db)" "0 \<le> tp_first_offset q" for q
    using txn_inv_tp [OF inv, of q] that unfolding tp_ok_def ip by simp
  show "ab_ok env ?db a" if a: "a \<in> set (lg_aborted ?db)" for a
  proof -
    have ok: "ab_ok env db a" using txn_inv_ab [OF inv, of a] a by simp
    obtain m where m: "m \<in> set (lg_log db)" "ab_marker env a m" using ab_ok_marker [OF ok] by blast
    have "spared (doomed topic part target db) m"
    proof (cases "lr_at topic part m")
      case True
      then have "target \<le> lr_base m" using a m(2) by (simp add: ab_marker_def lr_at_def ab_at_def)
      then show ?thesis using True row_ok_span [OF log_inv_row [OF linv m(1)]] by (intro spared_above [OF linv m(1)]) simp_all
    qed (rule spared_other)
    then show ?thesis using ok m unfolding ab_ok_def ip by auto
  qed
  show "data_ok env ?db x" if xin: "x \<in> set (lg_log ?db)" and xd: "data_row x" for x
  proof -
    have x: "x \<in> set (lg_log db)" using xin by simp
    have ok: "data_ok env db x" by (rule txn_inv_data [OF inv x xd])
    show ?thesis
    proof (cases "live ?db x")
      case False
      then show ?thesis using ok by (simp add: data_ok_def)
    next
      case True
      have mk: "marker_after ?db x m \<longleftrightarrow> marker_after db x m" for m
      proof -
        have "spared (doomed topic part target db) m" if m: "marker_after db x m"
        proof (cases "lr_at topic part m")
          case at: True
          then have "lr_at topic part x" using m by (simp add: marker_after_def lr_at_def)
          then have "target \<le> lr_last m"
            using above [OF True] later_row_apart [OF linv x, of m] m by (simp add: marker_after_def)
          then show ?thesis using m by (intro spared_above [OF linv]) (simp_all add: marker_after_def)
        qed (rule spared_other)
        then show ?thesis by (auto simp: marker_after_def)
      qed
      have "aborted_in ?db x = aborted_in db x"
      proof -
        have "\<not> (ab_at topic part a \<and> ab_last_offset a < target)" if a: "a \<in> set (lg_aborted db)" "abort_covers a x" for a
        proof -
          have "lr_last x < ab_last_offset a"
            using ab_ok_apart [OF txn_inv_ab [OF inv a(1)] x] a(2) xd
            by (auto simp: ab_apart_def abort_covers_def ab_at_def lr_at_def data_row_def)
          then show ?thesis using above [OF True] a(2) by (auto simp: abort_covers_def ab_at_def lr_at_def)
        qed
        then show ?thesis by (auto simp: aborted_in_def)
      qed
      then show ?thesis
        using ok lv [OF True] True unfolding data_ok_def first_marker_def mk by (simp add: held_open_def)
    qed
  qed
qed

lemma drop_partition_tables [simp]:
  "lg_txn_partitions (drop_partition topic part db) = filter (\<lambda>r. \<not> tp_at topic part r) (lg_txn_partitions db)"
  "lg_aborted (drop_partition topic part db) = filter (\<lambda>r. \<not> ab_at topic part r) (lg_aborted db)"
  "lg_topics (drop_partition topic part db) = lg_topics db"
  "lg_topic_id_seq (drop_partition topic part db) = lg_topic_id_seq db"
  "lg_producer (drop_partition topic part db) = lg_producer db"
  "lg_txn_offsets (drop_partition topic part db) = lg_txn_offsets db"
  "lg_offsets (drop_partition topic part db) = lg_offsets db"
  by (simp_all add: drop_partition_def Let_def pm_drop_partition_def fold_drop_tables)

lemma drop_txn_inv:
  assumes linv: "log_inv seg_size crc db" and inv: "txn_inv env db"
  shows "txn_inv env (drop_partition topic part db)" (is "txn_inv env ?db")
proof (rule txn_invI)
  note f = drop_partition_fields [OF linv, of topic part]
  have ip: "in_partition ?db t k off \<longleftrightarrow> (t, k) \<noteq> (topic, part) \<and> in_partition db t k off" for t k off
    unfolding in_partition_def f by (auto simp: pt_at_def)
  show "distinct (map tp_key (lg_txn_partitions ?db))" using txn_inv_keys [OF inv] by (simp add: distinct_map_filter)
  show "topics_ok ?db" using txn_inv_topics [OF inv] by (simp add: topics_ok_def f)
  show "distinct (map tx_producer_id (txns_of ?db))" using txn_inv_txns [OF inv] by (simp add: txns_of_def)
  show "tp_ok ?db q" if "q \<in> set (lg_txn_partitions ?db)" "0 \<le> tp_first_offset q" for q
    using txn_inv_tp [OF inv, of q] that unfolding tp_ok_def ip f by (auto simp: tp_at_def)
  show "ab_ok env ?db a" if "a \<in> set (lg_aborted ?db)" for a
    using txn_inv_ab [OF inv, of a] that unfolding ab_ok_def ip f by (fastforce simp: ab_at_def ab_marker_def lr_at_def)
  show "data_ok env ?db x" if xin: "x \<in> set (lg_log ?db)" and xd: "data_row x" for x
  proof -
    have x: "x \<in> set (lg_log db)" "\<not> lr_at topic part x" using xin by (simp_all add: f)
    have ok: "data_ok env db x" by (rule txn_inv_data [OF inv x(1) xd])
    have mk: "marker_after ?db x m = marker_after db x m" for m
      using x(2) unfolding marker_after_def f by (auto simp: lr_at_def)
    have "aborted_in ?db x = aborted_in db x" using x(2) by (auto simp: aborted_in_def abort_covers_def ab_at_def lr_at_def)
    moreover have "held_open db x \<Longrightarrow> held_open ?db x" using x(2) by (auto simp: held_open_def holds_def tp_at_def lr_at_def)
    moreover have "live ?db x = live db x" using x(2) unfolding live_def f by (auto simp: lr_at_def pt_at_def)
    ultimately show ?thesis using ok unfolding data_ok_def first_marker_def mk by blast
  qed
qed

text \<open>Partition rows may change in what no transaction reads, and new empty partitions may appear.\<close>

lemma partitions_txn_inv:
  assumes inv: "txn_inv env db"
    and same: "lg_log db' = lg_log db" "lg_aborted db' = lg_aborted db" "lg_txn_partitions db' = lg_txn_partitions db"
      "lg_producer db' = lg_producer db"
    and topics: "topics_ok db'" and grow: "\<And>t k off. in_partition db t k off \<Longrightarrow> in_partition db' t k off"
    and lv: "\<And>x. x \<in> set (lg_log db) \<Longrightarrow> live db' x \<Longrightarrow> live db x"
  shows "txn_inv env db'"
proof (rule txn_invI)
  show "distinct (map tp_key (lg_txn_partitions db'))" using txn_inv_keys [OF inv] by (simp add: same)
  show "distinct (map tx_producer_id (txns_of db'))" using txn_inv_txns [OF inv] by (simp add: txns_of_def same)
  show "tp_ok db' q" if "q \<in> set (lg_txn_partitions db')" "0 \<le> tp_first_offset q" for q
    using txn_inv_tp [OF inv, of q] that grow unfolding tp_ok_def same by blast
  show "ab_ok env db' a" if "a \<in> set (lg_aborted db')" for a
    using txn_inv_ab [OF inv, of a] that grow unfolding ab_ok_def same by blast
  show "data_ok env db' x" if "x \<in> set (lg_log db')" "data_row x" for x
    using txn_inv_data [OF inv, of x] that lv [of x]
    unfolding data_ok_def first_marker_def marker_after_def held_open_def aborted_in_def same by blast
qed (rule topics)

lemma create_txn_inv:
  assumes linv: "log_inv seg_size crc db" and inv: "txn_inv env db" and topic: "\<exists>t \<in> set (lg_topics db). tr_topic_id t = topic"
  shows "txn_inv env (create_partition seg_size topic part epoch db)" (is "txn_inv env ?db")
proof (rule partitions_txn_inv [OF inv])
  have parts: "set (lg_partitions ?db) = set (lg_partitions db)
      \<or> set (lg_partitions ?db) = insert (new_partition topic part epoch) (set (lg_partitions db))
        \<and> (\<forall>r \<in> set (lg_partitions db). \<not> pt_at topic part r)"
    by (auto simp: create_partition_def)
  have fields: "lg_topics ?db = lg_topics db" by (simp add: create_partition_def pm_create_partition_def Let_def)
  have "\<exists>t \<in> set (lg_topics db). tr_topic_id t = pt_topic r" if "r \<in> set (lg_partitions ?db)" for r
  proof (cases "r = new_partition topic part epoch")
    case True
    then show ?thesis using topic by (simp add: new_partition_def)
  next
    case False
    then have "r \<in> set (lg_partitions db)" using that parts by blast
    then show ?thesis using txn_inv_topics [OF inv] unfolding topics_ok_def by blast
  qed
  then show "topics_ok ?db" unfolding topics_ok_def fields by blast
  show "in_partition ?db t k off" if "in_partition db t k off" for t k off
    using that parts unfolding in_partition_def by blast
  show "live db x" if "x \<in> set (lg_log db)" "live ?db x" for x
    using that parts unfolding live_def by blast
qed (simp_all add: create_partition_def pm_create_partition_def Let_def)

lemma promote_txn_inv:
  assumes inv: "txn_inv env db" and "set_leader_epoch topic part epoch db = Inr (raised, db')"
  shows "txn_inv env db'"
  using assms(2)
proof (cases rule: set_leader_epoch_cases)
  case (1 p)
  then show ?thesis using inv by simp
next
  case (2 p)
  have parts: "lg_partitions db' = map (\<lambda>r. if pt_at topic part r
      then r\<lparr>pt_leader_epoch := epoch, pt_epoch_start := pt_next_offset r\<rparr> else r) (lg_partitions db)" by (simp add: 2)
  show ?thesis
  proof (rule partitions_txn_inv [OF inv])
    show "in_partition db' t k off" if "in_partition db t k off" for t k off
      using that by (subst in_partition_update [OF parts]) simp_all
    show "topics_ok db'" using txn_inv_topics [OF inv] by (subst topics_update [OF parts]) (simp_all add: 2)
    show "live db x" if "live db' x" for x by (rule live_update [OF parts _ that]) simp
  qed (simp_all add: 2)
qed

end
