(* ===== verification/Coord_Invariant.thy ===== *)
theory Coord_Invariant
  imports ProducePath
begin

text \<open>
  What ties the producer rows to the transaction rows: keys are unique, every id was drawn from the
  sequence, a transaction row carries the transactional id of its producer, and while the transaction is
  ongoing also its epoch. The sequence is assumed not to be exhausted: past \<open>2^63 - 1\<close> the database refuses
  to draw another id.
\<close>

definition agrees :: "producer_row \<Rightarrow> txn_row \<Rightarrow> bool" where
  "agrees p t \<longleftrightarrow> pr_transactional_id p = Some (tx_transactional_id t)
     \<and> (tx_state t = TxnOngoing \<longrightarrow> pr_producer_epoch p = tx_producer_epoch t)"

definition coord_inv :: "producer_db \<Rightarrow> bool" where
  "coord_inv pdb \<longleftrightarrow> distinct (map pr_producer_id (db_producers pdb)) \<and> distinct (map tx_producer_id (db_txns pdb))
     \<and> (\<forall>p \<in> set (db_producers pdb). \<forall>p' \<in> set (db_producers pdb).
          pr_transactional_id p \<noteq> None \<longrightarrow> pr_transactional_id p' = pr_transactional_id p \<longrightarrow> p' = p)
     \<and> (\<forall>p \<in> set (db_producers pdb). sint (pr_producer_id p) < sint (db_producer_id_seq pdb))
     \<and> (\<forall>t \<in> set (db_txns pdb). sint (tx_producer_id t) < sint (db_producer_id_seq pdb))
     \<and> (\<forall>t \<in> set (db_txns pdb). \<forall>p \<in> set (db_producers pdb). pr_producer_id p = tx_producer_id t \<longrightarrow> agrees p t)"

lemma coord_invD:
  assumes "coord_inv pdb"
  shows coord_producers: "distinct (map pr_producer_id (db_producers pdb))"
    and coord_txns: "distinct (map tx_producer_id (db_txns pdb))"
    and coord_ids: "p \<in> set (db_producers pdb) \<Longrightarrow> p' \<in> set (db_producers pdb) \<Longrightarrow> pr_transactional_id p \<noteq> None \<Longrightarrow>
      pr_transactional_id p' = pr_transactional_id p \<Longrightarrow> p' = p"
    and coord_seq_producer: "p \<in> set (db_producers pdb) \<Longrightarrow> sint (pr_producer_id p) < sint (db_producer_id_seq pdb)"
    and coord_seq_txn: "t \<in> set (db_txns pdb) \<Longrightarrow> sint (tx_producer_id t) < sint (db_producer_id_seq pdb)"
    and coord_agrees: "t \<in> set (db_txns pdb) \<Longrightarrow> p \<in> set (db_producers pdb) \<Longrightarrow> pr_producer_id p = tx_producer_id t \<Longrightarrow> agrees p t"
  using assms by (simp_all add: coord_inv_def)

lemma coord_invI:
  assumes "distinct (map pr_producer_id (db_producers pdb))" and "distinct (map tx_producer_id (db_txns pdb))"
    and "\<And>p p'. p \<in> set (db_producers pdb) \<Longrightarrow> p' \<in> set (db_producers pdb) \<Longrightarrow> pr_transactional_id p \<noteq> None \<Longrightarrow>
      pr_transactional_id p' = pr_transactional_id p \<Longrightarrow> p' = p"
    and "\<And>p. p \<in> set (db_producers pdb) \<Longrightarrow> sint (pr_producer_id p) < sint (db_producer_id_seq pdb)"
    and "\<And>t. t \<in> set (db_txns pdb) \<Longrightarrow> sint (tx_producer_id t) < sint (db_producer_id_seq pdb)"
    and "\<And>t p. t \<in> set (db_txns pdb) \<Longrightarrow> p \<in> set (db_producers pdb) \<Longrightarrow> pr_producer_id p = tx_producer_id t \<Longrightarrow> agrees p t"
  shows "coord_inv pdb"
  unfolding coord_inv_def using assms by blast

lemma coord_update:
  assumes inv: "coord_inv pdb"
    and ps: "db_producers pdb' = map f (db_producers pdb)" and ts: "db_txns pdb' = map g (db_txns pdb)"
    and seq: "sint (db_producer_id_seq pdb) \<le> sint (db_producer_id_seq pdb')"
    and f: "\<And>p. pr_producer_id (f p) = pr_producer_id p \<and> pr_transactional_id (f p) = pr_transactional_id p"
    and g: "\<And>t. tx_producer_id (g t) = tx_producer_id t \<and> tx_transactional_id (g t) = tx_transactional_id t"
    and agree: "\<And>p t. p \<in> set (db_producers pdb) \<Longrightarrow> t \<in> set (db_txns pdb) \<Longrightarrow> pr_producer_id p = tx_producer_id t \<Longrightarrow>
        agrees p t \<Longrightarrow> tx_state (g t) = TxnOngoing \<Longrightarrow> pr_producer_epoch (f p) = tx_producer_epoch (g t)"
  shows "coord_inv pdb'"
proof (rule coord_invI)
  have "map pr_producer_id (db_producers pdb') = map pr_producer_id (db_producers pdb)"
      "map tx_producer_id (db_txns pdb') = map tx_producer_id (db_txns pdb)"
    by (simp_all add: ps ts f g)
  then show "distinct (map pr_producer_id (db_producers pdb'))" "distinct (map tx_producer_id (db_txns pdb'))"
    using coord_producers [OF inv] coord_txns [OF inv] by simp_all
  show "p' = p" if pp: "p \<in> set (db_producers pdb')" "p' \<in> set (db_producers pdb')" "pr_transactional_id p \<noteq> None"
      "pr_transactional_id p' = pr_transactional_id p" for p p'
  proof -
    obtain p0 p0' where o: "p0 \<in> set (db_producers pdb)" "p = f p0" "p0' \<in> set (db_producers pdb)" "p' = f p0'"
      using pp(1,2) unfolding ps by auto
    have "p0' = p0" by (rule coord_ids [OF inv o(1,3)]) (use pp(3,4) f o in simp_all)
    then show ?thesis using o by simp
  qed
  show "sint (pr_producer_id p) < sint (db_producer_id_seq pdb')" if pin: "p \<in> set (db_producers pdb')" for p
  proof -
    obtain p0 where o: "p0 \<in> set (db_producers pdb)" "p = f p0" using pin unfolding ps by auto
    then show ?thesis using coord_seq_producer [OF inv o(1)] f [of p0] seq by simp
  qed
  show "sint (tx_producer_id t) < sint (db_producer_id_seq pdb')" if tin: "t \<in> set (db_txns pdb')" for t
  proof -
    obtain t0 where o: "t0 \<in> set (db_txns pdb)" "t = g t0" using tin unfolding ts by auto
    then show ?thesis using coord_seq_txn [OF inv o(1)] g [of t0] seq by simp
  qed
  show "agrees p t" if tp: "t \<in> set (db_txns pdb')" "p \<in> set (db_producers pdb')" "pr_producer_id p = tx_producer_id t" for t p
  proof -
    obtain p0 t0 where o: "p0 \<in> set (db_producers pdb)" "p = f p0" "t0 \<in> set (db_txns pdb)" "t = g t0"
      using tp(1,2) unfolding ps ts by auto
    have e: "pr_producer_id p0 = tx_producer_id t0" using tp(3) f g o by simp
    have a: "agrees p0 t0" by (rule coord_agrees [OF inv o(3,1) e])
    show ?thesis using a agree [OF o(1,3) e a] f g unfolding agrees_def o by simp
  qed
qed

lemma coord_filter:
  assumes "coord_inv pdb" and "db_producers pdb' = filter P (db_producers pdb)" and "db_txns pdb' = filter T (db_txns pdb)"
    and "db_producer_id_seq pdb' = db_producer_id_seq pdb"
  shows "coord_inv pdb'"
proof (rule coord_invI)
  show "distinct (map pr_producer_id (db_producers pdb'))" "distinct (map tx_producer_id (db_txns pdb'))"
    using coord_producers [OF assms(1)] coord_txns [OF assms(1)] by (simp_all add: assms(2,3) distinct_map_filter)
  show "p' = p" if "p \<in> set (db_producers pdb')" "p' \<in> set (db_producers pdb')" "pr_transactional_id p \<noteq> None"
      "pr_transactional_id p' = pr_transactional_id p" for p p'
    using that coord_ids [OF assms(1)] by (simp add: assms(2))
qed (use coord_seq_producer [OF assms(1)] coord_seq_txn [OF assms(1)] coord_agrees [OF assms(1)] in \<open>auto simp: assms(2-4)\<close>)

lemma coord_same:
  "coord_inv pdb \<Longrightarrow> db_producers pdb' = db_producers pdb \<Longrightarrow> db_txns pdb' = db_txns pdb \<Longrightarrow>
     db_producer_id_seq pdb' = db_producer_id_seq pdb \<Longrightarrow> coord_inv pdb'"
  by (simp add: coord_inv_def)

subsection \<open>Rows by key\<close>

lemma producer_of_iff:
  assumes "coord_inv (lg_producer db)"
  shows "producer_of pid db = Some p \<longleftrightarrow> p \<in> set (db_producers (lg_producer db)) \<and> pr_producer_id p = pid"
proof
  assume "producer_of pid db = Some p"
  then show "p \<in> set (db_producers (lg_producer db)) \<and> pr_producer_id p = pid"
    by (auto simp: producer_of_def find_Some_iff)
next
  assume "p \<in> set (db_producers (lg_producer db)) \<and> pr_producer_id p = pid"
  then show "producer_of pid db = Some p" unfolding producer_of_def
    using coord_producers [OF assms] by (intro find_at_unique [where key = pr_producer_id]) auto
qed

lemma coord_txn_of_iff:
  assumes "coord_inv (lg_producer db)"
  shows "txn_of pid db = Some t \<longleftrightarrow> t \<in> set (db_txns (lg_producer db)) \<and> tx_producer_id t = pid"
proof
  assume "txn_of pid db = Some t"
  then show "t \<in> set (db_txns (lg_producer db)) \<and> tx_producer_id t = pid" by (auto simp: txn_of_def find_Some_iff)
next
  assume "t \<in> set (db_txns (lg_producer db)) \<and> tx_producer_id t = pid"
  then show "txn_of pid db = Some t" unfolding txn_of_def
    using coord_txns [OF assms] by (intro find_at_unique [where key = tx_producer_id]) auto
qed

lemma verdict_admits:
  "verdict txn_id pid epoch db = Inr ad \<longleftrightarrow> txn_id \<noteq> [] \<and> ad = \<lparr>ad_producer_id = pid, ad_epoch = epoch\<rparr>
     \<and> (\<exists>p. producer_of pid db = Some p \<and> pr_transactional_id p = Some txn_id \<and> pr_producer_epoch p = epoch)"
  by (auto simp: verdict_def judge_def admission_def Let_def split: option.splits)

subsection \<open>Statements\<close>

lemma upsert_coord:
  assumes inv: "coord_inv (lg_producer db)"
    and new: "p \<in> set (db_producers (lg_producer db))" "pr_producer_id p = tx_producer_id new"
      "pr_transactional_id p = Some (tx_transactional_id new)" "tx_state new = TxnOngoing \<longrightarrow> pr_producer_epoch p = tx_producer_epoch new"
    and f: "\<And>t. tx_producer_id (f t) = tx_producer_id t \<and> tx_transactional_id (f t) = tx_transactional_id t"
      "\<And>t. agrees p t \<Longrightarrow> tx_state (f t) = TxnOngoing \<Longrightarrow> tx_producer_epoch (f t) = pr_producer_epoch p"
  shows "coord_inv (lg_producer (upsert_txn new f db))"
proof (cases "\<exists>t \<in> set (db_txns (lg_producer db)). tx_producer_id t = tx_producer_id new")
  case True
  have only: "q = p" if "q \<in> set (db_producers (lg_producer db))" "pr_producer_id q = tx_producer_id new" for q
    using coord_producers [OF inv] that new(1,2) by (auto simp: distinct_map inj_on_def)
  show ?thesis
  proof (rule coord_update [OF inv, where f = id and g = "\<lambda>t. if tx_producer_id t = tx_producer_id new then f t else t"])
    fix q t assume "q \<in> set (db_producers (lg_producer db))" "t \<in> set (db_txns (lg_producer db))"
      "pr_producer_id q = tx_producer_id t" "agrees q t" and
      "tx_state (if tx_producer_id t = tx_producer_id new then f t else t) = TxnOngoing"
    then show "pr_producer_epoch (id q) = tx_producer_epoch (if tx_producer_id t = tx_producer_id new then f t else t)"
      using only [of q] f(2) [of t] by (auto simp: agrees_def)
  qed (use True f in \<open>simp_all add: upsert_txn_def update_txn_def\<close>)
next
  case False
  have db': "db_txns (lg_producer (upsert_txn new f db)) = db_txns (lg_producer db) @ [new]"
      "db_producers (lg_producer (upsert_txn new f db)) = db_producers (lg_producer db)"
      "db_producer_id_seq (lg_producer (upsert_txn new f db)) = db_producer_id_seq (lg_producer db)"
    using False by (auto simp: upsert_txn_def)
  have only: "q = p" if "q \<in> set (db_producers (lg_producer db))" "pr_producer_id q = tx_producer_id new" for q
    using coord_producers [OF inv] that new(1,2) by (auto simp: distinct_map inj_on_def)
  show ?thesis
  proof (rule coord_invI)
    show "distinct (map tx_producer_id (db_txns (lg_producer (upsert_txn new f db))))"
      using coord_txns [OF inv] False by (auto simp: db' image_iff)
    show "agrees q t" if "t \<in> set (db_txns (lg_producer (upsert_txn new f db)))"
        "q \<in> set (db_producers (lg_producer (upsert_txn new f db)))" "pr_producer_id q = tx_producer_id t" for t q
      using that coord_agrees [OF inv, of t q] only [of q] new(3,4) by (auto simp: db' agrees_def)
    show "sint (tx_producer_id t) < sint (db_producer_id_seq (lg_producer (upsert_txn new f db)))"
      if "t \<in> set (db_txns (lg_producer (upsert_txn new f db)))" for t
      using that coord_seq_txn [OF inv, of t] coord_seq_producer [OF inv new(1)] new(2) by (auto simp: db')
  qed (use coord_producers [OF inv] coord_ids [OF inv] coord_seq_producer [OF inv] in \<open>simp_all add: db'\<close>)
qed

end
