(* ===== verification/Txn_Steps.thy ===== *)
theory Txn_Steps
  imports Txn_Invariant Coord_Invariant Record_Properties
begin

text \<open>
  The handlers of the transaction coordinator and the produce path keep the invariants of the log, of
  the epoch history and of the transactions: \<open>broker_inv\<close>.
\<close>

declare if_image_distrib [simp del]

definition broker_inv :: "int \<Rightarrow> (bytes \<Rightarrow> u32) \<Rightarrow> codec_env \<Rightarrow> log_db \<Rightarrow> bool" where
  "broker_inv seg_size crc env db \<longleftrightarrow> log_inv seg_size crc db \<and> epoch_inv db \<and> txn_inv env db"

lemma broker_invD:
  assumes "broker_inv seg_size crc env db"
  shows broker_log: "log_inv seg_size crc db" and broker_epoch: "epoch_inv db" and broker_txn: "txn_inv env db"
  using assms by (simp_all add: broker_inv_def)

lemma broker_inv_frame:
  assumes inv: "broker_inv seg_size crc env db"
    and same: "lg_log db' = lg_log db" "lg_partitions db' = lg_partitions db" "lg_segments db' = lg_segments db"
      "lg_epochs db' = lg_epochs db" "lg_aborted db' = lg_aborted db" "set (lg_topics db) \<subseteq> set (lg_topics db')"
    and keys: "distinct (map tp_key (lg_txn_partitions db'))"
    and old: "\<And>q. q \<in> set (lg_txn_partitions db') \<Longrightarrow> 0 \<le> tp_first_offset q \<Longrightarrow> q \<in> set (lg_txn_partitions db)"
    and kept: "\<And>q r. q \<in> set (lg_txn_partitions db) \<Longrightarrow> has_open_txn (lg_producer db) (tp_producer_id q) \<Longrightarrow>
        r \<in> set (lg_log db) \<Longrightarrow> holds q r \<Longrightarrow>
        q \<in> set (lg_txn_partitions db') \<and> has_open_txn (lg_producer db') (tp_producer_id q)"
    and txns: "distinct (map tx_producer_id (txns_of db'))"
  shows "broker_inv seg_size crc env db'"
  unfolding broker_inv_def
proof (intro conjI)
  show "log_inv seg_size crc db'" by (rule log_inv_cong [OF broker_log [OF inv]]) (simp_all add: same)
  show "epoch_inv db'" by (rule epoch_inv_cong [OF broker_epoch [OF inv]]) (simp_all add: same)
  show "txn_inv env db'"
    using keys old kept txns by (intro txn_inv_frame [OF broker_txn [OF inv]]) (simp_all add: same)
qed

subsection \<open>Changes to the transaction rows\<close>

lemma open_iff: "has_open_txn (lg_producer db) pid \<longleftrightarrow> (\<exists>t \<in> set (txns_of db). tx_producer_id t = pid \<and> tx_state t = TxnOngoing)"
  by (simp add: has_open_txn_def txns_of_def)

lemma open_map_txns:
  "has_open_txn (pdb\<lparr>db_txns := map g (db_txns pdb)\<rparr>) pid \<longleftrightarrow>
     (\<exists>t \<in> set (db_txns pdb). tx_producer_id (g t) = pid \<and> tx_state (g t) = TxnOngoing)"
  by (simp add: has_open_txn_def)

lemma txn_of_iff:
  assumes "distinct (map tx_producer_id (txns_of db))"
  shows "txn_of pid db = Some t \<longleftrightarrow> t \<in> set (txns_of db) \<and> tx_producer_id t = pid"
proof
  assume "txn_of pid db = Some t"
  then show "t \<in> set (txns_of db) \<and> tx_producer_id t = pid"
    by (auto simp: txn_of_def txns_of_def find_Some_iff)
next
  assume "t \<in> set (txns_of db) \<and> tx_producer_id t = pid"
  then show "txn_of pid db = Some t" unfolding txn_of_def txns_of_def [symmetric]
    using assms by (intro find_at_unique [where key = tx_producer_id]) auto
qed

lemma txn_of_None: "txn_of pid db = None \<longleftrightarrow> (\<forall>t \<in> set (txns_of db). tx_producer_id t \<noteq> pid)"
  by (auto simp: txn_of_def txns_of_def find_None_iff)

lemma open_txn_of:
  assumes "distinct (map tx_producer_id (txns_of db))"
  shows "has_open_txn (lg_producer db) pid \<longleftrightarrow> (\<exists>t. txn_of pid db = Some t \<and> tx_state t = TxnOngoing)"
  unfolding open_iff using txn_of_iff [OF assms] by blast

lemma update_txn_fields [simp]:
  "lg_log (update_txn pid f db) = lg_log db" "lg_partitions (update_txn pid f db) = lg_partitions db"
  "lg_segments (update_txn pid f db) = lg_segments db" "lg_epochs (update_txn pid f db) = lg_epochs db"
  "lg_aborted (update_txn pid f db) = lg_aborted db" "lg_topics (update_txn pid f db) = lg_topics db"
  "lg_txn_partitions (update_txn pid f db) = lg_txn_partitions db"
  "lg_txn_offsets (update_txn pid f db) = lg_txn_offsets db" "lg_offsets (update_txn pid f db) = lg_offsets db"
  "txns_of (update_txn pid f db) = map (\<lambda>t. if tx_producer_id t = pid then f t else t) (txns_of db)"
  "db_producers (lg_producer (update_txn pid f db)) = db_producers (lg_producer db)"
  by (simp_all add: update_txn_def txns_of_def)

lemma update_producers_fields [simp]:
  "lg_log (update_producers f db) = lg_log db" "lg_partitions (update_producers f db) = lg_partitions db"
  "lg_segments (update_producers f db) = lg_segments db" "lg_epochs (update_producers f db) = lg_epochs db"
  "lg_aborted (update_producers f db) = lg_aborted db" "lg_topics (update_producers f db) = lg_topics db"
  "lg_txn_partitions (update_producers f db) = lg_txn_partitions db"
  "lg_txn_offsets (update_producers f db) = lg_txn_offsets db" "lg_offsets (update_producers f db) = lg_offsets db"
  "txns_of (update_producers f db) = txns_of db"
  by (simp_all add: update_producers_def txns_of_def)

lemma upsert_txn_fields [simp]:
  "lg_log (upsert_txn new f db) = lg_log db" "lg_partitions (upsert_txn new f db) = lg_partitions db"
  "lg_segments (upsert_txn new f db) = lg_segments db" "lg_epochs (upsert_txn new f db) = lg_epochs db"
  "lg_aborted (upsert_txn new f db) = lg_aborted db" "lg_topics (upsert_txn new f db) = lg_topics db"
  "lg_txn_partitions (upsert_txn new f db) = lg_txn_partitions db"
  "lg_txn_offsets (upsert_txn new f db) = lg_txn_offsets db" "lg_offsets (upsert_txn new f db) = lg_offsets db"
  "db_producers (lg_producer (upsert_txn new f db)) = db_producers (lg_producer db)"
  by (simp_all add: upsert_txn_def)

lemma txns_upsert:
  "txns_of (upsert_txn new f db) =
     (if \<exists>t \<in> set (txns_of db). tx_producer_id t = tx_producer_id new
      then map (\<lambda>t. if tx_producer_id t = tx_producer_id new then f t else t) (txns_of db) else txns_of db @ [new])"
  unfolding upsert_txn_def by (simp add: txns_of_def [symmetric]) (simp add: txns_of_def)

lemma distinct_update:
  "(\<And>t. tx_producer_id (f t) = tx_producer_id t) \<Longrightarrow>
     map tx_producer_id (map (\<lambda>t. if P t then f t else t) ts) = map tx_producer_id ts"
  by simp

lemma upsert_distinct:
  assumes "\<And>t. tx_producer_id (f t) = tx_producer_id t" and "distinct (map tx_producer_id (txns_of db))"
  shows "distinct (map tx_producer_id (txns_of (upsert_txn new f db)))"
proof (cases "\<exists>t \<in> set (txns_of db). tx_producer_id t = tx_producer_id new")
  case True
  then show ?thesis using assms(2) by (simp only: txns_upsert if_True distinct_update [OF assms(1)])
next
  case False
  then have "tx_producer_id new \<notin> set (map tx_producer_id (txns_of db))" by (metis imageE list.set_map)
  then show ?thesis using False assms(2) by (simp add: txns_upsert)
qed

subsection \<open>Markers\<close>

lemma stamp_batch_wire:
  "stamped_bytes (stamp (ValidatedBatch (RecordBatch (batch_wire crc bo le attrs ld bt mt pid pe bs cnt body))) off ep)
     = batch_wire crc off ep attrs ld bt mt pid pe bs cnt body"
  unfolding stamp_bytes batch_wire_def Let_def by (simp add: patch_skip patch_hit)

lemma stamped_marker:
  "iterate_records env (records (RecordBatch (stamped_bytes
     (stamp (ValidatedBatch (RecordBatch (build_control_batch crc pid epoch committed))) off ep)))) = Inr [control_record committed]"
  unfolding build_control_batch_wire stamp_batch_wire
  by (rule batch_wire_iterate(1)) (simp_all add: control_record_length AND_flag_simps)

lemma control_record_differs: "control_record True \<noteq> control_record False"
  by (simp add: control_record_def)

definition marker_batch :: "(bytes \<Rightarrow> u32) \<Rightarrow> i64 \<Rightarrow> i16 \<Rightarrow> bool \<Rightarrow> raw_batch" where
  "marker_batch crc pid epoch committed =
     (let bytes = build_control_batch crc pid epoch committed; view = RecordBatch bytes in
      \<lparr>rb_bytes = bytes, rb_record_count = record_count view, rb_last_offset_delta = last_offset_delta view,
       rb_max_timestamp = max_timestamp view, rb_producer_id = pid, rb_producer_epoch = epoch, rb_base_sequence = - 1,
       rb_is_transactional = True, rb_is_control = True\<rparr>)"

lemma marker_valid:
  "validated crc (build_control_batch crc pid epoch committed)
     = Inr (ValidatedBatch (RecordBatch (build_control_batch crc pid epoch committed)))"
  unfolding build_control_batch_wire by (rule batch_wire_validated) (simp_all add: control_record_length)

lemma marker_new:
  "record_batch_new (build_control_batch crc pid epoch committed) = Inr (RecordBatch (build_control_batch crc pid epoch committed))"
  using marker_valid [of crc pid epoch committed] by (auto simp: validated_def rbind_eq_Inr)

lemma marker_appendable: "appendable crc (marker_batch crc pid epoch committed)"
  by (simp add: appendable_def marker_batch_def Let_def marker_valid)

lemma aborts_marker:
  "aborts env (appended_row now topic part (marker_batch crc pid epoch committed) p) \<longleftrightarrow> \<not> committed"
  using control_record_differs
  by (cases committed) (simp_all add: aborts_def appended_row_def marker_batch_def Let_def stamped_marker)

lemma append_marker_eq:
  "append_marker seg_size crc now pid epoch topic part first_offset committed db =
     (case append seg_size crc now topic part (marker_batch crc pid epoch committed) db of
        Inl StoreIo \<Rightarrow> Inl Raised
      | Inl _ \<Rightarrow> Inl TxnInternal
      | Inr (off, db) \<Rightarrow> Inr (if \<not> committed \<and> first_offset \<ge> 0
           then record_aborted_txn topic part pid first_offset off db else db))"
  by (simp add: append_marker_def marker_new marker_batch_def Let_def)

text \<open>Closing the partitions one by one: the table of transaction partitions is not read by the appends, so
  its rows may be thought to leave it as their markers land.\<close>

definition with_tps :: "txn_partition_row list \<Rightarrow> log_db \<Rightarrow> log_db" where
  "with_tps qs db = db\<lparr>lg_txn_partitions := qs\<rparr>"

lemma with_tps_fields [simp]:
  "lg_log (with_tps qs db) = lg_log db" "lg_partitions (with_tps qs db) = lg_partitions db"
  "lg_segments (with_tps qs db) = lg_segments db" "lg_epochs (with_tps qs db) = lg_epochs db"
  "lg_aborted (with_tps qs db) = lg_aborted db" "lg_topics (with_tps qs db) = lg_topics db"
  "lg_producer (with_tps qs db) = lg_producer db" "lg_txn_partitions (with_tps qs db) = qs"
  "lg_txn_offsets (with_tps qs db) = lg_txn_offsets db" "lg_offsets (with_tps qs db) = lg_offsets db"
  by (simp_all add: with_tps_def)

lemma with_tps_with [simp]: "with_tps qs (with_tps qs' db) = with_tps qs db"
  by (simp add: with_tps_def)

lemma with_tps_self [simp]: "with_tps (lg_txn_partitions db) db = db"
  by (simp add: with_tps_def)

lemma append_with_tps:
  "append seg_size crc now topic part batch (with_tps qs db) =
     map_sum id (map_prod id (with_tps qs)) (append seg_size crc now topic part batch db)"
proof -
  have e: "ensure_segment seg_size topic part off (with_tps qs d) = with_tps qs (ensure_segment seg_size topic part off d)" for off d
    by (simp add: ensure_segment_def Let_def with_tps_def)
  have fp: "find_partition topic part (with_tps qs db) = find_partition topic part db"
    by (simp add: find_partition_def)
  have re: "row_exists topic part base (with_tps qs d) = row_exists topic part base d" for base d
    by (simp add: row_exists_def)
  show ?thesis
    unfolding append_def fp Let_def e
    by (cases "find_partition topic part db"; cases "validated crc (rb_bytes batch)")
      (simp_all add: e re, simp add: with_tps_def update_segment_def update_partition_def)
qed

lemma append_marker_with_tps:
  "append_marker seg_size crc now pid epoch topic part off committed (with_tps qs db) =
     map_sum id (with_tps qs) (append_marker seg_size crc now pid epoch topic part off committed db)"
proof -
  have r: "record_aborted_txn topic part pid off m (with_tps qs d) = with_tps qs (record_aborted_txn topic part pid off m d)" for m d
    by (simp add: record_aborted_txn_def with_tps_def Let_def)
  show ?thesis
    unfolding append_marker_eq append_with_tps
    by (auto simp: r split: sum.splits store_error.splits prod.splits)
qed

lemma record_aborted_set:
  assumes "\<And>a. a \<in> set (lg_aborted db) \<Longrightarrow> ab_at topic part a \<Longrightarrow> ab_first_offset a \<noteq> first_off"
  shows "record_aborted_txn topic part pid first_off last_off db =
     db\<lparr>lg_aborted := lg_aborted db @ [\<lparr>ab_topic = topic, ab_partition = part, ab_producer_id = pid,
                ab_first_offset = first_off, ab_last_offset = last_off\<rparr>]\<rparr>"
  using assms by (auto simp: record_aborted_txn_def)

lemma append_marker_inv:
  assumes inv: "broker_inv seg_size crc env db" and sz: "0 < seg_size"
    and q: "q \<in> set (lg_txn_partitions db)"
    and ok: "append_marker seg_size crc now (tp_producer_id q) epoch (tp_topic q) (tp_partition q) (tp_first_offset q) committed db = Inr db'"
  shows "broker_inv seg_size crc env (with_tps (filter (\<lambda>x. x \<noteq> q) (lg_txn_partitions db)) db')"
    and "lg_txn_partitions db' = lg_txn_partitions db" and "lg_producer db' = lg_producer db"
    and "lg_topics db' = lg_topics db" and "lg_txn_offsets db' = lg_txn_offsets db" and "lg_offsets db' = lg_offsets db"
    and "\<And>t. t \<in> set (lg_partitions db') \<Longrightarrow> \<exists>u \<in> set (lg_partitions db). pt_topic u = pt_topic t"
proof -
  let ?t = "tp_topic q" and ?k = "tp_partition q"
  let ?b = "marker_batch crc (tp_producer_id q) epoch committed"
  note linv = broker_log [OF inv] and tinv = broker_txn [OF inv]
  obtain off d where a: "append seg_size crc now ?t ?k ?b db = Inr (off, d)"
    using ok unfolding append_marker_eq by (auto split: sum.splits store_error.splits prod.splits)
  obtain p where p: "find_partition ?t ?k db = Inr p" "off = pt_next_offset p"
      "d = append_effect seg_size ?t ?k (appended_row now ?t ?k ?b p) db"
    using a by (rule append_cases [OF linv])
  let ?r = "appended_row now ?t ?k ?b p"
  have pin: "p \<in> set (lg_partitions db)" using p(1) by (simp add: find_partition_iff [OF log_inv_partitions [OF linv]])
  have span: "lr_base ?r \<le> lr_last ?r" using appendable_delta [OF marker_appendable] by simp
  have fresh: "fresh_row db ?r" and ext: "extends db ?r (append_effect seg_size ?t ?k ?r db)"
    by (rule append_fresh [OF linv p(1)]; use span in simp)+
  have dinv: "log_inv seg_size crc d" unfolding p(3) by (rule append_spec(2) [OF linv sz p(1) marker_appendable])
  have einv: "epoch_inv d" unfolding p(3)
    by (rule append_epoch_inv [OF linv broker_epoch [OF inv] p(1)]) (use span in \<open>simp_all add: lr_at_def\<close>)
  let ?new = "\<lparr>ab_topic = ?t, ab_partition = ?k, ab_producer_id = tp_producer_id q,
               ab_first_offset = tp_first_offset q, ab_last_offset = off\<rparr>"
  have db': "db' = (if \<not> committed \<and> 0 \<le> tp_first_offset q then d\<lparr>lg_aborted := lg_aborted d @ [?new]\<rparr> else d)"
  proof (cases "\<not> committed \<and> 0 \<le> tp_first_offset q")
    case True
    have "ab_first_offset x \<noteq> tp_first_offset q" if "x \<in> set (lg_aborted d)" "ab_at ?t ?k x" for x
      using tp_ok_clear [OF txn_inv_tp [OF tinv q], of x] True that by (simp add: tp_clear_def p(3))
    then have "record_aborted_txn ?t ?k (tp_producer_id q) (tp_first_offset q) off d = d\<lparr>lg_aborted := lg_aborted d @ [?new]\<rparr>"
      by (rule record_aborted_set)
    then show ?thesis using ok a True unfolding append_marker_eq by simp
  next
    case False
    then show ?thesis using ok a unfolding append_marker_eq by auto
  qed
  let ?db = "with_tps (filter (\<lambda>x. x \<noteq> q) (lg_txn_partitions db)) db'"
  show "broker_inv seg_size crc env ?db"
    unfolding broker_inv_def
  proof (intro conjI)
    show "log_inv seg_size crc ?db" by (rule log_inv_cong [OF dinv]) (simp_all add: db')
    show "epoch_inv ?db" by (rule epoch_inv_cong [OF einv]) (simp_all add: db')
    show "txn_inv env ?db"
    proof (rule append_marker_row_inv [OF tinv fresh])
      show "extends db ?r ?db" using ext by (simp add: extends_def db' p(3))
      show "aborts env ?r \<longleftrightarrow> \<not> committed" by (rule aborts_marker)
      show "lr_is_control ?r" "Some (tp_producer_id q) = lr_producer_id ?r" by (simp_all add: marker_batch_def Let_def)
      show "q \<in> set (lg_txn_partitions db)" by (rule q)
      show "tp_at (lr_topic ?r) (lr_partition ?r) q" by (simp add: tp_at_def)
    qed (simp_all add: db' p(2,3))
  qed
  show "lg_txn_partitions db' = lg_txn_partitions db" "lg_producer db' = lg_producer db" "lg_topics db' = lg_topics db"
    "lg_txn_offsets db' = lg_txn_offsets db" "lg_offsets db' = lg_offsets db"
    by (simp_all add: db' p(3))
  show "\<exists>u \<in> set (lg_partitions db). pt_topic u = pt_topic t" if "t \<in> set (lg_partitions db')" for t
    using that by (auto simp: db' p(3) split: if_splits)
qed

lemma append_markers_inv:
  assumes "broker_inv seg_size crc env (with_tps qs db)" and "0 < seg_size"
    and "append_markers seg_size crc now pid epoch committed rs db = Inr db'"
    and "\<forall>r \<in> set rs. r \<in> set qs \<and> tp_producer_id r = pid" and "distinct rs"
  shows "broker_inv seg_size crc env (with_tps (filter (\<lambda>x. x \<notin> set rs) qs) db')
    \<and> lg_txn_partitions db' = lg_txn_partitions db \<and> lg_producer db' = lg_producer db \<and> lg_topics db' = lg_topics db
    \<and> lg_txn_offsets db' = lg_txn_offsets db \<and> lg_offsets db' = lg_offsets db"
  using assms(1,3-)
proof (induction rs arbitrary: qs db)
  case Nil
  then show ?case by simp
next
  case (Cons r rs)
  obtain d where d: "append_marker seg_size crc now pid epoch (tp_topic r) (tp_partition r) (tp_first_offset r) committed db = Inr d"
      "append_markers seg_size crc now pid epoch committed rs d = Inr db'"
    using Cons.prems(2) by (auto simp: rbind_eq_Inr)
  have r: "tp_producer_id r = pid" "r \<in> set qs" using Cons.prems(3) by simp_all
  have "append_marker seg_size crc now (tp_producer_id r) epoch (tp_topic r) (tp_partition r) (tp_first_offset r) committed
      (with_tps qs db) = Inr (with_tps qs d)"
    using d(1) by (simp add: append_marker_with_tps r(1))
  note m = append_marker_inv [OF Cons.prems(1) assms(2) _ this]
  have b: "broker_inv seg_size crc env (with_tps (filter (\<lambda>x. x \<noteq> r) qs) d)" using m(1) r(2) by simp
  have f: "lg_producer d = lg_producer db" "lg_topics d = lg_topics db"
      "lg_txn_offsets d = lg_txn_offsets db" "lg_offsets d = lg_offsets db"
    using m(3-6) r(2) by simp_all
  have "lg_txn_partitions d = lg_txn_partitions db"
  proof -
    have "append_marker seg_size crc now pid epoch (tp_topic r) (tp_partition r) (tp_first_offset r) committed
        (with_tps (lg_txn_partitions db) db) = Inr (with_tps (lg_txn_partitions db) d)"
      using d(1) unfolding append_marker_with_tps by simp
    then have "d = with_tps (lg_txn_partitions db) d" using d(1) by simp
    then show ?thesis by (metis with_tps_fields(8))
  qed
  moreover have "filter (\<lambda>x. x \<notin> set rs) (filter (\<lambda>x. x \<noteq> r) qs) = filter (\<lambda>x. x \<notin> set (r # rs)) qs"
    unfolding filter_filter by (rule filter_cong) auto
  moreover have "\<forall>x \<in> set rs. x \<in> set (filter (\<lambda>x. x \<noteq> r) qs) \<and> tp_producer_id x = pid"
    using Cons.prems(3,4) by auto
  ultimately show ?case using Cons.IH [OF b d(2)] Cons.prems(4) f by simp
qed

subsection \<open>Ending a transaction\<close>

lemma fence_inv:
  assumes "broker_inv seg_size crc env db" and "fence pid db = Inr (n, db')"
  shows "broker_inv seg_size crc env db'"
proof -
  have "db' = db \<or> (\<exists>f. db' = update_producers f db)"
    using assms(2) by (auto simp: fence_def split: option.splits if_splits)
  then show ?thesis
  proof
    assume "\<exists>f. db' = update_producers f db"
    then obtain f where f: "db' = update_producers f db" by blast
    show ?thesis unfolding f
      by (rule broker_inv_frame [OF assms(1)])
        (simp_all add: txn_inv_keys [OF broker_txn [OF assms(1)]] txn_inv_txns [OF broker_txn [OF assms(1)]] open_iff)
  qed (use assms(1) in simp)
qed

lemma settle_offsets_fields [simp]:
  "lg_log (settle_offsets now pid c db) = lg_log db" "lg_partitions (settle_offsets now pid c db) = lg_partitions db"
  "lg_segments (settle_offsets now pid c db) = lg_segments db" "lg_epochs (settle_offsets now pid c db) = lg_epochs db"
  "lg_aborted (settle_offsets now pid c db) = lg_aborted db" "lg_topics (settle_offsets now pid c db) = lg_topics db"
  "lg_txn_partitions (settle_offsets now pid c db) = lg_txn_partitions db"
  "lg_producer (settle_offsets now pid c db) = lg_producer db"
  "lg_txn_offsets (settle_offsets now pid c db) = filter (\<lambda>s. to_producer_id s \<noteq> pid) (lg_txn_offsets db)"
  "txns_of (settle_offsets now pid c db) = txns_of db"
  by (simp_all add: settle_offsets_def Let_def txns_of_def)

lemma row_topic:
  assumes "log_inv seg_size crc db" and "topics_ok db" and "r \<in> set (lg_log db)"
  shows "\<exists>t \<in> set (lg_topics db). tr_topic_id t = lr_topic r"
proof -
  obtain p where "p \<in> set (lg_partitions db)" "pt_topic p = lr_topic r"
    using log_inv_row [OF assms(1,3)] by (auto simp: row_ok_def pt_at_def)
  then show ?thesis using assms(2) unfolding topics_ok_def by metis
qed

text \<open>The state once the markers are down: \<open>ended\<close> without the producer's rows and with its transaction closed.\<close>

lemma close_txn_inv:
  assumes inv: "broker_inv seg_size crc env (with_tps qs db)"
    and qs: "\<And>q. q \<in> set qs \<Longrightarrow> tp_producer_id q = pid \<Longrightarrow> \<forall>t \<in> set (lg_topics db). tr_topic_id t \<noteq> tp_topic q"
    and sub: "\<And>q. q \<in> set qs' \<longleftrightarrow> q \<in> set qs \<and> tp_producer_id q \<noteq> pid" and keys: "distinct (map tp_key qs')"
  shows "broker_inv seg_size crc env (settle_txn pid c (with_tps qs' (settle_offsets now pid c db)))" (is "broker_inv _ _ _ ?db")
proof (rule broker_inv_frame [OF inv])
  show "distinct (map tp_key (lg_txn_partitions ?db))" using keys by (simp add: settle_txn_def)
  show "q \<in> set (lg_txn_partitions (with_tps qs db))" if "q \<in> set (lg_txn_partitions ?db)" for q
    using that sub by (simp add: settle_txn_def)
  have tx: "txns_of (with_tps qs db) = txns_of db" "txns_of (with_tps qs' (settle_offsets now pid c db)) = txns_of db"
    by (simp_all add: txns_of_def)
  show "distinct (map tx_producer_id (txns_of ?db))"
    using txn_inv_txns [OF broker_txn [OF inv]] by (simp add: settle_txn_def tx distinct_update del: map_map)
  fix q r assume q: "q \<in> set (lg_txn_partitions (with_tps qs db))" "has_open_txn (lg_producer (with_tps qs db)) (tp_producer_id q)"
      "r \<in> set (lg_log (with_tps qs db))" "holds q r"
  have "\<exists>t \<in> set (lg_topics (with_tps qs db)). tr_topic_id t = lr_topic r"
    by (rule row_topic [OF broker_log [OF inv] txn_inv_topics [OF broker_txn [OF inv]] q(3)])
  then have pid: "tp_producer_id q \<noteq> pid" using qs [of q] q(1,4) by (auto simp: holds_def tp_at_def)
  moreover have "has_open_txn (lg_producer ?db) (tp_producer_id q)"
    using q(2) pid unfolding open_iff tx by (force simp: settle_txn_def tx)
  ultimately show "q \<in> set (lg_txn_partitions ?db) \<and> has_open_txn (lg_producer ?db) (tp_producer_id q)"
    using q(1) sub by (simp add: settle_txn_def)
qed (simp_all add: settle_txn_def)

lemma marked_partitions_set:
  "set (marked_partitions pid db) = {r \<in> set (lg_txn_partitions db). tp_producer_id r = pid
     \<and> (\<exists>t \<in> set (lg_topics db). tr_topic_id t = tp_topic r)}"
  by (auto simp: marked_partitions_def)

definition ended_db :: "int \<Rightarrow> i64 \<Rightarrow> bool \<Rightarrow> log_db \<Rightarrow> log_db" where
  "ended_db now pid committed d =
     settle_txn pid committed (with_tps (filter (\<lambda>r. tp_producer_id r \<noteq> pid) (lg_txn_partitions d)) (settle_offsets now pid committed d))"

lemma ended_db_fields [simp]:
  "lg_log (ended_db now pid c d) = lg_log d" "lg_partitions (ended_db now pid c d) = lg_partitions d"
  "lg_segments (ended_db now pid c d) = lg_segments d" "lg_aborted (ended_db now pid c d) = lg_aborted d"
  "lg_topics (ended_db now pid c d) = lg_topics d"
  "lg_txn_partitions (ended_db now pid c d) = filter (\<lambda>r. tp_producer_id r \<noteq> pid) (lg_txn_partitions d)"
  "lg_txn_offsets (ended_db now pid c d) = filter (\<lambda>s. to_producer_id s \<noteq> pid) (lg_txn_offsets d)"
  "lg_offsets (ended_db now pid c d) = lg_offsets (settle_offsets now pid c d)"
  "lg_producer (ended_db now pid c d) = (lg_producer d)\<lparr>db_txns := map (\<lambda>t. if tx_producer_id t = pid
     then t\<lparr>tx_state := (if c then TxnCommitted else TxnAborted), tx_offsets_partitions := []\<rparr> else t) (db_txns (lg_producer d))\<rparr>"
  by (simp_all add: ended_db_def settle_txn_def update_txn_def)

lemma outranked_iff:
  "(case producer_of pid db of None \<Rightarrow> False | Some p \<Rightarrow> sint epoch < sint (pr_producer_epoch p))
     \<longleftrightarrow> (\<exists>p. producer_of pid db = Some p \<and> sint epoch < sint (pr_producer_epoch p))"
  by (simp split: option.split)

lemmas finish_transaction_eq = finish_transaction_def [unfolded outranked_iff]

lemma finish_open:
  assumes "txn_of pid db = Some t" and "\<not> (\<exists>p. producer_of pid db = Some p \<and> sint epoch < sint (pr_producer_epoch p))"
    and "tx_state t = TxnOngoing" and "c = (case tx_forced_result t of None \<Rightarrow> requested | Some f \<Rightarrow> f)"
  shows "finish_transaction seg_size crc now pid epoch requested db =
     rbind (append_markers seg_size crc now pid epoch c (marked_partitions pid db) db) (\<lambda>d.
       if c \<noteq> requested then rbind (fence pid (ended_db now pid c d)) (\<lambda>(_, db). Inr (Overridden, db))
       else Inr (Ended, ended_db now pid c d))"
proof -
  have "(case tx_forced_result t of None \<Rightarrow> False | Some f \<Rightarrow> f \<noteq> requested) = (c \<noteq> requested)"
    using assms(4) by (simp split: option.split)
  then show ?thesis
    using assms(1-3) unfolding finish_transaction_eq Let_def assms(4) [symmetric] ended_db_def with_tps_def
    by (simp only: option.case txn_state.case if_False settle_offsets_fields assms(4) [symmetric])
qed

text \<open>What \<open>finish_transaction\<close> does, by outcome.\<close>

lemma finish_cases:
  assumes "finish_transaction seg_size crc now pid epoch requested db = Inr (outcome, db')"
  obtains (not_ours) "outcome = NotOurs" and "db' = db"
      and "txn_of pid db = None \<or> (\<exists>p. producer_of pid db = Some p \<and> sint epoch < sint (pr_producer_epoch p))"
  | (not_open) t prev where "outcome = NotOpen prev" and "db' = db" and "txn_of pid db = Some t" and "tx_state t \<noteq> TxnOngoing"
      and "prev = (case tx_state t of TxnCommitted \<Rightarrow> Some True | TxnAborted \<Rightarrow> Some False | _ \<Rightarrow> None)"
  | (ended) t d committed where "txn_of pid db = Some t" and "tx_state t = TxnOngoing"
      and "committed = (case tx_forced_result t of None \<Rightarrow> requested | Some f \<Rightarrow> f)"
      and "append_markers seg_size crc now pid epoch committed (marked_partitions pid db) db = Inr d"
      and "outcome = Ended" and "committed = requested" and "db' = ended_db now pid committed d"
  | (overridden) t d committed n where "txn_of pid db = Some t" and "tx_state t = TxnOngoing"
      and "committed = (case tx_forced_result t of None \<Rightarrow> requested | Some f \<Rightarrow> f)"
      and "append_markers seg_size crc now pid epoch committed (marked_partitions pid db) db = Inr d"
      and "outcome = Overridden" and "committed \<noteq> requested" and "fence pid (ended_db now pid committed d) = Inr (n, db')"
proof (cases "txn_of pid db")
  case None
  then have "outcome = NotOurs" "db' = db" using assms by (simp_all add: finish_transaction_eq)
  then show ?thesis using not_ours None by blast
next
  case (Some t)
  note found = Some
  show ?thesis
  proof (cases "\<exists>p. producer_of pid db = Some p \<and> sint epoch < sint (pr_producer_epoch p)")
    case True
    then have "outcome = NotOurs" "db' = db" using assms found by (simp_all add: finish_transaction_eq)
    then show ?thesis using not_ours True by blast
  next
    case False
    show ?thesis
    proof (cases "tx_state t = TxnOngoing")
      case True
      let ?c = "case tx_forced_result t of None \<Rightarrow> requested | Some f \<Rightarrow> f"
      obtain d where d: "append_markers seg_size crc now pid epoch ?c (marked_partitions pid db) db = Inr d"
          "(if ?c \<noteq> requested then rbind (fence pid (ended_db now pid ?c d)) (\<lambda>(_, db). Inr (Overridden, db))
            else Inr (Ended, ended_db now pid ?c d)) = Inr (outcome, db')"
        using assms unfolding finish_open [OF found False True refl] rbind_eq_Inr by blast
      show ?thesis
      proof (cases "?c = requested")
        case True
        then show ?thesis using ended [OF found \<open>tx_state t = TxnOngoing\<close> refl d(1)] d(2) by simp
      next
        case False
        then obtain n where "fence pid (ended_db now pid ?c d) = Inr (n, db')" "outcome = Overridden"
          using d(2) by (auto simp: rbind_eq_Inr)
        then show ?thesis using overridden [OF found \<open>tx_state t = TxnOngoing\<close> refl d(1)] False by blast
      qed
    next
      case closed: False
      then have "outcome = NotOpen (case tx_state t of TxnCommitted \<Rightarrow> Some True | TxnAborted \<Rightarrow> Some False | _ \<Rightarrow> None)" "db' = db"
        using assms found False by (simp_all add: finish_transaction_eq split: txn_state.splits)
      then show ?thesis using not_open found closed by blast
    qed
  qed
qed

lemma ended_inv:
  assumes inv: "broker_inv seg_size crc env db" and sz: "0 < seg_size"
    and d: "append_markers seg_size crc now pid epoch committed (marked_partitions pid db) db = Inr d"
  shows "broker_inv seg_size crc env (ended_db now pid committed d)" and "lg_producer d = lg_producer db"
    and "lg_txn_partitions d = lg_txn_partitions db" and "lg_topics d = lg_topics db"
    and "lg_txn_offsets d = lg_txn_offsets db" and "lg_offsets d = lg_offsets db"
proof -
  have dist: "distinct (marked_partitions pid db)"
    using txn_inv_keys [OF broker_txn [OF inv]] by (simp add: marked_partitions_def distinct_map)
  have "broker_inv seg_size crc env (with_tps (lg_txn_partitions db) db)" using inv by simp
  note m = append_markers_inv [OF this sz d _ dist]
  have m: "broker_inv seg_size crc env (with_tps (filter (\<lambda>x. x \<notin> set (marked_partitions pid db)) (lg_txn_partitions db)) d)"
      "lg_txn_partitions d = lg_txn_partitions db" "lg_topics d = lg_topics db" "lg_producer d = lg_producer db"
      "lg_txn_offsets d = lg_txn_offsets db" "lg_offsets d = lg_offsets db"
    using m by (simp_all add: marked_partitions_set)
  show "broker_inv seg_size crc env (ended_db now pid committed d)"
    unfolding ended_db_def using txn_inv_keys [OF broker_txn [OF inv]]
    by (intro close_txn_inv [OF m(1)]) (auto simp: marked_partitions_set m(2,3) distinct_map_filter)
  show "lg_producer d = lg_producer db" "lg_txn_partitions d = lg_txn_partitions db" "lg_topics d = lg_topics db"
    "lg_txn_offsets d = lg_txn_offsets db" "lg_offsets d = lg_offsets db" by (rule m)+
qed

lemma finish_transaction_inv:
  assumes inv: "broker_inv seg_size crc env db" and sz: "0 < seg_size"
    and ok: "finish_transaction seg_size crc now pid epoch requested db = Inr (outcome, db')"
  shows "broker_inv seg_size crc env db'"
  using ok
proof (cases rule: finish_cases)
  case (ended t d committed)
  then show ?thesis using ended_inv(1) [OF inv sz ended(4)] by simp
next
  case (overridden t d committed n)
  then show ?thesis using fence_inv [OF ended_inv(1) [OF inv sz overridden(4)]] by blast
qed (use inv in simp_all)

lemma ended_closed: "\<not> has_open_txn (lg_producer (ended_db now pid c d)) pid"
  by (simp add: open_map_txns)

lemma ended_coord:
  assumes "coord_inv (lg_producer d)"
  shows "coord_inv (lg_producer (ended_db now pid c d))"
  by (rule coord_update [OF assms, where f = id and g = "\<lambda>t. if tx_producer_id t = pid
     then t\<lparr>tx_state := (if c then TxnCommitted else TxnAborted), tx_offsets_partitions := []\<rparr> else t"])
    (auto simp: agrees_def split: if_splits)

lemma fence_producers:
  assumes "fence pid db = Inr (n, db')"
  shows "db_txns (lg_producer db') = db_txns (lg_producer db)" "db_producer_id_seq (lg_producer db') = db_producer_id_seq (lg_producer db)"
    and "\<exists>f. db_producers (lg_producer db') = map f (db_producers (lg_producer db))
       \<and> (\<forall>p. pr_producer_id (f p) = pr_producer_id p \<and> pr_transactional_id (f p) = pr_transactional_id p
              \<and> (pr_producer_id p \<noteq> pid \<longrightarrow> f p = p))"
proof -
  let ?f = "\<lambda>r. if pr_producer_id r = pid then r\<lparr>pr_producer_epoch := pr_producer_epoch r + 1, pr_retired_producer_id := None,
                     pr_retired_epoch := None, pr_retired_committed := None\<rparr> else r"
  have c: "db' = db \<or> db' = update_producers ?f db" using assms by (auto simp: fence_def split: option.splits if_splits)
  then show "db_txns (lg_producer db') = db_txns (lg_producer db)" "db_producer_id_seq (lg_producer db') = db_producer_id_seq (lg_producer db)"
    by (auto simp: update_producers_def)
  from c show "\<exists>f. db_producers (lg_producer db') = map f (db_producers (lg_producer db))
       \<and> (\<forall>p. pr_producer_id (f p) = pr_producer_id p \<and> pr_transactional_id (f p) = pr_transactional_id p
              \<and> (pr_producer_id p \<noteq> pid \<longrightarrow> f p = p))"
  proof
    assume "db' = db"
    then show ?thesis by (intro exI [of _ id]) simp
  next
    assume "db' = update_producers ?f db"
    then show ?thesis by (intro exI [of _ ?f]) (simp add: update_producers_def)
  qed
qed

lemma fence_coord:
  assumes "coord_inv (lg_producer db)" and "fence pid db = Inr (n, db')" and "\<not> has_open_txn (lg_producer db) pid"
  shows "coord_inv (lg_producer db')"
proof -
  obtain f where f: "db_producers (lg_producer db') = map f (db_producers (lg_producer db))"
      "\<And>p. pr_producer_id (f p) = pr_producer_id p \<and> pr_transactional_id (f p) = pr_transactional_id p"
      "\<And>p. pr_producer_id p \<noteq> pid \<Longrightarrow> f p = p"
    using fence_producers(3) [OF assms(2)] by blast
  show ?thesis
  proof (rule coord_update [OF assms(1) f(1), where g = id])
    fix p t assume "t \<in> set (db_txns (lg_producer db))" "pr_producer_id p = tx_producer_id t" "agrees p t" "tx_state (id t) = TxnOngoing"
    then show "pr_producer_epoch (f p) = tx_producer_epoch (id t)"
      using assms(3) f(3) [of p] by (auto simp: has_open_txn_def agrees_def)
  qed (use f(2) fence_producers(1,2) [OF assms(2)] in simp_all)
qed

lemma finish_coord:
  assumes inv: "broker_inv seg_size crc env db" and sz: "0 < seg_size" and c: "coord_inv (lg_producer db)"
    and ok: "finish_transaction seg_size crc now pid epoch requested db = Inr (outcome, db')"
  shows "coord_inv (lg_producer db')"
  using ok
proof (cases rule: finish_cases)
  case (ended t d committed)
  have "lg_producer d = lg_producer db" by (rule ended_inv(2) [OF inv sz ended(4)])
  then show ?thesis unfolding ended(7) using c by (intro ended_coord) simp
next
  case (overridden t d committed n)
  have "lg_producer d = lg_producer db" by (rule ended_inv(2) [OF inv sz overridden(4)])
  then have "coord_inv (lg_producer (ended_db now pid committed d))" using c by (intro ended_coord) simp
  then show ?thesis by (rule fence_coord [OF _ overridden(7) ended_closed])
qed (use c in simp_all)

end
