(* ===== verification/Txn_Handlers.thy ===== *)
theory Txn_Handlers
  imports Txn_Steps
begin

text \<open>
  Every request of the coordinator, and a produce request, keeps \<open>sys_inv\<close>: the invariants of the log, the
  epoch history, the transactions and the coordinator's rows together.
\<close>

definition sys_inv :: "int \<Rightarrow> (bytes \<Rightarrow> u32) \<Rightarrow> codec_env \<Rightarrow> log_db \<Rightarrow> bool" where
  "sys_inv seg_size crc env db \<longleftrightarrow> broker_inv seg_size crc env db \<and> coord_inv (lg_producer db)"

lemma sys_invD:
  assumes "sys_inv seg_size crc env db"
  shows sys_broker: "broker_inv seg_size crc env db" and sys_coord: "coord_inv (lg_producer db)"
    and sys_log: "log_inv seg_size crc db" and sys_txn: "txn_inv env db" and sys_epoch: "epoch_inv db"
  using assms by (simp_all add: sys_inv_def broker_inv_def)

text \<open>A change to the coordinator's tables alone.\<close>

lemma sys_frame:
  assumes inv: "sys_inv seg_size crc env db"
    and same: "lg_log db' = lg_log db" "lg_partitions db' = lg_partitions db" "lg_segments db' = lg_segments db"
      "lg_epochs db' = lg_epochs db" "lg_aborted db' = lg_aborted db" "lg_topics db' = lg_topics db"
    and keys: "distinct (map tp_key (lg_txn_partitions db'))"
    and old: "\<And>q. q \<in> set (lg_txn_partitions db') \<Longrightarrow> 0 \<le> tp_first_offset q \<Longrightarrow> q \<in> set (lg_txn_partitions db)"
    and kept: "\<And>q. q \<in> set (lg_txn_partitions db) \<Longrightarrow> has_open_txn (lg_producer db) (tp_producer_id q) \<Longrightarrow>
        0 \<le> tp_first_offset q \<Longrightarrow> q \<in> set (lg_txn_partitions db') \<and> has_open_txn (lg_producer db') (tp_producer_id q)"
    and coord: "coord_inv (lg_producer db')"
  shows "sys_inv seg_size crc env db'"
  unfolding sys_inv_def
proof (rule conjI [OF _ coord])
  show "broker_inv seg_size crc env db'"
  proof (rule broker_inv_frame [OF sys_broker [OF inv] same(1-5) _ keys old])
    show "distinct (map tx_producer_id (txns_of db'))" using coord_txns [OF coord] by (simp add: txns_of_def)
    show "q \<in> set (lg_txn_partitions db') \<and> has_open_txn (lg_producer db') (tp_producer_id q)"
      if "q \<in> set (lg_txn_partitions db)" "has_open_txn (lg_producer db) (tp_producer_id q)" "holds q r" for q r
      using kept that by (simp add: holds_def)
  qed (simp_all add: same)
qed

text \<open>The transaction rows of a producer survive, and stay open.\<close>

definition joined :: "i64 \<Rightarrow> u32 \<Rightarrow> i32 \<Rightarrow> log_db \<Rightarrow> bool" where
  "joined pid topic part db \<longleftrightarrow> has_open_txn (lg_producer db) pid \<and> txn_lists pid topic part db"

definition keeps_open :: "log_db \<Rightarrow> log_db \<Rightarrow> bool" where
  "keeps_open db db' \<longleftrightarrow> (\<forall>pid. has_open_txn (lg_producer db) pid \<longrightarrow> has_open_txn (lg_producer db') pid)
     \<and> (\<forall>pid topic part. joined pid topic part db \<longrightarrow> joined pid topic part db')"

lemma keeps_open_refl [simp]: "keeps_open db db"
  by (simp add: keeps_open_def)

lemma keeps_open_trans: "keeps_open a b \<Longrightarrow> keeps_open b c \<Longrightarrow> keeps_open a c"
  by (simp add: keeps_open_def)

lemma keeps_openD: "keeps_open db db' \<Longrightarrow> joined pid topic part db \<Longrightarrow> joined pid topic part db'"
  "keeps_open db db' \<Longrightarrow> has_open_txn (lg_producer db) pid \<Longrightarrow> has_open_txn (lg_producer db') pid"
  by (simp_all add: keeps_open_def)

subsection \<open>Beginning\<close>

lemma clear_txn_rows_fields [simp]:
  "lg_log (clear_txn_rows pid db) = lg_log db" "lg_partitions (clear_txn_rows pid db) = lg_partitions db"
  "lg_segments (clear_txn_rows pid db) = lg_segments db" "lg_epochs (clear_txn_rows pid db) = lg_epochs db"
  "lg_aborted (clear_txn_rows pid db) = lg_aborted db" "lg_topics (clear_txn_rows pid db) = lg_topics db"
  "lg_producer (clear_txn_rows pid db) = lg_producer db"
  "lg_txn_partitions (clear_txn_rows pid db) = filter (\<lambda>r. tp_producer_id r \<noteq> pid) (lg_txn_partitions db)"
  "txns_of (clear_txn_rows pid db) = txns_of db"
  by (simp_all add: clear_txn_rows_def txns_of_def)

definition touch_last_ts :: "int \<Rightarrow> i64 \<Rightarrow> log_db \<Rightarrow> log_db" where
  "touch_last_ts now pid db = update_producers (\<lambda>r. if pr_producer_id r = pid then r\<lparr>pr_last_ts := now\<rparr> else r) db"

lemma touch_coord:
  "coord_inv (lg_producer db) \<Longrightarrow> coord_inv (lg_producer (touch_last_ts now pid db))"
  by (erule coord_update [where g = id and f = "\<lambda>r. if pr_producer_id r = pid then r\<lparr>pr_last_ts := now\<rparr> else r"])
    (auto simp: touch_last_ts_def update_producers_def agrees_def)

definition begun_row :: "int \<Rightarrow> i16 \<Rightarrow> txn_row \<Rightarrow> txn_row" where
  "begun_row now epoch t = t\<lparr>tx_producer_epoch := epoch, tx_state := TxnOngoing,
     tx_started_at := (if tx_state t = TxnOngoing then tx_started_at t else now),
     tx_offsets_partitions := (if tx_state t = TxnOngoing then tx_offsets_partitions t else []),
     tx_forced_result := (if tx_state t = TxnOngoing then tx_forced_result t else None)\<rparr>"

lemma begun_row_fields [simp]:
  "tx_producer_id (begun_row now epoch t) = tx_producer_id t" "tx_state (begun_row now epoch t) = TxnOngoing"
  "tx_transactional_id (begun_row now epoch t) = tx_transactional_id t" "tx_producer_epoch (begun_row now epoch t) = epoch"
  by (simp_all add: begun_row_def)

lemma begin_eq:
  "begin_or_continue now ad txn_id db =
     upsert_txn (fresh_txn (ad_producer_id ad) (ad_epoch ad) txn_id TxnOngoing now DEFAULT_TIMEOUT_MS) (begun_row now (ad_epoch ad))
       (let d = touch_last_ts now (ad_producer_id ad) db in
        if has_open_txn (lg_producer db) (ad_producer_id ad) then d else clear_txn_rows (ad_producer_id ad) d)"
  if "distinct (map tx_producer_id (txns_of db))"
proof -
  let ?pid = "ad_producer_id ad"
  have t: "txn_of ?pid (touch_last_ts now ?pid db) = txn_of ?pid db"
    by (simp add: txn_of_def touch_last_ts_def update_producers_def)
  have o: "(case txn_of ?pid db of None \<Rightarrow> True | Some t \<Rightarrow> tx_state t \<noteq> TxnOngoing) = (\<not> has_open_txn (lg_producer db) ?pid)"
    using open_txn_of [OF that, of ?pid] by (simp split: option.split)
  have b: "begun_row now (ad_epoch ad) = (\<lambda>t. t\<lparr>tx_producer_epoch := ad_epoch ad, tx_state := TxnOngoing,
      tx_started_at := (if tx_state t = TxnOngoing then tx_started_at t else now),
      tx_offsets_partitions := (if tx_state t = TxnOngoing then tx_offsets_partitions t else []),
      tx_forced_result := (if tx_state t = TxnOngoing then tx_forced_result t else None)\<rparr>)"
    by (rule ext) (simp only: begun_row_def)
  show ?thesis
    unfolding begin_or_continue_def Let_def b touch_last_ts_def [symmetric] t o
    by (cases "has_open_txn (lg_producer db) ?pid") (simp_all only: simp_thms if_True if_False)
qed

lemma upsert_open:
  assumes "\<And>t. tx_producer_id (f t) = tx_producer_id t" and "tx_state new = TxnOngoing"
    and "\<And>t. tx_state (f t) = TxnOngoing"
  shows "has_open_txn (lg_producer (upsert_txn new f db)) pid \<longleftrightarrow> pid = tx_producer_id new \<or> has_open_txn (lg_producer db) pid"
proof (cases "\<exists>t \<in> set (txns_of db). tx_producer_id t = tx_producer_id new")
  case True
  then obtain u where u: "u \<in> set (txns_of db)" "tx_producer_id u = tx_producer_id new" by blast
  have eq: "txns_of (upsert_txn new f db) = map (\<lambda>t. if tx_producer_id t = tx_producer_id new then f t else t) (txns_of db)"
    by (simp only: txns_upsert if_P [OF True])
  show ?thesis unfolding open_iff eq
  proof
    assume "\<exists>t \<in> set (map (\<lambda>t. if tx_producer_id t = tx_producer_id new then f t else t) (txns_of db)).
        tx_producer_id t = pid \<and> tx_state t = TxnOngoing"
    then obtain t where "t \<in> set (txns_of db)"
        "tx_producer_id (if tx_producer_id t = tx_producer_id new then f t else t) = pid"
        "tx_state (if tx_producer_id t = tx_producer_id new then f t else t) = TxnOngoing" by auto
    then show "pid = tx_producer_id new \<or> (\<exists>t \<in> set (txns_of db). tx_producer_id t = pid \<and> tx_state t = TxnOngoing)"
      by (cases "tx_producer_id t = tx_producer_id new") (auto simp: assms(1))
  next
    assume "pid = tx_producer_id new \<or> (\<exists>t \<in> set (txns_of db). tx_producer_id t = pid \<and> tx_state t = TxnOngoing)"
    then obtain t where "t \<in> set (txns_of db)" "tx_producer_id t = pid" "pid = tx_producer_id new \<or> tx_state t = TxnOngoing"
      using u by blast
    then show "\<exists>t \<in> set (map (\<lambda>t. if tx_producer_id t = tx_producer_id new then f t else t) (txns_of db)).
        tx_producer_id t = pid \<and> tx_state t = TxnOngoing"
      by (intro bexI [of _ "if tx_producer_id t = tx_producer_id new then f t else t"]) (auto simp only: set_map assms(1,3) split: if_split)
  qed
next
  case False
  then have "txns_of (upsert_txn new f db) = txns_of db @ [new]" by (simp only: txns_upsert if_not_P if_False)
  then show ?thesis unfolding open_iff using assms(2) by auto
qed

lemma begin_sys:
  assumes inv: "sys_inv seg_size crc env db"
    and p: "producer_of (ad_producer_id ad) db = Some p" "pr_transactional_id p = Some txn_id" "pr_producer_epoch p = ad_epoch ad"
  shows "sys_inv seg_size crc env (begin_or_continue now ad txn_id db)" (is "sys_inv _ _ _ ?db")
    and "has_open_txn (lg_producer (begin_or_continue now ad txn_id db)) pid
       \<longleftrightarrow> pid = ad_producer_id ad \<or> has_open_txn (lg_producer db) pid"
    and "keeps_open db (begin_or_continue now ad txn_id db)"
proof -
  let ?pid = "ad_producer_id ad"
  let ?d = "let d = touch_last_ts now ?pid db in if has_open_txn (lg_producer db) ?pid then d else clear_txn_rows ?pid d"
  note be = begin_eq [OF txn_inv_txns [OF sys_txn [OF inv]]]
  have open_d: "has_open_txn (lg_producer ?d) x = has_open_txn (lg_producer db) x" for x
    by (simp add: open_iff touch_last_ts_def Let_def)
  have op: "has_open_txn (lg_producer ?db) x \<longleftrightarrow> x = ?pid \<or> has_open_txn (lg_producer db) x" for x
    unfolding be by (subst upsert_open) (simp_all add: open_d fresh_txn_def)
  then show "has_open_txn (lg_producer ?db) pid \<longleftrightarrow> pid = ?pid \<or> has_open_txn (lg_producer db) pid" .
  have tps: "set (lg_txn_partitions ?db) = (if has_open_txn (lg_producer db) ?pid then set (lg_txn_partitions db)
      else {q \<in> set (lg_txn_partitions db). tp_producer_id q \<noteq> ?pid})"
    unfolding be by (simp add: Let_def touch_last_ts_def)
  show "sys_inv seg_size crc env ?db"
  proof (rule sys_frame [OF inv])
    show "distinct (map tp_key (lg_txn_partitions ?db))"
      using txn_inv_keys [OF sys_txn [OF inv]] unfolding be by (simp add: Let_def touch_last_ts_def distinct_map_filter)
    show "q \<in> set (lg_txn_partitions ?db) \<and> has_open_txn (lg_producer ?db) (tp_producer_id q)"
      if "q \<in> set (lg_txn_partitions db)" "has_open_txn (lg_producer db) (tp_producer_id q)" for q
      using that by (auto simp: tps op)
    let ?p = "if pr_producer_id p = ?pid then p\<lparr>pr_last_ts := now\<rparr> else p"
    have pin: "p \<in> set (db_producers (lg_producer db))" "pr_producer_id p = ?pid"
      using p(1) producer_of_iff [OF sys_coord [OF inv]] by simp_all
    show "coord_inv (lg_producer ?db)"
      unfolding be
    proof (rule upsert_coord [where p = ?p])
      show "coord_inv (lg_producer ?d)" using touch_coord [OF sys_coord [OF inv], of now ?pid] by (simp add: Let_def)
      show "?p \<in> set (db_producers (lg_producer ?d))" using pin by (auto simp: Let_def touch_last_ts_def update_producers_def)
    qed (use pin p(2,3) in \<open>simp_all add: fresh_txn_def\<close>)
  qed (auto simp: be Let_def touch_last_ts_def tps split: if_splits)
  have "txn_lists x t k ?db" if "has_open_txn (lg_producer db) x" "txn_lists x t k db" for x t k
    using that by (auto simp: txn_lists_def tps)
  then show "keeps_open db ?db" unfolding keeps_open_def joined_def by (auto simp: op)
qed

subsection \<open>Registering partitions\<close>

lemma add_partition_sys:
  assumes inv: "sys_inv seg_size crc env db"
  shows "sys_inv seg_size crc env (add_partition pid topic part db)"
proof (rule sys_frame [OF inv])
  show "distinct (map tp_key (lg_txn_partitions (add_partition pid topic part db)))"
    using txn_inv_keys [OF sys_txn [OF inv]] by (auto simp: add_partition_def txn_lists_def tp_key_def tp_at_def)
qed (use sys_coord [OF inv] in \<open>auto simp: add_partition_def split: if_splits\<close>)

lemma add_topic_partitions_sys: "sys_inv seg_size crc env db \<Longrightarrow> sys_inv seg_size crc env (add_topic_partitions pid topic n ps db)"
  by (induction pid topic n ps db rule: add_topic_partitions.induct) (simp_all add: add_partition_sys)

lemma add_topics_sys: "sys_inv seg_size crc env db \<Longrightarrow> sys_inv seg_size crc env (add_topics pid ts db)"
  by (induction pid ts db rule: add_topics.induct) (simp_all add: add_topic_partitions_sys split: option.splits)

lemma verdict_begin:
  assumes "sys_inv seg_size crc env db" and "verdict txn_id pid epoch db = Inr ad"
  shows "sys_inv seg_size crc env (begin_or_continue now ad txn_id db)" and "ad_producer_id ad = pid"
proof -
  obtain p where "producer_of pid db = Some p" "pr_transactional_id p = Some txn_id" "pr_producer_epoch p = epoch"
      "ad = \<lparr>ad_producer_id = pid, ad_epoch = epoch\<rparr>"
    using assms(2) unfolding verdict_admits by blast
  then show "sys_inv seg_size crc env (begin_or_continue now ad txn_id db)" "ad_producer_id ad = pid"
    using begin_sys(1) [OF assms(1), of ad p] by simp_all
qed

lemma handle_add_partitions_sys:
  assumes "sys_inv seg_size crc env db" and "handle_add_partitions now req version db = (reply, db')"
  shows "sys_inv seg_size crc env db'"
  using assms verdict_begin(1) [OF assms(1)]
  by (auto simp: handle_add_partitions_def Let_def add_topics_sys split: if_splits sum.splits)

lemma open_update_same:
  assumes f: "\<And>t. tx_producer_id (f t) = tx_producer_id t \<and> tx_state (f t) = tx_state t"
  shows "has_open_txn (lg_producer (update_txn pid f db)) x = has_open_txn (lg_producer db) x"
proof -
  have "tx_producer_id (if tx_producer_id t = pid then f t else t) = tx_producer_id t"
      "tx_state (if tx_producer_id t = pid then f t else t) = tx_state t" for t
    using f by simp_all
  then show ?thesis by (simp add: update_txn_def open_map_txns) (simp add: has_open_txn_def)
qed

text \<open>The row of a transaction may be rewritten in the columns the invariant does not read.\<close>

lemma update_txn_sys:
  assumes inv: "sys_inv seg_size crc env db"
    and f: "\<And>t. tx_producer_id (f t) = tx_producer_id t \<and> tx_state (f t) = tx_state t
      \<and> tx_transactional_id (f t) = tx_transactional_id t \<and> tx_producer_epoch (f t) = tx_producer_epoch t"
  shows "sys_inv seg_size crc env (update_txn pid f db)"
proof (rule sys_frame [OF inv])
  have same: "has_open_txn (lg_producer (update_txn pid f db)) x = has_open_txn (lg_producer db) x" for x
    by (rule open_update_same) (simp add: f)
  show "coord_inv (lg_producer (update_txn pid f db))"
  proof (rule coord_update [OF sys_coord [OF inv], where f = id and g = "\<lambda>t. if tx_producer_id t = pid then f t else t"])
    fix p t assume "agrees p t" "tx_state (if tx_producer_id t = pid then f t else t) = TxnOngoing"
    then show "pr_producer_epoch (id p) = tx_producer_epoch (if tx_producer_id t = pid then f t else t)"
      using f [of t] by (cases "tx_producer_id t = pid") (simp_all add: agrees_def)
  qed (use f in \<open>simp_all add: update_txn_def\<close>)
  show "q \<in> set (lg_txn_partitions (update_txn pid f db)) \<and> has_open_txn (lg_producer (update_txn pid f db)) (tp_producer_id q)"
    if "q \<in> set (lg_txn_partitions db)" "has_open_txn (lg_producer db) (tp_producer_id q)" for q
    using that by (simp add: same)
qed (use txn_inv_keys [OF sys_txn [OF inv]] in simp_all)

lemma add_offsets_partition_sys:
  "sys_inv seg_size crc env db \<Longrightarrow> sys_inv seg_size crc env (add_offsets_partition ad gid db)"
  unfolding add_offsets_partition_def by (rule update_txn_sys) simp_all

lemma handle_add_offsets_sys:
  assumes "sys_inv seg_size crc env db" and "handle_add_offsets now req version db = (reply, db')"
  shows "sys_inv seg_size crc env db'"
  using assms verdict_begin(1) [OF assms(1)]
  by (auto simp: handle_add_offsets_def add_offsets_partition_sys split: sum.splits)

subsection \<open>Ending\<close>

lemma finish_sys:
  assumes "sys_inv seg_size crc env db" and "0 < seg_size"
    and "finish_transaction seg_size crc now pid epoch requested db = Inr (outcome, db')"
  shows "sys_inv seg_size crc env db'"
  using finish_transaction_inv [OF sys_broker [OF assms(1)] assms(2,3)]
    finish_coord [OF sys_broker [OF assms(1)] assms(2) sys_coord [OF assms(1)] assms(3)] by (simp add: sys_inv_def)

lemma fence_sys:
  assumes "sys_inv seg_size crc env db" and "fence pid db = Inr (n, db')" and "\<not> has_open_txn (lg_producer db) pid"
  shows "sys_inv seg_size crc env db'"
  using fence_inv [OF sys_broker [OF assms(1)] assms(2)] fence_coord [OF sys_coord [OF assms(1)] assms(2,3)]
  by (simp add: sys_inv_def)

text \<open>Unless another instance took over, a finished transaction is closed.\<close>

lemma finish_closes:
  assumes inv: "sys_inv seg_size crc env db" and sz: "0 < seg_size"
    and ok: "finish_transaction seg_size crc now pid epoch requested db = Inr (outcome, db')"
    and ours: "outcome \<noteq> NotOurs"
  shows "\<not> has_open_txn (lg_producer db') pid"
  using ok
proof (cases rule: finish_cases)
  case not_ours
  then show ?thesis using ours by simp
next
  case (not_open t prev)
  then show ?thesis using open_txn_of [OF txn_inv_txns [OF sys_txn [OF inv]]] by auto
next
  case (ended t d committed)
  then show ?thesis using ended_closed by simp
next
  case (overridden t d committed n)
  then show ?thesis using ended_closed [of now pid committed d] fence_producers(1) [OF overridden(7)] by (simp add: has_open_txn_def)
qed

lemma inj_redirect:
  assumes "inj_on f S" and "\<And>x. x \<in> S \<Longrightarrow> f x \<noteq> c"
  shows "inj_on (\<lambda>x. if f x = a then c else f x) S"
proof (rule inj_onI)
  fix x y assume xy: "x \<in> S" "y \<in> S" "(if f x = a then c else f x) = (if f y = a then c else f y)"
  then have "f x = f y" using assms(2) [OF xy(1)] assms(2) [OF xy(2)] by (simp split: if_splits)
  then show "x = y" using inj_onD [OF assms(1)] xy by blast
qed

lemma move_coord:
  assumes inv: "coord_inv pdb" and seq: "sint (db_producer_id_seq pdb) < 2 ^ 63 - 1"
    and r: "r \<in> set (db_producers pdb)" and closed: "\<not> has_open_txn pdb (pr_producer_id r)"
  shows "coord_inv (move_to_fresh_id now committed r pdb)" (is "coord_inv ?db")
proof -
  let ?pid = "pr_producer_id r" and ?fresh = "db_producer_id_seq pdb"
  have next_id: "sint (?fresh + 1) = sint ?fresh + 1"
  proof -
    have "- (2 ^ 63) \<le> sint ?fresh" using sint_greater_eq [of ?fresh] by simp
    then show ?thesis using seq by (simp add: sint_word_ariths signed_take_bit_int_eq_self)
  qed
  have fresh_p: "pr_producer_id p \<noteq> ?fresh" if "p \<in> set (db_producers pdb)" for p
    using coord_seq_producer [OF inv that] by auto
  have fresh_t: "tx_producer_id t \<noteq> ?fresh" if "t \<in> set (db_txns pdb)" for t
    using coord_seq_txn [OF inv that] by auto
  define new where "new = \<lparr>pr_producer_id = ?fresh, pr_producer_epoch = 0, pr_transactional_id = pr_transactional_id r,
     pr_retired_producer_id = Some ?pid, pr_retired_epoch = Some (pr_producer_epoch r),
     pr_retired_committed = Some committed, pr_last_ts = now\<rparr>"
  define g :: "txn_row \<Rightarrow> txn_row" where "g t = (if tx_producer_id t = ?pid then t\<lparr>tx_producer_id := ?fresh, tx_producer_epoch := 0\<rparr> else t)" for t
  have gid: "tx_producer_id (g t) = (if tx_producer_id t = ?pid then ?fresh else tx_producer_id t)" for t
    by (simp add: g_def)
  have db': "db_producers ?db = filter (\<lambda>q. pr_producer_id q \<noteq> ?pid) (db_producers pdb) @ [new]"
      "db_txns ?db = map g (db_txns pdb)" "db_producer_id_seq ?db = ?fresh + 1"
    by (simp_all add: move_to_fresh_id_def Let_def new_def g_def [abs_def])
  show ?thesis
  proof (rule coord_invI)
    show "distinct (map pr_producer_id (db_producers ?db))"
      using coord_producers [OF inv] by (auto simp: db' new_def distinct_map_filter dest: fresh_p)
    have inj: "inj_on tx_producer_id (set (db_txns pdb))" "distinct (db_txns pdb)"
      using coord_txns [OF inv] by (simp_all add: distinct_map)
    have "inj_on (\<lambda>t. if tx_producer_id t = ?pid then ?fresh else tx_producer_id t) (set (db_txns pdb))"
      by (rule inj_redirect [OF inj(1)]) (rule fresh_t)
    then have "inj_on (tx_producer_id \<circ> g) (set (db_txns pdb))"
      by (simp only: gid comp_def)
    then show "distinct (map tx_producer_id (db_txns ?db))"
      using inj(2) unfolding db' map_map distinct_map by simp
    show "p' = p" if "p \<in> set (db_producers ?db)" "p' \<in> set (db_producers ?db)" "pr_transactional_id p \<noteq> None"
        "pr_transactional_id p' = pr_transactional_id p" for p p'
      using that coord_ids [OF inv r, of p] coord_ids [OF inv r, of p'] coord_ids [OF inv, of p p'] by (auto simp: db' new_def)
    show "sint (pr_producer_id p) < sint (db_producer_id_seq ?db)" if "p \<in> set (db_producers ?db)" for p
      using that coord_seq_producer [OF inv, of p] next_id by (auto simp: db' new_def)
    show "sint (tx_producer_id t) < sint (db_producer_id_seq ?db)" if tin: "t \<in> set (db_txns ?db)" for t
    proof -
      obtain t0 where t0: "t0 \<in> set (db_txns pdb)" "t = g t0" using tin by (auto simp: db')
      then show ?thesis using coord_seq_txn [OF inv t0(1)] next_id by (simp add: db' gid)
    qed
    show "agrees p t" if tp: "t \<in> set (db_txns ?db)" "p \<in> set (db_producers ?db)" "pr_producer_id p = tx_producer_id t" for t p
    proof -
      obtain t0 where t0: "t0 \<in> set (db_txns pdb)" "t = g t0" using tp(1) by (auto simp: db')
      show ?thesis
      proof (cases "tx_producer_id t0 = ?pid")
        case True
        then have "p = new" using tp(2,3) t0(2) fresh_p by (auto simp: db' g_def)
        moreover have "agrees r t0" using coord_agrees [OF inv t0(1) r] True by simp
        moreover have "tx_state t0 \<noteq> TxnOngoing" using closed t0(1) True by (auto simp: has_open_txn_def)
        ultimately show ?thesis using t0(2) True by (simp add: agrees_def new_def g_def)
      next
        case False
        then have "p \<in> set (db_producers pdb)" using tp(2,3) t0(2) fresh_t [OF t0(1)] by (auto simp: db' g_def new_def)
        then show ?thesis using coord_agrees [OF inv t0(1), of p] tp(3) t0(2) False by (simp add: g_def)
      qed
    qed
  qed
qed

end
