(* ===== verification/Broker_Steps.thy ===== *)
theory Broker_Steps
  imports Txn_Handlers
begin

text \<open>
  The remaining requests that write to the log or to the coordinator's tables keep \<open>sys_inv\<close>: ending a
  transaction, \<open>InitProducerId\<close>, expiry, forced markers.
\<close>

subsection \<open>Rotation\<close>

lemma producer_frame:
  assumes inv: "sys_inv seg_size crc env db" and coord: "coord_inv pdb"
    and stay: "\<And>x. has_open_txn (lg_producer db) x \<Longrightarrow> has_open_txn pdb x"
  shows "sys_inv seg_size crc env (db\<lparr>lg_producer := pdb\<rparr>)"
  by (rule sys_frame [OF inv]) (use txn_inv_keys [OF sys_txn [OF inv]] coord stay in auto)

lemma open_move:
  assumes "has_open_txn pdb x" and "x \<noteq> pr_producer_id r"
  shows "has_open_txn (move_to_fresh_id now committed r pdb) x"
proof -
  obtain t where t: "t \<in> set (db_txns pdb)" "tx_producer_id t = x" "tx_state t = TxnOngoing"
    using assms(1) by (auto simp: has_open_txn_def)
  define g :: "txn_row \<Rightarrow> txn_row" where
    "g t = (if tx_producer_id t = pr_producer_id r then t\<lparr>tx_producer_id := db_producer_id_seq pdb, tx_producer_epoch := 0\<rparr> else t)" for t
  have "db_txns (move_to_fresh_id now committed r pdb) = map g (db_txns pdb)"
    by (simp add: move_to_fresh_id_def Let_def g_def [abs_def])
  moreover have "g t = t" using t(2) assms(2) by (simp add: g_def)
  ultimately have "t \<in> set (db_txns (move_to_fresh_id now committed r pdb))" using t(1) by (metis image_eqI list.set_map)
  then show ?thesis unfolding has_open_txn_def using t(2,3) by blast
qed

lemma retire_coord:
  assumes inv: "coord_inv pdb" and closed: "\<not> has_open_txn pdb pid"
  shows "coord_inv (pdb\<lparr>db_producers := map (\<lambda>q. if pr_producer_id q = pid then retire_and_bump now committed q else q) (db_producers pdb)\<rparr>)"
proof (rule coord_update [OF inv, where g = id])
  fix p t assume t: "t \<in> set (db_txns pdb)" "pr_producer_id p = tx_producer_id t" "agrees p t" "tx_state (id t) = TxnOngoing"
  then have "pr_producer_id p \<noteq> pid" using closed by (auto simp: has_open_txn_def)
  then show "pr_producer_epoch (if pr_producer_id p = pid then retire_and_bump now committed p else p) = tx_producer_epoch (id t)"
    using t(3,4) by (simp add: agrees_def)
qed (simp_all add: retire_and_bump_def)

lemma bump_sys:
  assumes inv: "sys_inv seg_size crc env db" and closed: "\<not> has_open_txn (lg_producer db) pid"
    and seq: "sint (db_producer_id_seq (lg_producer db)) < 2 ^ 63 - 1"
    and b: "bump_epoch_for_next_txn now pid committed (lg_producer db) = (pair, pdb)"
  shows "sys_inv seg_size crc env (db\<lparr>lg_producer := pdb\<rparr>)"
proof (cases "List.find (\<lambda>r. pr_producer_id r = pid) (db_producers (lg_producer db))")
  case None
  then have "pdb = lg_producer db" using b by (simp add: bump_epoch_for_next_txn_def)
  then show ?thesis using producer_frame [OF inv sys_coord [OF inv]] by simp
next
  case (Some r)
  then have r: "r \<in> set (db_producers (lg_producer db))" "pr_producer_id r = pid" by (auto simp: find_Some_iff)
  show ?thesis
  proof (cases "sint (pr_producer_epoch r) < EPOCH_CEILING")
    case True
    then have "pdb = (lg_producer db)\<lparr>db_producers := map (\<lambda>q. if pr_producer_id q = pid then retire_and_bump now committed q else q)
        (db_producers (lg_producer db))\<rparr>"
      using b Some by (simp add: bump_epoch_for_next_txn_def)
    then show ?thesis using producer_frame [OF inv, of pdb] retire_coord [OF sys_coord [OF inv] closed]
      by (simp add: has_open_txn_def)
  next
    case False
    then have pdb: "pdb = move_to_fresh_id now committed r (lg_producer db)"
      using b Some by (simp add: bump_epoch_for_next_txn_def)
    show ?thesis unfolding pdb
    proof (rule producer_frame [OF inv])
      show "coord_inv (move_to_fresh_id now committed r (lg_producer db))"
        using move_coord [OF sys_coord [OF inv] seq r(1)] closed r(2) by simp
      show "has_open_txn (move_to_fresh_id now committed r (lg_producer db)) x" if "has_open_txn (lg_producer db) x" for x
        using that closed r(2) by (intro open_move) auto
    qed
  qed
qed

lemma close_update_sys:
  assumes inv: "sys_inv seg_size crc env db" and closed: "\<not> has_open_txn (lg_producer db) pid"
  shows "sys_inv seg_size crc env (update_txn pid (\<lambda>t. t\<lparr>tx_state := TxnAborted, tx_offsets_partitions := []\<rparr>) db)"
    and "\<not> has_open_txn (lg_producer (update_txn pid (\<lambda>t. t\<lparr>tx_state := TxnAborted, tx_offsets_partitions := []\<rparr>) db)) pid"
proof -
  let ?g = "\<lambda>t. if tx_producer_id t = pid then t\<lparr>tx_state := TxnAborted, tx_offsets_partitions := []\<rparr> else t"
  let ?db = "update_txn pid (\<lambda>t. t\<lparr>tx_state := TxnAborted, tx_offsets_partitions := []\<rparr>) db"
  have op: "has_open_txn (lg_producer ?db) x \<longleftrightarrow> has_open_txn (lg_producer db) x" for x
  proof (cases "x = pid")
    case True
    then show ?thesis using closed by (auto simp: update_txn_def open_map_txns)
  next
    case False
    have "has_open_txn (lg_producer ?db) x \<longleftrightarrow>
        (\<exists>t \<in> set (db_txns (lg_producer db)). tx_producer_id t \<noteq> pid \<and> tx_producer_id t = x \<and> tx_state t = TxnOngoing)"
      by (auto simp: update_txn_def open_map_txns split: if_splits)
    then show ?thesis using False by (auto simp: has_open_txn_def)
  qed
  then show "\<not> has_open_txn (lg_producer ?db) pid" using closed by simp
  show "sys_inv seg_size crc env ?db"
  proof (rule sys_frame [OF inv])
    show "coord_inv (lg_producer ?db)"
      by (rule coord_update [OF sys_coord [OF inv], where f = id and g = ?g]) (auto simp: update_txn_def agrees_def split: if_splits)
    show "q \<in> set (lg_txn_partitions ?db) \<and> has_open_txn (lg_producer ?db) (tp_producer_id q)"
      if "q \<in> set (lg_txn_partitions db)" "has_open_txn (lg_producer db) (tp_producer_id q)" for q
      using that by (simp add: op)
  qed (use txn_inv_keys [OF sys_txn [OF inv]] in simp_all)
qed

lemma rotate_sys:
  assumes "sys_inv seg_size crc env db" and "\<not> has_open_txn (lg_producer db) (et_producer_id req)"
    and "sint (db_producer_id_seq (lg_producer db)) < 2 ^ 63 - 1"
  shows "sys_inv seg_size crc env (snd (rotate_pair now req db))"
  using bump_sys [OF assms] by (cases "bump_epoch_for_next_txn now (et_producer_id req) (et_committed req) (lg_producer db)")
    (simp add: rotate_pair_def split: prod.split)

text \<open>What ending a transaction does to the rows of the producers.\<close>

lemma finish_producers:
  assumes inv: "sys_inv seg_size crc env db" and sz: "0 < seg_size"
    and ok: "finish_transaction seg_size crc now pid epoch requested db = Inr (outcome, db')"
  shows finish_seq: "db_producer_id_seq (lg_producer db') = db_producer_id_seq (lg_producer db)"
    and finish_rows: "\<exists>f. db_producers (lg_producer db') = map f (db_producers (lg_producer db))
       \<and> (\<forall>p. pr_producer_id (f p) = pr_producer_id p \<and> pr_transactional_id (f p) = pr_transactional_id p
              \<and> (pr_producer_id p \<noteq> pid \<longrightarrow> f p = p))" (is ?rows)
    and finish_opens: "has_open_txn (lg_producer db') x \<Longrightarrow> has_open_txn (lg_producer db) x"
proof -
  have same: ?rows if "db_producers (lg_producer db') = db_producers (lg_producer db)"
    using that by (intro exI [of _ id]) simp
  have ended_opens: "has_open_txn (lg_producer (ended_db now pid c d)) x \<Longrightarrow> has_open_txn (lg_producer d) x" for c d x
    by (auto simp: open_map_txns has_open_txn_def split: if_splits)
  have "db_producer_id_seq (lg_producer db') = db_producer_id_seq (lg_producer db) \<and> ?rows
      \<and> (has_open_txn (lg_producer db') x \<longrightarrow> has_open_txn (lg_producer db) x)"
    using ok
  proof (cases rule: finish_cases)
    case not_ours
    then show ?thesis using same by simp
  next
    case (not_open t prev)
    then show ?thesis using same by simp
  next
    case (ended t d committed)
    have "lg_producer d = lg_producer db" by (rule ended_inv(2) [OF sys_broker [OF inv] sz ended(4)])
    then show ?thesis using same ended_opens [of committed d x] unfolding ended(7) by simp
  next
    case (overridden t d committed n)
    have d: "lg_producer d = lg_producer db" by (rule ended_inv(2) [OF sys_broker [OF inv] sz overridden(4)])
    note fp = fence_producers [OF overridden(7)]
    have "has_open_txn (lg_producer db') x \<Longrightarrow> has_open_txn (lg_producer (ended_db now pid committed d)) x"
      using fp(1) by (simp add: has_open_txn_def)
    then show ?thesis using ended_opens [of committed d x] fp(2,3) d by simp
  qed
  then show "db_producer_id_seq (lg_producer db') = db_producer_id_seq (lg_producer db)" ?rows
      "has_open_txn (lg_producer db') x \<Longrightarrow> has_open_txn (lg_producer db) x" by simp_all
qed

lemma end_verified_sys:
  assumes inv: "sys_inv seg_size crc env db" and sz: "0 < seg_size"
    and seq: "sint (db_producer_id_seq (lg_producer db)) < 2 ^ 63 - 1"
    and ok: "end_verified seg_size crc now rotating req db = Inr (reply, db')"
  shows "sys_inv seg_size crc env db'"
proof -
  obtain outcome d where f: "finish_transaction seg_size crc now (et_producer_id req) (et_producer_epoch req) (et_committed req) db = Inr (outcome, d)"
    using ok by (auto simp: end_verified_def rbind_eq_Inr)
  have d: "sys_inv seg_size crc env d" by (rule finish_sys [OF inv sz f])
  have closed: "\<not> has_open_txn (lg_producer d) (et_producer_id req)" if "outcome \<noteq> NotOurs"
    by (rule finish_closes [OF inv sz f that])
  have seq_d: "sint (db_producer_id_seq (lg_producer d)) < 2 ^ 63 - 1"
    using seq finish_seq [OF inv sz f] by simp
  have seq_u: "db_producer_id_seq (lg_producer (update_txn x g d)) = db_producer_id_seq (lg_producer d)" for x g
    by (simp add: update_txn_def)
  show ?thesis
  proof (cases outcome)
    case NotOurs
    then show ?thesis using ok f d by (simp add: end_verified_def)
  next
    case Overridden
    then show ?thesis using ok f d by (simp add: end_verified_def)
  next
    case Ended
    then show ?thesis using ok f d rotate_sys [OF d closed seq_d, of now] by (auto simp: end_verified_def split: if_splits)
  next
    case (NotOpen prev)
    then have c: "\<not> has_open_txn (lg_producer d) (et_producer_id req)" using closed by simp
    have r: "sys_inv seg_size crc env (snd (rotate_pair now req (update_txn (et_producer_id req)
                     (\<lambda>t. t\<lparr>tx_state := TxnAborted, tx_offsets_partitions := []\<rparr>) d)))"
      by (rule rotate_sys [OF close_update_sys [OF d c]]) (use seq_d in \<open>simp only: seq_u\<close>)
    show ?thesis using ok f d NotOpen r by (auto simp: end_verified_def split: if_splits)
  qed
qed

lemma handle_end_txn_sys:
  assumes "sys_inv seg_size crc env db" and "0 < seg_size" and "sint (db_producer_id_seq (lg_producer db)) < 2 ^ 63 - 1"
    and "handle_end_txn seg_size crc now tv req version db = Inr (reply, db')"
  shows "sys_inv seg_size crc env db'"
  using assms(4,1) end_verified_sys [OF assms(1-3)]
  by (auto simp: handle_end_txn_def Let_def split: if_splits retry.splits sum.splits)

subsection \<open>InitProducerId\<close>

text \<open>The pairs to abort carry the current epoch of their producers, so every one of them is closed.\<close>

lemma producer_of_map:
  assumes "db_producers (lg_producer db') = map f (db_producers (lg_producer db))"
    and "\<And>p. pr_producer_id (f p) = pr_producer_id p"
  shows "producer_of pid db' = map_option f (producer_of pid db)"
proof -
  have "List.find (\<lambda>r. pr_producer_id r = pid) (map f ps) = map_option f (List.find (\<lambda>r. pr_producer_id r = pid) ps)" for ps
    by (induction ps) (auto simp: assms(2))
  then show ?thesis by (simp add: producer_of_def assms(1))
qed

lemma finish_current:
  assumes inv: "sys_inv seg_size crc env db" and sz: "0 < seg_size"
    and ok: "finish_transaction seg_size crc now pid epoch requested db = Inr (outcome, db')"
    and cur: "\<And>p. producer_of pid db = Some p \<Longrightarrow> pr_producer_epoch p = epoch"
  shows "\<not> has_open_txn (lg_producer db') pid"
proof (cases "outcome = NotOurs")
  case True
  have "db' = db \<and> txn_of pid db = None"
    using ok True by (cases rule: finish_cases) (use cur in auto)
  then show ?thesis using open_txn_of [OF txn_inv_txns [OF sys_txn [OF inv]]] by simp
next
  case False
  then show ?thesis by (rule finish_closes [OF inv sz ok])
qed

definition current_pairs :: "(i64 \<times> i16) list \<Rightarrow> log_db \<Rightarrow> bool" where
  "current_pairs ts db \<longleftrightarrow> (\<forall>(pid, epoch) \<in> set ts. \<forall>p. producer_of pid db = Some p \<longrightarrow> pr_producer_epoch p = epoch)"

lemma finish_keeps_pairs:
  assumes inv: "sys_inv seg_size crc env db" and sz: "0 < seg_size"
    and ok: "finish_transaction seg_size crc now pid epoch requested db = Inr (outcome, db')"
    and ts: "current_pairs ts db" "pid \<notin> fst ` set ts"
  shows "current_pairs ts db'"
proof -
  obtain f where f: "db_producers (lg_producer db') = map f (db_producers (lg_producer db))"
      "\<And>p. pr_producer_id (f p) = pr_producer_id p" "\<And>p. pr_producer_id p \<noteq> pid \<Longrightarrow> f p = p"
    using finish_rows [OF inv sz ok] by blast
  have "pr_producer_epoch p = e" if e: "(x, e) \<in> set ts" "producer_of x db' = Some p" for x e p
  proof -
    obtain p0 where p0: "producer_of x db = Some p0" "p = f p0"
      using e(2) producer_of_map [OF f(1,2)] by auto
    have "x \<noteq> pid" using e(1) ts(2) by force
    moreover have "pr_producer_id p0 = x" using p0(1) by (auto simp: producer_of_def find_Some_iff)
    ultimately have "p = p0" using f(3) p0(2) by simp
    then show ?thesis using ts(1) e(1) p0(1) by (auto simp: current_pairs_def)
  qed
  then show ?thesis by (auto simp: current_pairs_def)
qed

lemma abort_each_sys:
  assumes "abort_each seg_size crc now ts db = Inr db'" and "sys_inv seg_size crc env db" and "0 < seg_size"
    and "current_pairs ts db" and "distinct (map fst ts)"
  shows "sys_inv seg_size crc env db' \<and> db_producer_id_seq (lg_producer db') = db_producer_id_seq (lg_producer db)
    \<and> (\<forall>x. has_open_txn (lg_producer db') x \<longrightarrow> has_open_txn (lg_producer db) x \<and> x \<notin> fst ` set ts)
    \<and> (\<exists>f. db_producers (lg_producer db') = map f (db_producers (lg_producer db))
         \<and> (\<forall>p. pr_producer_id (f p) = pr_producer_id p \<and> pr_transactional_id (f p) = pr_transactional_id p))"
  using assms
proof (induction seg_size crc now ts db rule: abort_each.induct)
  case (1 seg_size crc now db)
  then show ?case by (auto intro: exI [of _ id])
next
  case (2 seg_size crc now pid epoch ts db)
  obtain outcome d where f: "finish_transaction seg_size crc now pid epoch False db = Inr (outcome, d)"
      and r: "abort_each seg_size crc now ts d = Inr db'"
    using "2.prems"(1) by (auto simp: rbind_eq_Inr)
  note inv = "2.prems"(2,3)
  have pid: "pid \<notin> fst ` set ts" using "2.prems"(5) by (metis distinct.simps(2) fst_conv list.set_map list.simps(9))
  have d: "sys_inv seg_size crc env d" by (rule finish_sys [OF inv f])
  have closed: "\<not> has_open_txn (lg_producer d) pid"
    by (rule finish_current [OF inv f]) (use "2.prems"(4) in \<open>auto simp: current_pairs_def\<close>)
  have cur: "current_pairs ts d"
    by (rule finish_keeps_pairs [OF inv f _ pid]) (use "2.prems"(4) in \<open>auto simp: current_pairs_def\<close>)
  have IH: "sys_inv seg_size crc env db'" "db_producer_id_seq (lg_producer db') = db_producer_id_seq (lg_producer d)"
      "\<And>x. has_open_txn (lg_producer db') x \<Longrightarrow> has_open_txn (lg_producer d) x \<and> x \<notin> fst ` set ts"
      "\<exists>f. db_producers (lg_producer db') = map f (db_producers (lg_producer d))
         \<and> (\<forall>p. pr_producer_id (f p) = pr_producer_id p \<and> pr_transactional_id (f p) = pr_transactional_id p)"
    using "2.IH" [OF r d inv(2) cur] "2.prems"(5) by auto
  obtain g where g: "db_producers (lg_producer d) = map g (db_producers (lg_producer db))"
      "\<And>p. pr_producer_id (g p) = pr_producer_id p \<and> pr_transactional_id (g p) = pr_transactional_id p"
    using finish_rows [OF inv f] by blast
  obtain h where h: "db_producers (lg_producer db') = map h (db_producers (lg_producer d))"
      "\<And>p. pr_producer_id (h p) = pr_producer_id p \<and> pr_transactional_id (h p) = pr_transactional_id p"
    using IH(4) by blast
  have "\<exists>f. db_producers (lg_producer db') = map f (db_producers (lg_producer db))
         \<and> (\<forall>p. pr_producer_id (f p) = pr_producer_id p \<and> pr_transactional_id (f p) = pr_transactional_id p)"
    by (intro exI [of _ "h \<circ> g"]) (simp add: g h)
  moreover have "has_open_txn (lg_producer db) x \<and> x \<notin> fst ` set ((pid, epoch) # ts)" if "has_open_txn (lg_producer db') x" for x
    using IH(3) [OF that] finish_opens [OF inv f, of x] closed by auto
  ultimately show ?case using IH(1,2) finish_seq [OF inv f] by simp
qed

text \<open>After the aborts no transaction of the transactional id's producer is open.\<close>

lemma abandoned_set:
  "(pid, e) \<in> set (abandoned txn_id db) \<longleftrightarrow>
     (\<exists>t \<in> set (db_txns (lg_producer db)). tx_producer_id t = pid \<and> tx_transactional_id t = txn_id \<and> tx_state t = TxnOngoing
        \<and> (case producer_of pid db of None \<Rightarrow> e = tx_producer_epoch t
           | Some p \<Rightarrow> pr_transactional_id p = Some txn_id \<and> e = pr_producer_epoch p))"
  by (force simp: abandoned_def split: option.splits)

lemma abandoned_distinct:
  assumes "coord_inv (lg_producer db)"
  shows "distinct (map fst (abandoned txn_id db))"
proof -
  have "map fst (abandoned txn_id db) = map tx_producer_id (sort_key (\<lambda>t. sint (tx_producer_id t))
      (filter (\<lambda>t. tx_transactional_id t = txn_id \<and> tx_state t = TxnOngoing
                    \<and> (case producer_of (tx_producer_id t) db of
                         None \<Rightarrow> True | Some p \<Rightarrow> pr_transactional_id p = Some txn_id)) (db_txns (lg_producer db))))"
    by (simp add: abandoned_def)
  moreover have "distinct (map tx_producer_id (sort_key f (filter P (db_txns (lg_producer db)))))" for f :: "txn_row \<Rightarrow> int" and P
    using coord_txns [OF assms] by (auto simp: distinct_map inj_on_def)
  ultimately show ?thesis by simp
qed

lemma abort_abandoned_sys:
  assumes inv: "sys_inv seg_size crc env db" and sz: "0 < seg_size"
    and ok: "abort_abandoned seg_size crc now txn_id db = Inr db'"
  shows "sys_inv seg_size crc env db'"
    and "db_producer_id_seq (lg_producer db') = db_producer_id_seq (lg_producer db)"
    and "p \<in> set (db_producers (lg_producer db')) \<Longrightarrow> pr_transactional_id p = Some txn_id \<Longrightarrow>
      \<not> has_open_txn (lg_producer db') (pr_producer_id p)"
proof -
  have cur: "current_pairs (abandoned txn_id db) db"
    by (auto simp: current_pairs_def abandoned_set)
  note a = abort_each_sys [OF ok [unfolded abort_abandoned_def] inv sz cur abandoned_distinct [OF sys_coord [OF inv]]]
  show "sys_inv seg_size crc env db'" "db_producer_id_seq (lg_producer db') = db_producer_id_seq (lg_producer db)"
    using a by blast+
  assume p: "p \<in> set (db_producers (lg_producer db'))" "pr_transactional_id p = Some txn_id"
  obtain f where f: "db_producers (lg_producer db') = map f (db_producers (lg_producer db))"
      "\<And>p. pr_producer_id (f p) = pr_producer_id p \<and> pr_transactional_id (f p) = pr_transactional_id p"
    using a by blast
  obtain p0 where p0: "p0 \<in> set (db_producers (lg_producer db))" "p = f p0" using p(1) f(1) by auto
  show "\<not> has_open_txn (lg_producer db') (pr_producer_id p)"
  proof
    assume "has_open_txn (lg_producer db') (pr_producer_id p)"
    then have o: "has_open_txn (lg_producer db) (pr_producer_id p)" "pr_producer_id p \<notin> fst ` set (abandoned txn_id db)"
      using a by blast+
    then obtain t where t: "t \<in> set (db_txns (lg_producer db))" "tx_producer_id t = pr_producer_id p" "tx_state t = TxnOngoing"
      by (auto simp: has_open_txn_def)
    have ids: "pr_producer_id p = pr_producer_id p0" "pr_transactional_id p0 = Some txn_id" using f(2) p0(2) p(2) by simp_all
    have "agrees p0 t" by (rule coord_agrees [OF sys_coord [OF inv] t(1) p0(1)]) (simp add: t(2) ids)
    then have tid: "tx_transactional_id t = txn_id" using ids(2) by (simp add: agrees_def)
    have "producer_of (pr_producer_id p0) db = Some p0" using p0(1) producer_of_iff [OF sys_coord [OF inv]] by simp
    then have "(pr_producer_id p, pr_producer_epoch p0) \<in> set (abandoned txn_id db)"
      unfolding abandoned_set using t tid ids by auto
    then show False using o(2) by force
  qed
qed

lemma next_seq:
  assumes "sint (n :: i64) < 2 ^ 63 - 1"
  shows "sint (n + 1) = sint n + 1"
proof -
  have "- (2 ^ 63) \<le> sint n" using sint_greater_eq [of n] by simp
  then show ?thesis using assms by (simp add: sint_word_ariths signed_take_bit_int_eq_self)
qed

lemma insert_producer_coord:
  assumes inv: "coord_inv pdb" and seq: "sint (db_producer_id_seq pdb) < 2 ^ 63 - 1"
    and new: "\<And>p. txn_id \<noteq> None \<Longrightarrow> p \<in> set (db_producers pdb) \<Longrightarrow> pr_transactional_id p \<noteq> txn_id"
  shows "coord_inv (pdb\<lparr>db_producer_id_seq := db_producer_id_seq pdb + 1,
     db_producers := db_producers pdb @ [fresh_producer (db_producer_id_seq pdb) txn_id now]\<rparr>)" (is "coord_inv ?db")
proof (rule coord_invI)
  let ?new = "fresh_producer (db_producer_id_seq pdb) txn_id now"
  have below: "pr_producer_id p \<noteq> db_producer_id_seq pdb" if "p \<in> set (db_producers pdb)" for p
    using coord_seq_producer [OF inv that] by auto
  have tbelow: "tx_producer_id t \<noteq> db_producer_id_seq pdb" if "t \<in> set (db_txns pdb)" for t
    using coord_seq_txn [OF inv that] by auto
  show "distinct (map pr_producer_id (db_producers ?db))"
    using coord_producers [OF inv] by (auto simp: fresh_producer_def dest: below)
  show "distinct (map tx_producer_id (db_txns ?db))" using coord_txns [OF inv] by simp
  show "p' = p" if "p \<in> set (db_producers ?db)" "p' \<in> set (db_producers ?db)" "pr_transactional_id p \<noteq> None"
      "pr_transactional_id p' = pr_transactional_id p" for p p'
    using that coord_ids [OF inv, of p p'] new [of p] new [of p'] by (auto simp: fresh_producer_def)
  show "sint (pr_producer_id p) < sint (db_producer_id_seq ?db)" if "p \<in> set (db_producers ?db)" for p
    using that coord_seq_producer [OF inv, of p] next_seq [OF seq] by (auto simp: fresh_producer_def)
  show "sint (tx_producer_id t) < sint (db_producer_id_seq ?db)" if "t \<in> set (db_txns ?db)" for t
    using that coord_seq_txn [OF inv, of t] next_seq [OF seq] by simp
  show "agrees p t" if "t \<in> set (db_txns ?db)" "p \<in> set (db_producers ?db)" "pr_producer_id p = tx_producer_id t" for t p
    using that coord_agrees [OF inv, of t p] tbelow [of t] by (auto simp: fresh_producer_def)
qed

lemma bump_producer_coord:
  assumes inv: "coord_inv pdb" and seq: "sint (db_producer_id_seq pdb) < 2 ^ 63 - 1"
    and closed: "\<And>p. p \<in> set (db_producers pdb) \<Longrightarrow> pr_transactional_id p = Some txn_id \<Longrightarrow> \<not> has_open_txn pdb (pr_producer_id p)"
  shows "coord_inv (pdb\<lparr>db_producer_id_seq := db_producer_id_seq pdb + 1,
     db_producers := map (\<lambda>q. if pr_transactional_id q = Some txn_id then bump_on_conflict now q else q) (db_producers pdb)\<rparr>)"
proof (rule coord_update [OF inv, where g = id])
  fix p t assume t: "p \<in> set (db_producers pdb)" "t \<in> set (db_txns pdb)" "pr_producer_id p = tx_producer_id t" "agrees p t"
    "tx_state (id t) = TxnOngoing"
  then have "pr_transactional_id p \<noteq> Some txn_id" using closed [OF t(1)] by (auto simp: has_open_txn_def)
  then show "pr_producer_epoch (if pr_transactional_id p = Some txn_id then bump_on_conflict now p else p) = tx_producer_epoch (id t)"
    using t(4,5) by (simp add: agrees_def)
qed (use next_seq [OF seq] in \<open>simp_all add: bump_on_conflict_def\<close>)

lemma init_coord:
  assumes inv: "coord_inv pdb" and seq: "sint (db_producer_id_seq pdb) < 2 ^ 63 - 1"
    and closed: "\<And>p i. txn_id = Some i \<Longrightarrow> p \<in> set (db_producers pdb) \<Longrightarrow> pr_transactional_id p = Some i \<Longrightarrow>
      \<not> has_open_txn pdb (pr_producer_id p)"
    and ok: "init_producer_id now txn_id pdb = Inr ((pid, e), pdb')"
  shows "coord_inv pdb'" and "db_txns pdb' = db_txns pdb"
    and "\<exists>p \<in> set (db_producers pdb'). pr_producer_id p = pid \<and> pr_transactional_id p = txn_id \<and> pr_producer_epoch p = e"
proof -
  consider (fresh) "pid = db_producer_id_seq pdb" "e = 0" "pdb' = pdb\<lparr>db_producer_id_seq := db_producer_id_seq pdb + 1,
       db_producers := db_producers pdb @ [fresh_producer (db_producer_id_seq pdb) txn_id now]\<rparr>"
       "\<And>p. txn_id \<noteq> None \<Longrightarrow> p \<in> set (db_producers pdb) \<Longrightarrow> pr_transactional_id p \<noteq> txn_id"
    | (known) i r where "txn_id = Some i" "r \<in> set (db_producers pdb)" "pr_transactional_id r = Some i"
       "pid = pr_producer_id r" "e = pr_producer_epoch r + 1"
       "pdb' = pdb\<lparr>db_producer_id_seq := db_producer_id_seq pdb + 1,
         db_producers := map (\<lambda>q. if pr_transactional_id q = Some i then bump_on_conflict now q else q) (db_producers pdb)\<rparr>"
  proof (cases txn_id)
    case None
    show ?thesis by (rule fresh) (use ok None in \<open>auto simp: init_producer_id_def Let_def\<close>)
  next
    case i: (Some i)
    show ?thesis
    proof (cases "List.find (\<lambda>r. pr_transactional_id r = Some i) (db_producers pdb)")
      case None
      show ?thesis by (rule fresh) (use ok None i in \<open>auto simp: init_producer_id_def Let_def find_None_iff\<close>)
    next
      case (Some r)
      then have "r \<in> set (db_producers pdb)" "pr_transactional_id r = Some i" by (auto simp: find_Some_iff)
      then show ?thesis by (rule known [OF i]) (use ok Some i in \<open>auto simp: init_producer_id_def Let_def split: if_splits\<close>)
    qed
  qed
  then have "coord_inv pdb' \<and> db_txns pdb' = db_txns pdb
    \<and> (\<exists>p \<in> set (db_producers pdb'). pr_producer_id p = pid \<and> pr_transactional_id p = txn_id \<and> pr_producer_epoch p = e)"
  proof cases
    case fresh
    then show ?thesis using insert_producer_coord [OF inv seq fresh(4), of now] by (auto simp: fresh_producer_def)
  next
    case (known i r)
    have "bump_on_conflict now r \<in> set (db_producers pdb')"
      unfolding known(6) using known(2,3) by (auto intro!: image_eqI [of _ _ r])
    moreover have "coord_inv pdb'" unfolding known(6)
      by (rule bump_producer_coord [OF inv seq]) (rule closed [OF known(1)])
    ultimately show ?thesis using known by (auto simp: bump_on_conflict_def intro: bexI [of _ "bump_on_conflict now r"])
  qed
  then show "coord_inv pdb'" "db_txns pdb' = db_txns pdb"
    "\<exists>p \<in> set (db_producers pdb'). pr_producer_id p = pid \<and> pr_transactional_id p = txn_id \<and> pr_producer_epoch p = e" by blast+
qed

lemma forget_finished_sys:
  assumes inv: "sys_inv seg_size crc env db"
  shows "sys_inv seg_size crc env (forget_finished txn_id pid db)" (is "sys_inv _ _ _ ?db")
    and "db_producers (lg_producer (forget_finished txn_id pid db)) = db_producers (lg_producer db)"
proof -
  define gone where "gone = map tx_producer_id (filter (finished_elsewhere txn_id pid) (db_txns (lg_producer db)))"
  have db: "?db = db\<lparr>lg_txn_partitions := filter (\<lambda>r. tp_producer_id r \<notin> set gone) (lg_txn_partitions db),
         lg_txn_offsets := filter (\<lambda>r. to_producer_id r \<notin> set gone) (lg_txn_offsets db),
         lg_producer := (lg_producer db)\<lparr>db_txns :=
           filter (\<lambda>t. \<not> finished_elsewhere txn_id pid t) (db_txns (lg_producer db))\<rparr>\<rparr>"
    by (simp add: forget_finished_def Let_def gone_def)
  show "db_producers (lg_producer ?db) = db_producers (lg_producer db)" by (simp add: db)
  have coord: "coord_inv (lg_producer ?db)"
    by (rule coord_filter [OF sys_coord [OF inv], where P = "\<lambda>_. True" and T = "\<lambda>t. \<not> finished_elsewhere txn_id pid t"])
      (simp_all add: db)
  have stay: "x \<notin> set gone \<and> has_open_txn (lg_producer ?db) x" if op: "has_open_txn (lg_producer db) x" for x
  proof -
    obtain t where t: "t \<in> set (db_txns (lg_producer db))" "tx_producer_id t = x" "tx_state t = TxnOngoing"
      using op by (auto simp: has_open_txn_def)
    have only: "u = t" if "u \<in> set (db_txns (lg_producer db))" "tx_producer_id u = x" for u
      using coord_txns [OF sys_coord [OF inv]] that t(1,2) by (auto simp: distinct_map inj_on_def)
    have "x \<notin> set gone" using only t(3) by (auto simp: gone_def finished_elsewhere_def)
    moreover have "has_open_txn (lg_producer ?db) x" using t by (auto simp: db has_open_txn_def finished_elsewhere_def)
    ultimately show ?thesis by blast
  qed
  show "sys_inv seg_size crc env ?db"
  proof (rule sys_frame [OF inv])
    show "distinct (map tp_key (lg_txn_partitions ?db))"
      using txn_inv_keys [OF sys_txn [OF inv]] by (simp add: db distinct_map_filter)
    show "q \<in> set (lg_txn_partitions ?db) \<and> has_open_txn (lg_producer ?db) (tp_producer_id q)"
      if "q \<in> set (lg_txn_partitions db)" "has_open_txn (lg_producer db) (tp_producer_id q)" for q
      using that stay by (simp add: db)
  qed (use coord in \<open>simp_all add: db\<close>)
qed

lemma upsert_idle_open:
  assumes "\<And>t. tx_producer_id (f t) = tx_producer_id t" and "\<And>t. tx_state t = TxnOngoing \<Longrightarrow> tx_state (f t) = TxnOngoing"
    and "has_open_txn (lg_producer db) x"
  shows "has_open_txn (lg_producer (upsert_txn new f db)) x"
proof -
  obtain t where t: "t \<in> set (txns_of db)" "tx_producer_id t = x" "tx_state t = TxnOngoing"
    using assms(3) by (auto simp: open_iff)
  let ?t = "if tx_producer_id t = tx_producer_id new \<and> (\<exists>u \<in> set (txns_of db). tx_producer_id u = tx_producer_id new) then f t else t"
  have "?t \<in> set (txns_of (upsert_txn new f db))"
  proof (cases "\<exists>u \<in> set (txns_of db). tx_producer_id u = tx_producer_id new")
    case True
    show ?thesis unfolding txns_upsert if_P [OF True] set_map by (rule image_eqI [of _ _ t]) (use True t(1) in simp_all)
  next
    case False
    then show ?thesis unfolding txns_upsert using t(1) by auto
  qed
  moreover have "tx_producer_id ?t = x" "tx_state ?t = TxnOngoing" using t(2,3) assms(1,2) by auto
  ultimately show ?thesis unfolding open_iff by blast
qed

lemma upsert_sys:
  assumes inv: "sys_inv seg_size crc env db"
    and p: "p \<in> set (db_producers (lg_producer db))" "pr_producer_id p = tx_producer_id new"
      "pr_transactional_id p = Some (tx_transactional_id new)" "tx_state new = TxnOngoing \<longrightarrow> pr_producer_epoch p = tx_producer_epoch new"
    and f: "\<And>t. tx_producer_id (f t) = tx_producer_id t \<and> tx_transactional_id (f t) = tx_transactional_id t"
      "\<And>t. agrees p t \<Longrightarrow> tx_state (f t) = TxnOngoing \<Longrightarrow> tx_producer_epoch (f t) = pr_producer_epoch p"
      "\<And>t. tx_state t = TxnOngoing \<Longrightarrow> tx_state (f t) = TxnOngoing"
  shows "sys_inv seg_size crc env (upsert_txn new f db)"
proof (rule sys_frame [OF inv])
  show "coord_inv (lg_producer (upsert_txn new f db))" by (rule upsert_coord [OF sys_coord [OF inv] p f(1,2)])
  show "q \<in> set (lg_txn_partitions (upsert_txn new f db)) \<and> has_open_txn (lg_producer (upsert_txn new f db)) (tp_producer_id q)"
    if "q \<in> set (lg_txn_partitions db)" "has_open_txn (lg_producer db) (tp_producer_id q)" for q
    using that upsert_idle_open [of f] f(1,3) by simp
qed (use txn_inv_keys [OF sys_txn [OF inv]] in simp_all)

lemma take_producer_id_sys:
  assumes inv: "sys_inv seg_size crc env db" and seq: "sint (db_producer_id_seq (lg_producer db)) < 2 ^ 63 - 1"
    and closed: "\<And>p i. txn_id = Some i \<Longrightarrow> p \<in> set (db_producers (lg_producer db)) \<Longrightarrow> pr_transactional_id p = Some i \<Longrightarrow>
      \<not> has_open_txn (lg_producer db) (pr_producer_id p)"
    and ok: "take_producer_id now txn_id db = Inr ((pid, e), db')"
  shows "sys_inv seg_size crc env db'"
    and "\<exists>p \<in> set (db_producers (lg_producer db')). pr_producer_id p = pid \<and> pr_transactional_id p = txn_id \<and> pr_producer_epoch p = e"
proof -
  obtain pdb where i: "init_producer_id now txn_id (lg_producer db) = Inr ((pid, e), pdb)" "db' = db\<lparr>lg_producer := pdb\<rparr>"
    using ok by (auto simp: take_producer_id_def split: sum.splits)
  note ic = init_coord [OF sys_coord [OF inv] seq closed i(1)]
  show "sys_inv seg_size crc env db'" unfolding i(2)
    by (rule producer_frame [OF inv ic(1)]) (use ic(2) in \<open>simp_all add: has_open_txn_def\<close>)
  show "\<exists>p \<in> set (db_producers (lg_producer db')). pr_producer_id p = pid \<and> pr_transactional_id p = txn_id \<and> pr_producer_epoch p = e"
    using ic(3) by (simp add: i(2))
qed

definition init_row :: "i16 \<Rightarrow> i32 \<Rightarrow> txn_row \<Rightarrow> txn_row" where
  "init_row e timeout t = t\<lparr>tx_producer_epoch := e, tx_timeout_ms := timeout,
     tx_forced_result := (if tx_state t = TxnOngoing then tx_forced_result t else None),
     tx_state := (if tx_state t = TxnOngoing then tx_state t else TxnEmpty)\<rparr>"

lemma init_row_fields [simp]:
  "tx_producer_id (init_row e timeout t) = tx_producer_id t" "tx_transactional_id (init_row e timeout t) = tx_transactional_id t"
  "tx_producer_epoch (init_row e timeout t) = e" "tx_state (init_row e timeout t) = TxnOngoing \<longleftrightarrow> tx_state t = TxnOngoing"
  by (simp_all add: init_row_def)

lemma init_anonymous:
  assumes "nonempty (ip_transactional_id req) = None" and "authz_check authz IdempotentWrite Cluster CLUSTER_NAME = Inr u"
  shows "handle_init_producer_id seg_size crc now req authz db =
    rbind (take_producer_id now None db) (\<lambda>((pid, e), d).
      Inr (\<lparr>ir_error_code = E_None, ir_producer_id = pid, ir_producer_epoch = e\<rparr>, d))"
  unfolding handle_init_producer_id_def assms Let_def sum.case option.case by simp

lemma init_transactional:
  assumes "nonempty (ip_transactional_id req) = Some i" and "authz_check authz IdempotentWrite Cluster CLUSTER_NAME = Inr u"
  shows "handle_init_producer_id seg_size crc now req authz db =
    rbind (abort_abandoned seg_size crc now i db) (\<lambda>d. rbind (take_producer_id now (Some i) d) (\<lambda>((pid, e), d2).
      Inr (\<lparr>ir_error_code = E_None, ir_producer_id = pid, ir_producer_epoch = e\<rparr>,
        upsert_txn (fresh_txn pid e i TxnEmpty now (clamp_timeout (ip_transaction_timeout_ms req)))
          (init_row e (clamp_timeout (ip_transaction_timeout_ms req))) (forget_finished i pid d2))))"
  unfolding handle_init_producer_id_def assms Let_def sum.case option.case init_row_def [abs_def] by (rule refl)

lemma init_transactional_sys:
  assumes inv: "sys_inv seg_size crc env db" and sz: "0 < seg_size"
    and seq: "sint (db_producer_id_seq (lg_producer db)) < 2 ^ 63 - 1"
    and d: "abort_abandoned seg_size crc now i db = Inr d" and t: "take_producer_id now (Some i) d = Inr ((pid, e), d2)"
  shows "sys_inv seg_size crc env (upsert_txn (fresh_txn pid e i TxnEmpty now timeout) (init_row e timeout) (forget_finished i pid d2))"
proof -
  note ab = abort_abandoned_sys [OF inv sz d]
  have sq: "sint (db_producer_id_seq (lg_producer d)) < 2 ^ 63 - 1" using seq ab(2) by simp
  have cl: "\<not> has_open_txn (lg_producer d) (pr_producer_id p)"
    if "Some i = Some j" "p \<in> set (db_producers (lg_producer d))" "pr_transactional_id p = Some j" for p j
    using ab(3) [of p] that by simp
  note tk = take_producer_id_sys [OF ab(1) sq cl t]
  have d2: "sys_inv seg_size crc env d2" by (rule tk(1)) simp_all
  obtain p where p: "p \<in> set (db_producers (lg_producer d2))" "pr_producer_id p = pid" "pr_transactional_id p = Some i"
      "pr_producer_epoch p = e" using take_producer_id_sys(2) [OF ab(1) sq _ t] cl by blast
  show ?thesis
    by (rule upsert_sys [OF forget_finished_sys(1) [OF d2], where p = p])
      (use p in \<open>simp_all add: forget_finished_sys(2) [OF d2] fresh_txn_def\<close>)
qed

lemma handle_init_producer_id_sys:
  assumes inv: "sys_inv seg_size crc env db" and sz: "0 < seg_size"
    and seq: "sint (db_producer_id_seq (lg_producer db)) < 2 ^ 63 - 1"
    and ok: "handle_init_producer_id seg_size crc now req authz db = Inr (reply, db')"
  shows "sys_inv seg_size crc env db'"
proof (cases "authz_check authz IdempotentWrite Cluster CLUSTER_NAME")
  case (Inl err)
  then show ?thesis using ok inv by (simp add: handle_init_producer_id_def)
next
  case (Inr u)
  show ?thesis
  proof (cases "nonempty (ip_transactional_id req)")
    case None
    obtain pid e where "take_producer_id now None db = Inr ((pid, e), db')"
      using ok unfolding init_anonymous [OF None Inr] by (auto simp: rbind_eq_Inr)
    then show ?thesis by (rule take_producer_id_sys(1) [OF inv seq, rotated]) simp
  next
    case (Some i)
    obtain d pid e d2 where d: "abort_abandoned seg_size crc now i db = Inr d" "take_producer_id now (Some i) d = Inr ((pid, e), d2)"
      "db' = upsert_txn (fresh_txn pid e i TxnEmpty now (clamp_timeout (ip_transaction_timeout_ms req)))
          (init_row e (clamp_timeout (ip_transaction_timeout_ms req))) (forget_finished i pid d2)"
      using ok unfolding init_transactional [OF Some Inr] rbind_eq_Inr by (auto split: prod.splits)
    show ?thesis unfolding d(3) by (rule init_transactional_sys [OF inv sz seq d(1,2)])
  qed
qed

subsection \<open>Expiry\<close>

lemma expire_each_sys:
  "expire_each seg_size crc now pids n db = Inr (m, db') \<Longrightarrow> sys_inv seg_size crc env db \<Longrightarrow> 0 < seg_size \<Longrightarrow>
     sys_inv seg_size crc env db'"
proof (induction pids arbitrary: n db)
  case Nil
  then show ?case by simp
next
  case (Cons pid pids)
  show ?case
  proof (cases "\<exists>t. txn_of pid db = Some t \<and> txn_stale now t")
    case False
    then have "expire_each seg_size crc now pids n db = Inr (m, db')" using Cons.prems(1) by (auto split: option.splits if_splits)
    then show ?thesis using Cons by blast
  next
    case True
    then obtain t where t: "txn_of pid db = Some t" "txn_stale now t" by blast
    obtain outcome d where f: "finish_transaction seg_size crc now pid (tx_producer_epoch t) False db = Inr (outcome, d)"
      using Cons.prems(1) t by (auto simp: rbind_eq_Inr)
    have d: "sys_inv seg_size crc env d" by (rule finish_sys [OF Cons.prems(2,3) f])
    show ?thesis
    proof (cases "outcome = Ended")
      case True
      then obtain e d2 where e: "fence pid d = Inr (e, d2)" "expire_each seg_size crc now pids (n + 1) d2 = Inr (m, db')"
        using Cons.prems(1) t f by (auto simp: rbind_eq_Inr)
      have "sys_inv seg_size crc env d2"
        by (rule fence_sys [OF d e(1) finish_closes [OF Cons.prems(2,3) f]]) (simp add: True)
      then show ?thesis using Cons.IH e(2) Cons.prems(3) by blast
    next
      case False
      then have "\<exists>k. expire_each seg_size crc now pids k d = Inr (m, db')"
        using Cons.prems(1) t f by (auto split: finish.splits)
      then show ?thesis using Cons.IH d Cons.prems(3) by blast
    qed
  qed
qed

lemma expire_stale_transactions_sys:
  "expire_stale_transactions seg_size crc now db = Inr (n, db') \<Longrightarrow> sys_inv seg_size crc env db \<Longrightarrow> 0 < seg_size \<Longrightarrow>
     sys_inv seg_size crc env db'"
  unfolding expire_stale_transactions_def Let_def by (rule expire_each_sys)

subsection \<open>Forced markers\<close>

definition force_result :: "bool \<Rightarrow> txn_row \<Rightarrow> txn_row" where
  "force_result committed t = t\<lparr>tx_forced_result :=
     (case tx_forced_result t of None \<Rightarrow> Some committed | Some f \<Rightarrow> Some f)\<rparr>"

text \<open>Settling a transaction with no partition left is what \<open>finish_transaction\<close> does at its end.\<close>

lemma settle_is_ended:
  assumes "\<forall>r \<in> set (lg_txn_partitions db). tp_producer_id r \<noteq> pid"
  shows "settle_txn pid c (settle_offsets now pid c db) = ended_db now pid c db"
proof -
  have "filter (\<lambda>r. tp_producer_id r \<noteq> pid) (lg_txn_partitions db) = lg_txn_partitions (settle_offsets now pid c db)"
    using assms by simp
  then show ?thesis unfolding ended_db_def by (simp only: with_tps_self)
qed

lemma settle_sys:
  assumes inv: "sys_inv seg_size crc env db" and none: "\<forall>r \<in> set (lg_txn_partitions db). tp_producer_id r \<noteq> pid"
  shows "sys_inv seg_size crc env (ended_db now pid c db)"
proof -
  have "broker_inv seg_size crc env (with_tps (lg_txn_partitions db) db)" using sys_broker [OF inv] by simp
  then have "broker_inv seg_size crc env (ended_db now pid c db)"
    unfolding ended_db_def by (rule close_txn_inv) (use none txn_inv_keys [OF sys_txn [OF inv]] in \<open>auto simp: distinct_map_filter\<close>)
  then show ?thesis using ended_coord [OF sys_coord [OF inv]] by (simp add: sys_inv_def)
qed

lemma mark_row_sys:
  assumes inv: "sys_inv seg_size crc env db" and sz: "0 < seg_size" and q: "q \<in> set (lg_txn_partitions db)"
    and m: "append_marker seg_size crc now (tp_producer_id q) epoch (tp_topic q) (tp_partition q) (tp_first_offset q) committed db = Inr d"
  shows "sys_inv seg_size crc env (update_txn (tp_producer_id q) (force_result committed)
     (with_tps (filter (\<lambda>x. x \<noteq> q) (lg_txn_partitions d)) d))"
proof (rule update_txn_sys)
  note am = append_marker_inv [OF sys_broker [OF inv] sz q m]
  show "sys_inv seg_size crc env (with_tps (filter (\<lambda>x. x \<noteq> q) (lg_txn_partitions d)) d)"
    using am(1,2,3) sys_coord [OF inv] by (simp add: sys_inv_def)
qed (simp add: force_result_def)

lemma finish_partition_sys:
  assumes inv: "sys_inv seg_size crc env db" and sz: "0 < seg_size"
    and ok: "finish_partition seg_size crc now pid epoch topic part committed db = Inr (err, db')"
  shows "sys_inv seg_size crc env db'"
proof (cases "db' = db")
  case True
  then show ?thesis using inv by simp
next
  case False
  let ?own = "\<lambda>r. tp_producer_id r = pid \<and> tp_at topic part r"
  obtain t q where t: "txn_of pid db = Some t" and q: "List.find ?own (lg_txn_partitions db) = Some q"
      and st: "tx_state t = TxnOngoing" "\<not> sint epoch < sint (tx_producer_epoch t)"
    using ok False by (auto simp: finish_partition_def Let_def split: option.splits if_splits)
  have qin: "q \<in> set (lg_txn_partitions db)" "?own q" using q by (auto simp: find_Some_iff)
  then have at: "tp_producer_id q = pid" "tp_topic q = topic" "tp_partition q = part" by (simp_all add: tp_at_def)
  have only: "filter (\<lambda>r. \<not> ?own r) (lg_txn_partitions db) = filter (\<lambda>x. x \<noteq> q) (lg_txn_partitions db)"
  proof (rule filter_cong [OF refl])
    fix x assume "x \<in> set (lg_txn_partitions db)"
    then show "(\<not> ?own x) = (x \<noteq> q)"
      using qin tp_key_unique [OF txn_inv_keys [OF sys_txn [OF inv]] qin(1), of x] by (auto simp: tp_at_def)
  qed
  obtain d where d: "append_marker seg_size crc now pid epoch topic part (tp_first_offset q) committed db = Inr d"
    using ok t q st by (auto simp: finish_partition_def Let_def rbind_eq_Inr)
  have tps: "lg_txn_partitions d = lg_txn_partitions db"
    using append_marker_inv(2) [OF sys_broker [OF inv] sz qin(1)] d at by simp
  let ?x = "update_txn pid (force_result committed) (with_tps (filter (\<lambda>x. x \<noteq> q) (lg_txn_partitions d)) d)"
  have x: "sys_inv seg_size crc env ?x" using mark_row_sys [OF inv sz qin(1)] d at by simp
  have res: "(if \<exists>r \<in> set (lg_txn_partitions ?x). tp_producer_id r = pid then Inr (E_None, ?x)
      else rbind (fence pid (settle_txn pid committed (settle_offsets now pid committed ?x))) (\<lambda>(_, db). Inr (E_None, db))) = Inr (err, db')"
    using ok st d unfolding finish_partition_def Let_def t q prod.case option.case force_result_def [abs_def] with_tps_def
    by (simp only: rbind_simps only [folded tps] simp_thms not_True_eq_False if_False)
  show ?thesis
  proof (cases "\<exists>r \<in> set (lg_txn_partitions ?x). tp_producer_id r = pid")
    case True
    then show ?thesis using res x by simp
  next
    case False
    then have none: "\<forall>r \<in> set (lg_txn_partitions ?x). tp_producer_id r \<noteq> pid" by blast
    obtain n where "fence pid (ended_db now pid committed ?x) = Inr (n, db')"
      using res unfolding settle_is_ended [OF none] if_not_P [OF False] rbind_eq_Inr by auto
    then show ?thesis by (rule fence_sys [OF settle_sys [OF x none] _ ended_closed])
  qed
qed

lemma mark_one_sys:
  "sys_inv seg_size crc env db \<Longrightarrow> 0 < seg_size \<Longrightarrow> mark_one seg_size crc now pid epoch name part committed db = Inr (err, db') \<Longrightarrow>
     sys_inv seg_size crc env db'"
  by (auto simp: mark_one_def dest: finish_partition_sys split: option.splits if_splits)

lemma mark_partitions_sys:
  assumes "\<And>p db err db'. mark p db = Inr (err, db') \<Longrightarrow> P db \<Longrightarrow> P db'"
  shows "mark_partitions mark ps db = Inr (rs, db') \<Longrightarrow> P db \<Longrightarrow> P db'"
  by (induction ps arbitrary: db rs) (auto simp: rbind_eq_Inr dest: assms split: sum.splits txn_failure.splits)

lemma mark_topics_sys:
  assumes "\<And>name p db err db'. mark name p db = Inr (err, db') \<Longrightarrow> P db \<Longrightarrow> P db'"
  shows "mark_topics mark ts db = Inr (rs, db') \<Longrightarrow> P db \<Longrightarrow> P db'"
proof (induction ts arbitrary: db rs)
  case (Cons a ts)
  then show ?case using mark_partitions_sys [of "mark (fst a)" P "snd a" db] assms by (cases a) (auto simp: rbind_eq_Inr)
qed simp

lemma mark_all_sys:
  assumes "\<And>m name p db err db'. mark m name p db = Inr (err, db') \<Longrightarrow> P db \<Longrightarrow> P db'"
  shows "mark_all mark ms db = Inr (rs, db') \<Longrightarrow> P db \<Longrightarrow> P db'"
proof (induction ms arbitrary: db rs)
  case (Cons m ms)
  then show ?case using mark_topics_sys [of "mark m" P "tm_topics m" db] assms by (auto simp: rbind_eq_Inr)
qed simp

lemma write_txn_markers_sys:
  assumes "sys_inv seg_size crc env db" and "0 < seg_size" and "write_txn_markers seg_size crc now ms authz db = Inr (rs, db')"
  shows "sys_inv seg_size crc env db'"
proof -
  let ?mark = "\<lambda>m name p db. case authz_check authz ClusterAction Cluster CLUSTER_NAME of
      Inl err \<Rightarrow> Inr (err, db)
    | Inr _ \<Rightarrow> mark_one seg_size crc now (tm_producer_id m) (tm_producer_epoch m) name p (tm_transaction_result m) db"
  have "mark_all ?mark ms db = Inr (rs, db')"
    using assms(3) by (auto simp: write_txn_markers_def Let_def split: sum.splits)
  then show ?thesis
    by (rule mark_all_sys [where P = "sys_inv seg_size crc env", rotated])
      (use assms(1,2) in \<open>auto dest: mark_one_sys split: sum.splits\<close>)
qed

end
