(* ===== verification/Produce_Steps.thy ===== *)
theory Produce_Steps
  imports Broker_Steps
begin

text \<open>
  A produce request keeps \<open>sys_inv\<close>, provided no batch of it claims to be a transaction marker. Deciding
  reads only; reserving leaves every transactional batch of a plan in an open transaction that lists the
  partition; writing relies on that.
\<close>

subsection \<open>What a decision promises\<close>

definition data_batch :: "record_batch \<Rightarrow> bool" where
  "data_batch view \<longleftrightarrow> is_transactional view \<and> \<not> is_control view"

definition decided :: "record_batch \<times> decision \<Rightarrow> bool" where
  "decided b \<longleftrightarrow> (case snd b of
       Plain \<Rightarrow> \<not> data_batch (fst b)
     | Append idem \<Rightarrow> id_producer_id idem = producer_id (fst b) \<and> id_transactional idem = data_batch (fst b)
     | _ \<Rightarrow> True)"

definition admits :: "bytes \<Rightarrow> admitted \<Rightarrow> log_db \<Rightarrow> bool" where
  "admits txn_id ad db \<longleftrightarrow> (\<exists>p. producer_of (ad_producer_id ad) db = Some p
     \<and> pr_transactional_id p = Some txn_id \<and> pr_producer_epoch p = ad_epoch ad)"

definition ready :: "bytes \<Rightarrow> u32 \<Rightarrow> i32 \<Rightarrow> log_db \<Rightarrow> decision \<Rightarrow> bool" where
  "ready txn_id tid index db d \<longleftrightarrow> (\<forall>idem. d = Append idem \<longrightarrow> id_transactional idem \<longrightarrow>
     (case id_adds_partition idem of
        None \<Rightarrow> joined (id_producer_id idem) tid index db
      | Some ad \<Rightarrow> ad_producer_id ad = id_producer_id idem \<and> admits txn_id ad db))"

definition in_txn :: "u32 \<Rightarrow> i32 \<Rightarrow> log_db \<Rightarrow> decision \<Rightarrow> bool" where
  "in_txn tid index db d \<longleftrightarrow> (\<forall>idem. d = Append idem \<longrightarrow> id_transactional idem \<longrightarrow> joined (id_producer_id idem) tid index db)"

definition txn_name :: "bytes option \<Rightarrow> bytes" where
  "txn_name txn_id = (case txn_id of None \<Rightarrow> [] | Some t \<Rightarrow> t)"

lemma decide_after_Inr:
  "decide_after batches prev idem = Inr (Append x) \<Longrightarrow> x = idem" "decide_after batches prev idem \<noteq> Inr Plain"
  by (auto simp: decide_after_def Let_def split: if_splits)

lemma checked_Inr: "checked idem c = Inr (Append x) \<Longrightarrow> x = idem" "checked idem c \<noteq> Inr Plain"
  by (cases c; simp split: if_splits)+

lemma judge_held_added:
  assumes "distinct (map tx_producer_id (txns_of db))" and "judge_held txn_id pid epoch tid index db = (Inr ad, True)"
  shows "joined pid tid index db"
proof -
  have "txn_lists pid tid index db" "map_option (\<lambda>t. (tx_state t, tx_producer_epoch t)) (txn_of pid db) = Some (TxnOngoing, epoch)"
    using assms(2) by (auto simp: judge_held_def admission_def split: if_splits option.splits)
  then show ?thesis using open_txn_of [OF assms(1)] by (auto simp: joined_def)
qed

lemma judge_held_admits:
  "judge_held txn_id pid epoch tid index db = (Inr ad, b) \<Longrightarrow> ad_producer_id ad = pid \<and> admits txn_id ad db"
  by (auto simp: judge_held_def admission_def admits_def split: if_splits option.splits)

lemma verify_added:
  assumes "distinct (map tx_producer_id (txns_of db))" and "verify_held_produce txn_id pid epoch tid index version db = TxnAdded"
  shows "joined pid tid index db"
proof -
  obtain t where t: "txn_id = Some t" using assms(2) by (cases txn_id) (simp_all add: verify_held_produce_def)
  obtain v b where j: "judge_held t pid epoch tid index db = (v, b)" by (cases "judge_held t pid epoch tid index db")
  have "\<exists>ad. v = Inr ad \<and> b"
    using assms(2) t j by (auto simp: verify_held_produce_def elim: produce_verdict.elims split: if_splits)
  then show ?thesis using judge_held_added [OF assms(1)] j by auto
qed

lemma verify_adds:
  assumes "verify_held_produce txn_id pid epoch tid index version db = AddsPartition ad"
  shows "ad_producer_id ad = pid \<and> admits (txn_name txn_id) ad db"
proof -
  obtain t where t: "txn_id = Some t" using assms by (cases txn_id) (simp_all add: verify_held_produce_def)
  obtain v b where j: "judge_held t pid epoch tid index db = (v, b)" by (cases "judge_held t pid epoch tid index db")
  have "v = Inr ad"
    using assms t j by (auto simp: verify_held_produce_def elim: produce_verdict.elims split: if_splits)
  then show ?thesis using judge_held_admits j t by (simp add: txn_name_def)
qed

lemma decide_batch_ok:
  assumes dist: "distinct (map tx_producer_id (txns_of db))"
    and ok: "decide_batch tid index txn_id version db batches view = Inr d"
  shows "decided (view, d) \<and> ready (txn_name txn_id) tid index db d"
proof (cases "producer_id view = NO_PRODUCER_ID \<or> base_sequence view = NO_SEQUENCE")
  case True
  then have "d = Plain \<and> \<not> data_batch view"
    using ok by (auto simp: decide_batch_def Let_def data_batch_def split: if_splits)
  then show ?thesis by (simp add: decided_def ready_def)
next
  case False
  let ?v = "verify_held_produce txn_id (producer_id view) (producer_epoch view) tid index version db"
  obtain adds where adds: "(if data_batch view then (case ?v of TxnAdded \<Rightarrow> Inr None | AddsPartition ad \<Rightarrow> Inr (Some ad)
        | TxnRefused c \<Rightarrow> Inl (AppendTxn c)) else Inr None) = Inr adds"
      and c: "let idem = \<lparr>id_producer_id = producer_id view, id_epoch = producer_epoch view, id_first_seq = base_sequence view,
                      id_last_seq = increment_sequence (base_sequence view) (last_offset_delta view),
                      id_transactional = data_batch view, id_adds_partition = adds\<rparr>
          in (case prior_append (producer_id view) batches of
               Some prev \<Rightarrow> decide_after batches prev idem
             | None \<Rightarrow> checked idem (check (producer_id view) (id_epoch idem) (base_sequence view) (id_last_seq idem) tid index (producer_view db))) = Inr d"
    using ok unfolding decide_batch_def Let_def data_batch_def if_not_P [OF False] rbind_eq_Inr by blast
  define idem where "idem = \<lparr>id_producer_id = producer_id view, id_epoch = producer_epoch view, id_first_seq = base_sequence view,
                      id_last_seq = increment_sequence (base_sequence view) (last_offset_delta view),
                      id_transactional = data_batch view, id_adds_partition = adds\<rparr>"
  have shape: "d \<noteq> Plain" "d = Append x \<Longrightarrow> x = idem" for x
    using c decide_after_Inr checked_Inr unfolding Let_def idem_def [symmetric] by (auto split: option.splits)
  have "case adds of None \<Rightarrow> joined (producer_id view) tid index db
      | Some ad \<Rightarrow> ad_producer_id ad = producer_id view \<and> admits (txn_name txn_id) ad db" if "data_batch view"
  proof (cases ?v)
    case TxnAdded
    then show ?thesis using adds that verify_added [OF dist] by auto
  next
    case (AddsPartition ad)
    then show ?thesis using adds that verify_adds by auto
  qed (use adds that in simp)
  then have "decided (view, Append idem) \<and> ready (txn_name txn_id) tid index db (Append idem)"
    by (cases adds) (auto simp: decided_def ready_def idem_def)
  then show ?thesis using shape by (cases d) (auto simp: decided_def ready_def)
qed

lemma plan_batches_ok:
  assumes "plan_batches tid index txn_id version db items batches = Inr bs" and "distinct (map tx_producer_id (txns_of db))"
    and "\<forall>b \<in> set batches. decided b \<and> ready (txn_name txn_id) tid index db (snd b)"
  shows "\<forall>b \<in> set bs. decided b \<and> ready (txn_name txn_id) tid index db (snd b)"
  using assms
proof (induction items arbitrary: batches)
  case (Cons item items)
  show ?case
  proof (cases item)
    case (Inr view)
    then obtain d where d: "decide_batch tid index txn_id version db batches view = Inr d"
        "plan_batches tid index txn_id version db items (batches @ [(view, d)]) = Inr bs"
      using Cons.prems(1) by (auto simp: rbind_eq_Inr)
    show ?thesis by (rule Cons.IH [OF d(2) Cons.prems(2)]) (use Cons.prems(3) decide_batch_ok [OF Cons.prems(2) d(1)] in auto)
  qed (use Cons.prems in simp)
qed simp

definition plan_ok :: "bytes \<Rightarrow> log_db \<Rightarrow> partition_plan \<Rightarrow> bool" where
  "plan_ok txn_id db plan \<longleftrightarrow> (\<forall>b \<in> set (pl_batches plan). decided b \<and> ready txn_id (pl_tid plan) (pl_index plan) db (snd b))"

lemma plan_partition_ok:
  assumes "plan_partition tid index recs txn_id version db = Inr plan" and "distinct (map tx_producer_id (txns_of db))"
  shows "plan_ok (txn_name txn_id) db plan"
proof (cases "recs = None \<or> recs = Some []")
  case True
  then show ?thesis using assms(1) by (auto simp: plan_partition_def plan_ok_def)
next
  case False
  then obtain bs where "plan_batches tid index txn_id version db (batch_iter (the recs)) [] = Inr bs"
      "plan = \<lparr>pl_tid = tid, pl_index = index, pl_batches = bs\<rparr>"
    using assms(1) by (auto simp: plan_partition_def rbind_eq_Inr split: option.splits)
  then show ?thesis using plan_batches_ok [OF _ assms(2)] by (simp add: plan_ok_def)
qed

lemma plan_entry_ok:
  assumes "en_plan (plan_entry env crc req version authz db topic pd) = Inr plan" and "distinct (map tx_producer_id (txns_of db))"
  shows "plan_ok (txn_name (pq_transactional_id req)) db plan"
proof -
  obtain tid where "plan_partition tid (pp_index pd) (pp_records pd) (pq_transactional_id req) version db = Inr plan"
    using assms(1) by (auto simp: plan_entry_def Let_def split: sum.splits option.splits if_splits)
  then show ?thesis by (rule plan_partition_ok [OF _ assms(2)])
qed

subsection \<open>Reserving\<close>

definition same_producers :: "log_db \<Rightarrow> log_db \<Rightarrow> bool" where
  "same_producers db db' \<longleftrightarrow> (\<forall>txn_id ad. admits txn_id ad db \<longrightarrow> admits txn_id ad db')"

lemma same_producers_refl [simp]: "same_producers db db"
  by (simp add: same_producers_def)

lemma same_producers_trans: "same_producers a b \<Longrightarrow> same_producers b c \<Longrightarrow> same_producers a c"
  by (simp add: same_producers_def)

lemma ready_mono:
  "ready txn_id tid index db d \<Longrightarrow> keeps_open db db' \<Longrightarrow> same_producers db db' \<Longrightarrow> ready txn_id tid index db' d"
  by (auto simp: ready_def same_producers_def dest: keeps_openD split: option.splits)

lemma in_txn_mono: "in_txn tid index db d \<Longrightarrow> keeps_open db db' \<Longrightarrow> in_txn tid index db' d"
  by (auto simp: in_txn_def dest: keeps_openD)

lemma admits_map:
  assumes "db_producers (lg_producer db') = map f (db_producers (lg_producer db))"
    and "\<And>p. pr_producer_id (f p) = pr_producer_id p \<and> pr_transactional_id (f p) = pr_transactional_id p
      \<and> pr_producer_epoch (f p) = pr_producer_epoch p"
  shows "same_producers db db'"
proof -
  have "producer_of pid db' = map_option f (producer_of pid db)" for pid
    by (rule producer_of_map [OF assms(1)]) (simp add: assms(2))
  then show ?thesis by (auto simp: same_producers_def admits_def assms(2))
qed

lemma begin_same_producers: "same_producers db (begin_or_continue now ad txn_id db)"
proof (rule admits_map [where f = "\<lambda>r. if pr_producer_id r = ad_producer_id ad then r\<lparr>pr_last_ts := now\<rparr> else r"])
  show "db_producers (lg_producer (begin_or_continue now ad txn_id db)) =
      map (\<lambda>r. if pr_producer_id r = ad_producer_id ad then r\<lparr>pr_last_ts := now\<rparr> else r) (db_producers (lg_producer db))"
    by (simp add: begin_or_continue_def Let_def update_producers_def)
qed simp

text \<open>The statements on the window leave the coordinator's rows as they are, but for \<open>last_ts\<close>.\<close>

definition touched :: "int \<Rightarrow> i64 \<Rightarrow> producer_row \<Rightarrow> producer_row" where
  "touched now pid r = (if pr_producer_id r = pid \<and> pr_last_ts r < now - LAST_TS_GRANULARITY_MS then r\<lparr>pr_last_ts := now\<rparr> else r)"

lemma touched_fields [simp]:
  "pr_producer_id (touched now pid r) = pr_producer_id r" "pr_transactional_id (touched now pid r) = pr_transactional_id r"
  "pr_producer_epoch (touched now pid r) = pr_producer_epoch r"
  by (simp_all add: touched_def)

lemma record_fields:
  "db_producers (record_batch_seq now pid epoch tid index first_seq last_seq off pdb) = map (touched now pid) (db_producers pdb)"
  "db_txns (record_batch_seq now pid epoch tid index first_seq last_seq off pdb) = db_txns pdb"
  "db_producer_id_seq (record_batch_seq now pid epoch tid index first_seq last_seq off pdb) = db_producer_id_seq pdb"
  by (simp_all add: record_batch_seq_def touch_producer_def prune_batches_def upsert_batch_def Let_def touched_def [abs_def])

lemma window_sys:
  assumes inv: "sys_inv seg_size crc env db" and ps: "db_producers pdb = map (touched now pid) (db_producers (lg_producer db))"
    and same: "db_txns pdb = db_txns (lg_producer db)" "db_producer_id_seq pdb = db_producer_id_seq (lg_producer db)"
  shows "sys_inv seg_size crc env (db\<lparr>lg_producer := pdb\<rparr>)" and "keeps_open db (db\<lparr>lg_producer := pdb\<rparr>)"
    and "same_producers db (db\<lparr>lg_producer := pdb\<rparr>)"
proof -
  show "sys_inv seg_size crc env (db\<lparr>lg_producer := pdb\<rparr>)"
  proof (rule producer_frame [OF inv])
    show "coord_inv pdb"
      by (rule coord_update [OF sys_coord [OF inv] ps, where g = id]) (simp_all add: same agrees_def)
  qed (simp add: has_open_txn_def same)
  show "keeps_open db (db\<lparr>lg_producer := pdb\<rparr>)"
    by (simp add: keeps_open_def joined_def txn_lists_def has_open_txn_def same)
  show "same_producers db (db\<lparr>lg_producer := pdb\<rparr>)"
    by (rule admits_map [where f = "touched now pid"]) (simp_all add: ps)
qed

lemma register_sys:
  assumes inv: "sys_inv seg_size crc env db" and op: "has_open_txn (lg_producer db) pid"
  shows "sys_inv seg_size crc env (register_txn_partition pid tid index (- 1) db)" (is "sys_inv _ _ _ ?db")
    and "keeps_open db (register_txn_partition pid tid index (- 1) db)"
    and "joined pid tid index (register_txn_partition pid tid index (- 1) db)"
    and "same_producers db (register_txn_partition pid tid index (- 1) db)"
proof -
  define f :: "txn_partition_row \<Rightarrow> txn_partition_row" where
    "f r = (if (tp_producer_id r = pid \<and> tp_at tid index r) \<and> tp_first_offset r < 0 then r\<lparr>tp_first_offset := - 1\<rparr> else r)" for r
  let ?new = "\<lparr>tp_producer_id = pid, tp_topic = tid, tp_partition = index, tp_first_offset = - 1\<rparr>"
  have eq: "?db = db\<lparr>lg_txn_partitions := (if txn_lists pid tid index db then map f (lg_txn_partitions db) else lg_txn_partitions db @ [?new])\<rparr>"
    by (simp add: register_txn_partition_def Let_def txn_lists_def f_def [abs_def])
  have key: "tp_key (f r) = tp_key r" "tp_producer_id (f r) = tp_producer_id r" "tp_topic (f r) = tp_topic r"
      "tp_partition (f r) = tp_partition r" for r by (simp_all add: f_def tp_key_def)
  have fixed: "0 \<le> tp_first_offset r \<Longrightarrow> f r = r" "0 \<le> tp_first_offset (f r) \<Longrightarrow> f r = r" for r by (simp_all add: f_def split: if_splits)
  have lists: "txn_lists x t k ?db \<longleftrightarrow> txn_lists x t k db \<or> (x = pid \<and> t = tid \<and> k = index)" for x t k
  proof (cases "txn_lists pid tid index db")
    case True
    have "txn_lists x t k ?db \<longleftrightarrow> txn_lists x t k db" using True by (simp add: eq txn_lists_def tp_at_def key)
    then show ?thesis using True by blast
  next
    case False
    then show ?thesis by (auto simp: eq txn_lists_def tp_at_def)
  qed
  have prod: "lg_producer ?db = lg_producer db" by (simp add: eq)
  show "keeps_open db ?db" by (simp add: keeps_open_def joined_def prod lists)
  show "joined pid tid index ?db" using op by (simp add: joined_def prod lists)
  show "same_producers db ?db" by (simp add: same_producers_def admits_def producer_of_def prod)
  show "sys_inv seg_size crc env ?db"
  proof (rule sys_frame [OF inv])
    show "distinct (map tp_key (lg_txn_partitions ?db))"
    proof (cases "txn_lists pid tid index db")
      case True
      then show ?thesis using txn_inv_keys [OF sys_txn [OF inv]] by (simp add: eq key comp_def)
    next
      case False
      then show ?thesis using txn_inv_keys [OF sys_txn [OF inv]] by (auto simp: eq tp_key_def txn_lists_def tp_at_def)
    qed
    show "q \<in> set (lg_txn_partitions db)" if q: "q \<in> set (lg_txn_partitions ?db)" "0 \<le> tp_first_offset q" for q
      using q by (auto simp: eq dest: fixed(2) split: if_splits)
    show "q \<in> set (lg_txn_partitions ?db) \<and> has_open_txn (lg_producer ?db) (tp_producer_id q)"
      if q: "q \<in> set (lg_txn_partitions db)" "has_open_txn (lg_producer db) (tp_producer_id q)" "0 \<le> tp_first_offset q" for q
      using q fixed(1) [OF q(3)] by (auto simp: eq intro: image_eqI [of _ f q])
  qed (use sys_coord [OF inv] in \<open>simp_all add: eq\<close>)
qed

text \<open>One decision's reservation: its window row, and for the first of a producer the registration.\<close>

lemma begin_ready:
  assumes inv: "sys_inv seg_size crc env db" and a: "admits txn_id ad db"
  shows "sys_inv seg_size crc env (begin_or_continue now ad txn_id db)" "keeps_open db (begin_or_continue now ad txn_id db)"
    and "has_open_txn (lg_producer (begin_or_continue now ad txn_id db)) (ad_producer_id ad)"
  using a begin_sys [OF inv, of ad _ txn_id now] by (auto simp: admits_def)

definition reserved :: "log_db \<Rightarrow> i64 list \<Rightarrow> log_db \<Rightarrow> bool" where
  "reserved db begun' db' \<longleftrightarrow> keeps_open db db' \<and> same_producers db db'
     \<and> (\<forall>pid \<in> set begun'. has_open_txn (lg_producer db') pid)"

lemma register_step:
  assumes inv: "sys_inv seg_size crc env db" and ok: "ready txn_id tid index db (Append idem)" "id_transactional idem"
    and begun: "\<And>pid. pid \<in> set begun \<Longrightarrow> has_open_txn (lg_producer db) pid"
    and r: "(case id_adds_partition idem of
               Some ad \<Rightarrow> if id_producer_id idem \<in> set begun then (begun, db)
                          else (begun @ [id_producer_id idem], begin_or_continue now ad txn_id db)
             | None \<Rightarrow> (begun, db)) = (begun', d)"
  shows "sys_inv seg_size crc env (register_txn_partition (id_producer_id idem) tid index (- 1) d)" (is "sys_inv _ _ _ ?db")
    and "joined (id_producer_id idem) tid index (register_txn_partition (id_producer_id idem) tid index (- 1) d)"
    and "reserved db begun' (register_txn_partition (id_producer_id idem) tid index (- 1) d)"
proof -
  let ?pid = "id_producer_id idem"
  have "sys_inv seg_size crc env d \<and> keeps_open db d \<and> same_producers db d \<and> has_open_txn (lg_producer d) ?pid
      \<and> (\<forall>pid \<in> set begun'. has_open_txn (lg_producer d) pid)"
  proof (cases "id_adds_partition idem = None \<or> ?pid \<in> set begun")
    case True
    then have "begun' = begun" "d = db" using r by (auto split: option.splits)
    moreover have "has_open_txn (lg_producer db) ?pid" using True ok begun by (auto simp: ready_def joined_def)
    ultimately show ?thesis using inv begun by simp
  next
    case False
    then obtain ad where ad: "id_adds_partition idem = Some ad" "?pid \<notin> set begun" by auto
    then have d: "begun' = begun @ [?pid]" "d = begin_or_continue now ad txn_id db" using r by auto
    have a: "ad_producer_id ad = ?pid" "admits txn_id ad db" using ok ad by (auto simp: ready_def)
    note b = begin_ready [OF inv a(2), of now]
    show ?thesis using b a(1) begin_same_producers begun keeps_openD(2) [OF b(2)] by (auto simp: d)
  qed
  then have d: "sys_inv seg_size crc env d" "keeps_open db d" "same_producers db d" "has_open_txn (lg_producer d) ?pid"
      "\<And>pid. pid \<in> set begun' \<Longrightarrow> has_open_txn (lg_producer d) pid" by blast+
  note rg = register_sys [OF d(1,4), of tid index]
  show "sys_inv seg_size crc env ?db" "joined ?pid tid index ?db" using rg(1,3) by simp_all
  show "reserved db begun' ?db" unfolding reserved_def
    using keeps_open_trans [OF d(2) rg(2)] same_producers_trans [OF d(3) rg(4)] d(5) keeps_openD(2) [OF rg(2)] by blast
qed

lemma reserved_refl: "(\<And>pid. pid \<in> set begun \<Longrightarrow> has_open_txn (lg_producer db) pid) \<Longrightarrow> reserved db begun db"
  by (simp add: reserved_def)

lemma reserved_trans: "reserved d0 b1 d1 \<Longrightarrow> reserved d1 b2 d2 \<Longrightarrow> reserved d0 b2 d2"
  by (auto simp: reserved_def intro: keeps_open_trans same_producers_trans)

lemma reserve_batches_sys:
  assumes "reserve_batches now tid index txn_id ds registered begun db = (begun', db')" and "sys_inv seg_size crc env db"
    and "\<forall>d \<in> set ds. ready txn_id tid index db d" and "\<forall>pid \<in> set registered. joined pid tid index db"
    and "\<forall>pid \<in> set begun. has_open_txn (lg_producer db) pid"
  shows "sys_inv seg_size crc env db' \<and> reserved db begun' db' \<and> (\<forall>d \<in> set ds. in_txn tid index db' d)"
  using assms
proof (induction ds arbitrary: registered begun db)
  case Nil
  then show ?case by (auto simp: reserved_def)
next
  case (Cons d ds)
  show ?case
  proof (cases "\<exists>idem. d = Append idem")
    case False
    then have "reserve_batches now tid index txn_id ds registered begun db = (begun', db')" using Cons.prems(1) by (cases d) simp_all
    moreover have "in_txn tid index db' d" using False by (auto simp: in_txn_def)
    ultimately show ?thesis using Cons.IH [of registered begun db] Cons.prems by simp
  next
    case True
    then obtain idem where d: "d = Append idem" by blast
    let ?pid = "id_producer_id idem"
    let ?d1 = "db\<lparr>lg_producer := record_batch_seq now ?pid (id_epoch idem) tid index (id_first_seq idem) (id_last_seq idem) (- 1) (lg_producer db)\<rparr>"
    note w = window_sys [OF Cons.prems(2) record_fields(1) record_fields(2,3)]
    have sys1: "sys_inv seg_size crc env ?d1" and keep1: "keeps_open db ?d1" and same1: "same_producers db ?d1" by (rule w)+
    have ready1: "\<forall>x \<in> set (d # ds). ready txn_id tid index ?d1 x" using Cons.prems(3) ready_mono [OF _ keep1 same1] by blast
    have reg1: "\<forall>pid \<in> set registered. joined pid tid index ?d1" using Cons.prems(4) keeps_openD(1) [OF keep1] by blast
    have begun1: "\<forall>pid \<in> set begun. has_open_txn (lg_producer ?d1) pid" using Cons.prems(5) keeps_openD(2) [OF keep1] by blast
    have res1: "reserved db begun ?d1" unfolding reserved_def using keep1 same1 begun1 by blast
    show ?thesis
    proof (cases "id_transactional idem \<and> ?pid \<notin> set registered")
      case False
      then have r: "reserve_batches now tid index txn_id ds registered begun ?d1 = (begun', db')"
        using Cons.prems(1) unfolding d reserve_batches.simps Let_def if_not_P [OF False] by blast
      have IH: "sys_inv seg_size crc env db'" "reserved ?d1 begun' db'" "\<forall>d \<in> set ds. in_txn tid index db' d"
        using Cons.IH [OF r sys1 _ reg1 begun1] ready1 by auto
      have "in_txn tid index ?d1 d" using False reg1 by (auto simp: in_txn_def d)
      then have "in_txn tid index db' d" using IH(2) in_txn_mono by (auto simp: reserved_def)
      then show ?thesis using IH reserved_trans [OF res1 IH(2)] by simp
    next
      case True
      obtain begun2 d2 where b2: "(case id_adds_partition idem of
               Some ad \<Rightarrow> if ?pid \<in> set begun then (begun, ?d1) else (begun @ [?pid], begin_or_continue now ad txn_id ?d1)
             | None \<Rightarrow> (begun, ?d1)) = (begun2, d2)" by fastforce
      let ?d3 = "register_txn_partition ?pid tid index (- 1) d2"
      have r: "reserve_batches now tid index txn_id ds (registered @ [?pid]) begun2 ?d3 = (begun', db')"
        using Cons.prems(1) unfolding d reserve_batches.simps Let_def if_P [OF True] b2 prod.case by blast
      note rs = register_step [OF sys1 _ conjunct1 [OF True] _ b2]
      have sys3: "sys_inv seg_size crc env ?d3" and join3: "joined ?pid tid index ?d3" and res3: "reserved ?d1 begun2 ?d3"
        using rs ready1 begun1 by (auto simp: d)
      have IH: "sys_inv seg_size crc env db'" "reserved ?d3 begun' db'" "\<forall>d \<in> set ds. in_txn tid index db' d"
        using Cons.IH [OF r sys3] ready1 reg1 join3 res3 ready_mono [of txn_id tid index ?d1 _ ?d3] keeps_openD(1) [of ?d1 ?d3]
        unfolding reserved_def by auto
      have "in_txn tid index ?d3 d" using join3 by (auto simp: in_txn_def d)
      then have "in_txn tid index db' d" using IH(2) in_txn_mono by (auto simp: reserved_def)
      then show ?thesis using IH reserved_trans [OF reserved_trans [OF res1 res3] IH(2)] by simp
    qed
  qed
qed

definition plan_in_txn :: "log_db \<Rightarrow> partition_plan \<Rightarrow> bool" where
  "plan_in_txn db plan \<longleftrightarrow> (\<forall>b \<in> set (pl_batches plan). decided b \<and> in_txn (pl_tid plan) (pl_index plan) db (snd b))"

lemma plan_ok_mono: "plan_ok txn_id db plan \<Longrightarrow> keeps_open db db' \<Longrightarrow> same_producers db db' \<Longrightarrow> plan_ok txn_id db' plan"
  by (auto simp: plan_ok_def intro: ready_mono)

lemma plan_in_txn_mono: "plan_in_txn db plan \<Longrightarrow> keeps_open db db' \<Longrightarrow> plan_in_txn db' plan"
  by (auto simp: plan_in_txn_def intro: in_txn_mono)

lemma reserve_partition_sys:
  assumes "reserve_partition now plan txn_id begun db = (begun', db')" and "sys_inv seg_size crc env db"
    and "plan_ok (txn_name txn_id) db plan" and "\<forall>pid \<in> set begun. has_open_txn (lg_producer db) pid"
  shows "sys_inv seg_size crc env db'" and "reserved db begun' db'" and "plan_in_txn db' plan"
  using reserve_batches_sys [OF assms(1) [unfolded reserve_partition_def txn_name_def [symmetric]] assms(2)] assms(3,4)
  by (auto simp: plan_ok_def plan_in_txn_def)

lemma reserve_all_sys:
  assumes "sys_inv seg_size crc env db" and "\<forall>p \<in> set ps. plan_ok (txn_name txn_id) db p"
    and "\<forall>pid \<in> set begun. has_open_txn (lg_producer db) pid"
  shows "sys_inv seg_size crc env (reserve_all now txn_id ps begun db)
    \<and> keeps_open db (reserve_all now txn_id ps begun db)
    \<and> (\<forall>p \<in> set ps. plan_in_txn (reserve_all now txn_id ps begun db) p)"
  using assms
proof (induction ps arbitrary: begun db)
  case (Cons p ps)
  obtain begun1 d where r: "reserve_partition now p txn_id begun db = (begun1, d)" by fastforce
  have pk: "plan_ok (txn_name txn_id) db p" using Cons.prems(2) by simp
  note rp = reserve_partition_sys [OF r Cons.prems(1) pk Cons.prems(3)]
  have k: "keeps_open db d" "same_producers db d" "\<forall>pid \<in> set begun1. has_open_txn (lg_producer d) pid"
    using rp(2) by (auto simp: reserved_def)
  have "\<forall>p \<in> set ps. plan_ok (txn_name txn_id) d p" using Cons.prems(2) plan_ok_mono [OF _ k(1,2)] by simp
  note IH = Cons.IH [OF rp(1) this k(3)]
  show ?case using IH r keeps_open_trans [OF k(1)] plan_in_txn_mono [OF rp(3)] by auto
qed simp

subsection \<open>Writing\<close>

lemma stamped_tps:
  "stamp_txn_partition pid tid index off db =
     with_tps (map (\<lambda>r. if tp_producer_id r = pid \<and> tp_at tid index r \<and> tp_first_offset r < 0
        then r\<lparr>tp_first_offset := off\<rparr> else r) (lg_txn_partitions db)) db"
  by (simp add: stamp_txn_partition_def with_tps_def)

lemma raw_appendable:
  "validated crc (rb_bytes (raw_batch_of view)) = Inr vb \<Longrightarrow> appendable crc (raw_batch_of view)"
  by (cases view) (simp add: appendable_def raw_batch_of_def validated_Inr_iff)

text \<open>One batch appended, with the first offset of its transaction stamped.\<close>

definition first_landed :: "u32 \<Rightarrow> i32 \<Rightarrow> decision \<Rightarrow> txn_partition_row \<Rightarrow> bool" where
  "first_landed tid index d q \<longleftrightarrow> (\<exists>idem. d = Append idem \<and> id_transactional idem \<and> tp_producer_id q = id_producer_id idem)
     \<and> tp_at tid index q \<and> tp_first_offset q < 0"

lemma append_batch_sys:
  assumes inv: "sys_inv seg_size crc env db" and sz: "0 < seg_size"
    and d: "decided (view, d)" "in_txn tid index db d" "\<And>b. d \<noteq> Duplicate b" "\<And>j. d \<noteq> DuplicateOf j"
    and plain: "\<not> is_control view"
    and ok: "append seg_size crc now tid index (raw_batch_of view) db = Inr (off, d1)"
  shows "sys_inv seg_size crc env (with_tps (map (\<lambda>q. if first_landed tid index d q then q\<lparr>tp_first_offset := off\<rparr> else q) (lg_txn_partitions d1)) d1)"
    (is "sys_inv _ _ _ ?db")
    and "keeps_open db (with_tps (map (\<lambda>q. if first_landed tid index d q then q\<lparr>tp_first_offset := off\<rparr> else q) (lg_txn_partitions d1)) d1)"
proof -
  obtain p where p: "find_partition tid index db = Inr p" and off: "off = pt_next_offset p"
      and v: "validated crc (rb_bytes (raw_batch_of view)) = Inr (ValidatedBatch (RecordBatch (rb_bytes (raw_batch_of view))))"
      and d1: "d1 = append_effect seg_size tid index (appended_row now tid index (raw_batch_of view) p) db"
    using append_cases [OF sys_log [OF inv] ok] by blast
  let ?r = "appended_row now tid index (raw_batch_of view) p"
  note linv = sys_log [OF inv] and app = raw_appendable [OF v]
  have span: "lr_base ?r \<le> lr_last ?r" using appendable_delta [OF app] by simp
  have fresh: "fresh_row db ?r" and ext: "extends db ?r (append_effect seg_size tid index ?r db)"
    by (rule append_fresh [OF linv p]; use span in simp)+
  have pin: "p \<in> set (lg_partitions db)" using p by (simp add: find_partition_iff [OF log_inv_partitions [OF linv]])
  have base: "0 \<le> lr_base ?r" using log_inv_partitions [OF linv] pin by (auto simp: partitions_ok_def)
  have fields: "lr_is_control ?r = False" "data_row ?r = data_batch view" "lr_producer_id ?r = Some (producer_id view)"
    using plain by (simp_all add: raw_batch_of_def data_row_def data_batch_def)
  have idem: "\<exists>idem. d = Append idem \<and> id_transactional idem \<and> id_producer_id idem = producer_id view" if "data_batch view"
    using d(1,3,4) that by (cases d) (auto simp: decided_def)
  have own: "id_producer_id idem = producer_id view" if "d = Append idem" for idem using d(1) that by (simp add: decided_def)
  have tps: "lg_txn_partitions d1 = lg_txn_partitions db" by (simp add: d1)
  have dinv: "log_inv seg_size crc d1" unfolding d1 by (rule append_spec(2) [OF linv sz p app])
  have einv: "epoch_inv d1" unfolding d1
    by (rule append_epoch_inv [OF linv sys_epoch [OF inv] p]) (use span in \<open>simp_all add: lr_at_def\<close>)
  have "txn_inv env ?db"
  proof (rule append_row_inv [OF sys_txn [OF inv] fresh, where chosen = "first_landed tid index d"])
    show "extends db ?r ?db" using ext by (simp add: extends_def d1)
    show "tp_first_offset q < 0 \<and> Some (tp_producer_id q) = lr_producer_id ?r \<and> tp_at (lr_topic ?r) (lr_partition ?r) q"
      if "first_landed tid index d q" for q
      using that own by (auto simp: first_landed_def raw_batch_of_def)
    show "\<exists>q \<in> set (lg_txn_partitions db). Some (tp_producer_id q) = lr_producer_id ?r \<and> tp_at (lr_topic ?r) (lr_partition ?r) q
        \<and> has_open_txn (lg_producer db) (tp_producer_id q) \<and> (tp_first_offset q < 0 \<longrightarrow> first_landed tid index d q)" if dr: "data_row ?r"
    proof -
      obtain i where i: "d = Append i" "id_transactional i" "id_producer_id i = producer_id view" using idem dr fields(2) by blast
      then have "joined (producer_id view) tid index db" using d(2) by (auto simp: in_txn_def)
      then show ?thesis using i unfolding joined_def txn_lists_def fields(3) by (auto simp: first_landed_def)
    qed
    show "lg_txn_partitions ?db = map (\<lambda>q. if first_landed tid index d q then q\<lparr>tp_first_offset := lr_base ?r\<rparr> else q) (lg_txn_partitions db)"
      by (simp add: tps off)
  qed (use base in \<open>simp_all add: d1 fields del: appended_row_fields(8)\<close>)
  then show "sys_inv seg_size crc env ?db"
    using log_inv_cong [OF dinv, of ?db] epoch_inv_cong [OF einv, of ?db] sys_coord [OF inv]
    by (simp add: sys_inv_def broker_inv_def d1)
  have "txn_lists x t k ?db = txn_lists x t k db" for x t k
    by (auto simp: txn_lists_def tps tp_at_def split: if_splits)
  then show "keeps_open db ?db" by (simp add: keeps_open_def joined_def d1)
qed

text \<open>The window statements of this phase touch only the rows of the window.\<close>

lemma batches_sys:
  assumes inv: "sys_inv seg_size crc env db"
    and same: "db_producers pdb = db_producers (lg_producer db)" "db_txns pdb = db_txns (lg_producer db)"
      "db_producer_id_seq pdb = db_producer_id_seq (lg_producer db)"
  shows "sys_inv seg_size crc env (db\<lparr>lg_producer := pdb\<rparr>)" and "keeps_open db (db\<lparr>lg_producer := pdb\<rparr>)"
proof -
  show "sys_inv seg_size crc env (db\<lparr>lg_producer := pdb\<rparr>)"
    by (rule producer_frame [OF inv coord_same [OF sys_coord [OF inv] same]]) (simp add: has_open_txn_def same)
  show "keeps_open db (db\<lparr>lg_producer := pdb\<rparr>)"
    by (simp add: keeps_open_def joined_def txn_lists_def has_open_txn_def same)
qed

lemma release_reservations_sys:
  "sys_inv seg_size crc env db \<Longrightarrow> sys_inv seg_size crc env (release_reservations tid index ds db)
     \<and> keeps_open db (release_reservations tid index ds db)"
proof (induction tid index ds db rule: release_reservations.induct)
  case (2 tid index idem ds db)
  let ?d = "db\<lparr>lg_producer := release_batch (id_producer_id idem) tid index (id_first_seq idem) (lg_producer db)\<rparr>"
  have d: "sys_inv seg_size crc env ?d" "keeps_open db ?d" by (rule batches_sys [OF "2.prems"]; simp add: release_batch_def)+
  then show ?case using "2.IH" [OF d(1)] keeps_open_trans [OF d(2)] by simp
qed simp_all

lemma stamp_offset_eq:
  assumes "\<And>b. d \<noteq> Duplicate b" "\<And>j. d \<noteq> DuplicateOf j"
  shows "\<exists>pdb. stamp_offset tid index d off db = (with_tps (map (\<lambda>q. if first_landed tid index d q then q\<lparr>tp_first_offset := off\<rparr> else q)
      (lg_txn_partitions db)) db)\<lparr>lg_producer := pdb\<rparr> \<and> db_producers pdb = db_producers (lg_producer db)
      \<and> db_txns pdb = db_txns (lg_producer db) \<and> db_producer_id_seq pdb = db_producer_id_seq (lg_producer db)"
proof (cases d)
  case Plain
  then show ?thesis by (intro exI [of _ "lg_producer db"]) (simp add: stamp_offset_def first_landed_def with_tps_def)
next
  case (Append idem)
  then show ?thesis
    by (intro exI [of _ "stamp_batch (id_producer_id idem) tid index (id_first_seq idem) (word_of_int off) (lg_producer db)"])
      (simp add: stamp_offset_def Let_def stamped_tps first_landed_def with_tps_def stamp_batch_def conj_assoc)
qed (use assms in simp_all)

lemma write_step_sys:
  assumes inv: "sys_inv seg_size crc env db" and sz: "0 < seg_size"
    and d: "decided (view, d)" "in_txn tid index db d" "\<And>b. d \<noteq> Duplicate b" "\<And>j. d \<noteq> DuplicateOf j" and plain: "\<not> is_control view"
    and ok: "append seg_size crc now tid index (raw_batch_of view) db = Inr (off, d1)"
  shows "sys_inv seg_size crc env (stamp_offset tid index d off d1)" and "keeps_open db (stamp_offset tid index d off d1)"
proof -
  let ?x = "with_tps (map (\<lambda>q. if first_landed tid index d q then q\<lparr>tp_first_offset := off\<rparr> else q) (lg_txn_partitions d1)) d1"
  note ab = append_batch_sys [OF inv sz d plain ok]
  obtain pdb where p: "stamp_offset tid index d off d1 = ?x\<lparr>lg_producer := pdb\<rparr>" "db_producers pdb = db_producers (lg_producer ?x)"
      "db_txns pdb = db_txns (lg_producer ?x)" "db_producer_id_seq pdb = db_producer_id_seq (lg_producer ?x)"
    using stamp_offset_eq [OF d(3,4), of tid index off d1] by auto
  note bs = batches_sys [OF ab(1) p(2-4)]
  show "sys_inv seg_size crc env (stamp_offset tid index d off d1)" unfolding p(1) by (rule bs(1))
  show "keeps_open db (stamp_offset tid index d off d1)" unfolding p(1) by (rule keeps_open_trans [OF ab(2) bs(2)])
qed

lemma write_batches_sys:
  assumes "write_batches seg_size crc now tid index bs assigned base wrote db = (outcome, db')" and "sys_inv seg_size crc env db"
    and "0 < seg_size" and "\<forall>b \<in> set bs. decided b \<and> in_txn tid index db (snd b) \<and> \<not> is_control (fst b)"
  shows "sys_inv seg_size crc env db' \<and> keeps_open db db'"
  using assms
proof (induction bs arbitrary: assigned base wrote db)
  case Nil
  then show ?case by (auto split: option.splits sum.splits)
next
  case (Cons b bs)
  obtain view d where b: "b = (view, d)" by fastforce
  have here: "decided (view, d)" "in_txn tid index db d" "\<not> is_control view" using Cons.prems(4) by (simp_all add: b)
  show ?case
  proof (cases "(\<exists>x. d = Duplicate x) \<or> (\<exists>j. d = DuplicateOf j)")
    case True
    then obtain assigned' base' where "write_batches seg_size crc now tid index bs assigned' base' wrote db = (outcome, db')"
      using Cons.prems(1) unfolding b by auto
    then show ?thesis using Cons.IH Cons.prems by simp
  next
    case False
    then have nd: "d \<noteq> Duplicate x" "d \<noteq> DuplicateOf j" for x j by auto
    have w: "write_batches seg_size crc now tid index (b # bs) assigned base wrote db =
        (case append seg_size crc now tid index (raw_batch_of view) db of
        Inl e \<Rightarrow> (Inl (AppendStore e), release_reservations tid index (d # map snd bs) db)
      | Inr (off, db) \<Rightarrow>
          write_batches seg_size crc now tid index bs (assigned @ [Some off]) (get_or_insert base off) True
            (stamp_offset tid index d off db))" unfolding b
      by (rule decision.exhaust [of d]) (use nd in \<open>simp_all split: sum.split prod.split\<close>)
    show ?thesis
    proof (cases "append seg_size crc now tid index (raw_batch_of view) db")
      case (Inl e)
      then have "db' = release_reservations tid index (d # map snd bs) db" using Cons.prems(1) w by simp
      then show ?thesis using release_reservations_sys [OF Cons.prems(2), of tid index "d # map snd bs"] by metis
    next
      case (Inr r)
      obtain off d1 where r: "r = (off, d1)" by fastforce
      note st = write_step_sys [OF Cons.prems(2,3) here(1,2) nd here(3) Inr [unfolded r]]
      have "write_batches seg_size crc now tid index bs (assigned @ [Some off]) (get_or_insert base off) True (stamp_offset tid index d off d1) = (outcome, db')"
        using Cons.prems(1) unfolding w Inr r by simp
      moreover have "\<forall>b \<in> set bs. decided b \<and> in_txn tid index (stamp_offset tid index d off d1) (snd b) \<and> \<not> is_control (fst b)"
        using Cons.prems(4) in_txn_mono [OF _ st(2)] by auto
      ultimately show ?thesis using Cons.IH [OF _ st(1) Cons.prems(3)] keeps_open_trans [OF st(2)] by blast
    qed
  qed
qed

subsection \<open>The request\<close>

text \<open>No batch of the request carries the control attribute.\<close>

definition client_batches :: "produce_request \<Rightarrow> bool" where
  "client_batches req \<longleftrightarrow> (\<forall>t \<in> set (pq_topics req). \<forall>pd \<in> set (pd_partitions t). \<forall>bs view.
     pp_records pd = Some bs \<longrightarrow> Inr view \<in> set (batch_iter bs) \<longrightarrow> \<not> is_control view)"

definition plan_plain :: "partition_plan \<Rightarrow> bool" where
  "plan_plain plan \<longleftrightarrow> (\<forall>b \<in> set (pl_batches plan). \<not> is_control (fst b))"

lemma plan_batches_views:
  "plan_batches tid index txn_id version db items batches = Inr bs \<Longrightarrow> b \<in> set bs \<Longrightarrow> b \<in> set batches \<or> Inr (fst b) \<in> set items"
proof (induction items arbitrary: batches)
  case (Cons item items)
  show ?case
  proof (cases item)
    case (Inr view)
    then obtain d where "plan_batches tid index txn_id version db items (batches @ [(view, d)]) = Inr bs"
      using Cons.prems(1) by (auto simp: rbind_eq_Inr)
    then show ?thesis using Cons.IH Cons.prems(2) Inr by fastforce
  qed (use Cons.prems in simp)
qed simp

lemma plan_partition_plain:
  assumes "plan_partition tid index recs txn_id version db = Inr plan"
    and "\<And>bs view. recs = Some bs \<Longrightarrow> Inr view \<in> set (batch_iter bs) \<Longrightarrow> \<not> is_control view"
  shows "plan_plain plan"
proof (cases "recs = None \<or> recs = Some []")
  case True
  then show ?thesis using assms(1) by (auto simp: plan_partition_def plan_plain_def)
next
  case False
  then obtain x bs where x: "recs = Some x" "plan_batches tid index txn_id version db (batch_iter x) [] = Inr bs"
      "plan = \<lparr>pl_tid = tid, pl_index = index, pl_batches = bs\<rparr>"
    using assms(1) by (auto simp: plan_partition_def rbind_eq_Inr split: option.splits)
  then show ?thesis using plan_batches_views [OF x(2)] assms(2) [OF x(1)] by (fastforce simp: plan_plain_def)
qed

lemma plan_entry_plain:
  assumes "en_plan (plan_entry env crc req version authz db topic pd) = Inr plan" and "client_batches req"
    and "topic \<in> set (pq_topics req)" "pd \<in> set (pd_partitions topic)"
  shows "plan_plain plan"
proof -
  obtain tid where "plan_partition tid (pp_index pd) (pp_records pd) (pq_transactional_id req) version db = Inr plan"
    using assms(1) by (auto simp: plan_entry_def Let_def split: sum.splits option.splits if_splits)
  then show ?thesis by (rule plan_partition_plain) (use assms(2-4) in \<open>auto simp: client_batches_def\<close>)
qed

lemma write_partition_sys:
  assumes "write_partition seg_size crc now plan db = (outcome, db')" and "sys_inv seg_size crc env db" and "0 < seg_size"
    and "plan_in_txn db plan" "plan_plain plan"
  shows "sys_inv seg_size crc env db' \<and> keeps_open db db'"
  using write_batches_sys [OF assms(1) [unfolded write_partition_def] assms(2,3)] assms(4,5)
  by (auto simp: plan_in_txn_def plan_plain_def)

text \<open>The entries that are written: not shadowed by a later one, and planned.\<close>

lemma write_all_sys:
  assumes "write_all seg_size crc now es db = (answers, wrote, db')" and "sys_inv seg_size crc env db" and "0 < seg_size"
    and "\<forall>p \<in> set (pending_plans es). plan_in_txn db p \<and> plan_plain p"
  shows "sys_inv seg_size crc env db'"
  using assms
proof (induction es arbitrary: db answers wrote)
  case (Cons e es)
  have pend: "pending_plans (e # es) = (if \<exists>f \<in> set es. en_key f = en_key e then []
      else case en_plan e of Inl _ \<Rightarrow> [] | Inr plan \<Rightarrow> [plan]) @ pending_plans es"
    by (simp add: pending_plans_def map_filter_simps split: sum.splits)
  show ?case
  proof (cases "\<exists>f \<in> set es. en_key f = en_key e")
    case True
    have "write_all seg_size crc now es db = (answers, wrote, db')" using Cons.prems(1) unfolding write_all.simps if_P [OF True] .
    then show ?thesis using Cons.IH [of db] Cons.prems(2-4) by (simp add: pend)
  next
    case False
    show ?thesis
    proof (cases "en_plan e")
      case (Inl a)
      obtain r w where "write_all seg_size crc now es db = (r, w, db')"
        using Cons.prems(1) unfolding write_all.simps if_not_P [OF False] Inl by (auto split: prod.splits)
      then show ?thesis using Cons.IH [of db] Cons.prems(2-4) by (simp add: pend)
    next
      case (Inr plan)
      obtain outcome d r w where d: "write_partition seg_size crc now plan db = (outcome, d)" "write_all seg_size crc now es d = (r, w, db')"
        using Cons.prems(1) unfolding write_all.simps if_not_P [OF False] Inr by (auto simp: Let_def split: prod.splits)
      have plan: "plan_in_txn db plan" "plan_plain plan" using Cons.prems(4) False Inr by (simp_all add: pend)
      note wp = write_partition_sys [OF d(1) Cons.prems(2,3) plan]
      have "\<forall>p \<in> set (pending_plans es). plan_in_txn d p \<and> plan_plain p"
        using Cons.prems(4) plan_in_txn_mono [of db _ d] wp by (auto simp: pend)
      then show ?thesis using Cons.IH [OF d(2) _ Cons.prems(3)] wp by blast
    qed
  qed
qed simp

lemma pending_in: "p \<in> set (pending_plans es) \<Longrightarrow> \<exists>e \<in> set es. en_plan e = Inr p"
proof (induction es)
  case (Cons e es)
  then show ?case by (auto simp: pending_plans_def map_filter_simps split: sum.splits if_splits)
qed (simp add: pending_plans_def map_filter_simps)

lemma produce_sys:
  assumes inv: "sys_inv seg_size crc env db" and sz: "0 < seg_size" and req: "client_batches req"
    and ok: "produce seg_size cenv crc now req version authz db = (outcome, db')"
  shows "sys_inv seg_size crc env db'"
proof -
  define es where "es = concat (map (\<lambda>t. map (plan_entry cenv crc req version authz db t) (pd_partitions t)) (pq_topics req))"
  let ?d = "reserve_all now (pq_transactional_id req) (pending_plans es) [] db"
  have es: "concat (map snd (map (\<lambda>t. (topic_label t db, map (plan_entry cenv crc req version authz db t) (pd_partitions t))) (pq_topics req))) = es"
    by (simp add: es_def comp_def)
  obtain answers wrote where w: "write_all seg_size crc now es ?d = (answers, wrote, db')"
    using ok unfolding produce_def Let_def es by (auto split: prod.splits)
  have plans: "plan_ok (txn_name (pq_transactional_id req)) db p \<and> plan_plain p" if pp: "p \<in> set (pending_plans es)" for p
  proof -
    obtain t pd where "t \<in> set (pq_topics req)" "pd \<in> set (pd_partitions t)" "en_plan (plan_entry cenv crc req version authz db t pd) = Inr p"
      using pending_in [OF pp] by (auto simp: es_def)
    then show ?thesis using plan_entry_ok [OF _ txn_inv_txns [OF sys_txn [OF inv]]] plan_entry_plain [OF _ req] by blast
  qed
  have r: "sys_inv seg_size crc env ?d \<and> keeps_open db ?d \<and> (\<forall>p \<in> set (pending_plans es). plan_in_txn ?d p)"
    by (rule reserve_all_sys [OF inv]) (use plans in auto)
  show ?thesis by (rule write_all_sys [OF w conjunct1 [OF r] sz]) (use r plans in blast)
qed

end
