(* ===== verification/Topic_Steps.thy ===== *)
theory Topic_Steps
  imports Produce_Steps
begin

text \<open>
  Topics, retention, promotion and the sweep of producers keep \<open>sys_inv\<close>.
\<close>

lemma sys_invI:
  "log_inv seg_size crc db \<Longrightarrow> epoch_inv db \<Longrightarrow> txn_inv env db \<Longrightarrow> coord_inv (lg_producer db) \<Longrightarrow> sys_inv seg_size crc env db"
  by (simp add: sys_inv_def broker_inv_def)

subsection \<open>Topics\<close>

definition topic_row_of :: "u32 \<Rightarrow> log_db \<Rightarrow> bool" where
  "topic_row_of topic db \<longleftrightarrow> (\<exists>t \<in> set (lg_topics db). tr_topic_id t = topic)"

lemma create_partition_tables [simp]:
  "lg_topics (create_partition seg_size topic part epoch db) = lg_topics db"
  "lg_producer (create_partition seg_size topic part epoch db) = lg_producer db"
  by (simp_all add: create_partition_def pm_create_partition_def Let_def)

lemma create_partition_sys:
  assumes "sys_inv seg_size crc env db" and "topic_row_of topic db"
  shows "sys_inv seg_size crc env (create_partition seg_size topic part 0 db)"
proof (rule sys_invI)
  note linv = sys_log [OF assms(1)]
  show "log_inv seg_size crc (create_partition seg_size topic part 0 db)" by (rule create_partition_inv [OF linv])
  show "epoch_inv (create_partition seg_size topic part 0 db)" by (rule create_epoch_inv [OF linv sys_epoch [OF assms(1)]])
  show "txn_inv env (create_partition seg_size topic part 0 db)"
    by (rule create_txn_inv [OF linv sys_txn [OF assms(1)]]) (use assms(2) in \<open>simp add: topic_row_of_def\<close>)
qed (use sys_coord [OF assms(1)] in simp)

lemma create_range_sys:
  assumes "sys_inv seg_size crc env db" and "topic_row_of topic db"
  shows "sys_inv seg_size crc env (create_range seg_size topic lo hi db)" and "lg_topics (create_range seg_size topic lo hi db) = lg_topics db"
proof -
  have "sys_inv seg_size crc env (fold (\<lambda>p. create_partition seg_size topic (word_of_int p) 0) ps db)
      \<and> lg_topics (fold (\<lambda>p. create_partition seg_size topic (word_of_int p) 0) ps db) = lg_topics db" for ps
    using assms
  proof (induction ps arbitrary: db)
    case (Cons p ps)
    show ?case using Cons.IH [of "create_partition seg_size topic (word_of_int p) 0 db"] create_partition_sys [OF Cons.prems] Cons.prems(2)
      by (simp add: topic_row_of_def)
  qed simp
  then show "sys_inv seg_size crc env (create_range seg_size topic lo hi db)" "lg_topics (create_range seg_size topic lo hi db) = lg_topics db"
    by (simp_all add: create_range_def)
qed

text \<open>Topic rows may change as long as every partition keeps its topic.\<close>

lemma topics_sys:
  assumes inv: "sys_inv seg_size crc env db" and ok: "\<And>p. p \<in> set (lg_partitions db) \<Longrightarrow> \<exists>t \<in> set ts. tr_topic_id t = pt_topic p"
  shows "sys_inv seg_size crc env (db\<lparr>lg_topic_id_seq := n, lg_topics := ts\<rparr>)" (is "sys_inv _ _ _ ?db")
proof (rule sys_invI)
  show "log_inv seg_size crc ?db" by (rule log_inv_cong [OF sys_log [OF inv]]) simp_all
  show "epoch_inv ?db" by (rule epoch_inv_cong [OF sys_epoch [OF inv]]) simp_all
  show "txn_inv env ?db"
    by (rule partitions_txn_inv [OF sys_txn [OF inv]]) (use ok in \<open>auto simp: topics_ok_def in_partition_def live_def\<close>)
qed (use sys_coord [OF inv] in simp)

lemma topics_ok_sys: "sys_inv seg_size crc env db \<Longrightarrow> p \<in> set (lg_partitions db) \<Longrightarrow> \<exists>t \<in> set (lg_topics db). tr_topic_id t = pt_topic p"
  using txn_inv_topics [OF sys_txn] by (auto simp: topics_ok_def)

lemma create_topic_sys:
  assumes inv: "sys_inv seg_size crc env db" and ok: "create_topic seg_size uuid name parts mmb policy db = Inr (c, db')"
  shows "sys_inv seg_size crc env db'"
proof -
  let ?topic = "word_of_int (lg_topic_id_seq db) :: u32"
  let ?row = "\<lparr>tr_topic_id = ?topic, tr_name = name, tr_num_partitions = parts, tr_uuid = uuid, tr_max_message_bytes = mmb, tr_cleanup_policy = policy\<rparr>"
  let ?d = "db\<lparr>lg_topic_id_seq := lg_topic_id_seq db + 1, lg_topics := lg_topics db @ [?row]\<rparr>"
  have db': "db' = create_range seg_size ?topic 0 (sint parts) ?d"
    using ok by (auto simp: create_topic_def rbind_eq_Inr Let_def split: if_splits)
  have "sys_inv seg_size crc env ?d" by (rule topics_sys [OF inv]) (use topics_ok_sys [OF inv] in auto)
  then show ?thesis unfolding db' by (rule create_range_sys(1)) (simp add: topic_row_of_def)
qed

lemma topic_id_by_name_row: "topic_id_by_name name db = Some topic \<Longrightarrow> topic_row_of topic db"
  by (auto simp: topic_id_by_name_def topic_row_of_def find_Some_iff)

lemma create_partitions_sys:
  assumes inv: "sys_inv seg_size crc env db" and ok: "create_partitions seg_size name want db = Inr db'"
  shows "sys_inv seg_size crc env db'"
proof -
  obtain topic where t: "topic_id_by_name name db = Some topic"
    using ok by (auto simp: create_partitions_def split: option.splits)
  let ?d = "create_range seg_size topic (sint (partition_count topic db)) (sint want) db"
  let ?ts = "map (\<lambda>t. if tr_topic_id t = topic then t\<lparr>tr_num_partitions := want\<rparr> else t) (lg_topics ?d)"
  have db': "db' = ?d\<lparr>lg_topic_id_seq := lg_topic_id_seq ?d, lg_topics := ?ts\<rparr>"
    using ok t by (auto simp: create_partitions_def Let_def split: if_splits)
  have d: "sys_inv seg_size crc env ?d" by (rule create_range_sys(1) [OF inv topic_id_by_name_row [OF t]])
  have "\<exists>t \<in> set ?ts. tr_topic_id t = x" if ex: "\<exists>t \<in> set (lg_topics ?d). tr_topic_id t = x" for x
  proof -
    obtain t where "t \<in> set (lg_topics ?d)" "tr_topic_id t = x" using ex by blast
    then show ?thesis by (intro bexI [of _ "if tr_topic_id t = topic then t\<lparr>tr_num_partitions := want\<rparr> else t"]) auto
  qed
  then show ?thesis unfolding db' using topics_sys [OF d] topics_ok_sys [OF d] by blast
qed

lemma drop_partition_sys:
  assumes "sys_inv seg_size crc env db"
  shows "sys_inv seg_size crc env (drop_partition topic part db)"
proof (rule sys_invI)
  note linv = sys_log [OF assms]
  show "log_inv seg_size crc (drop_partition topic part db)" by (rule drop_partition_inv [OF linv])
  show "epoch_inv (drop_partition topic part db)" by (rule drop_epoch_inv [OF linv sys_epoch [OF assms]])
  show "txn_inv env (drop_partition topic part db)" by (rule drop_txn_inv [OF linv sys_txn [OF assms]])
qed (use sys_coord [OF assms] in simp)

lemma drop_all_sys:
  "sys_inv seg_size crc env db \<Longrightarrow> sys_inv seg_size crc env (fold (drop_partition topic) parts db)
     \<and> lg_partitions (fold (drop_partition topic) parts db) =
         filter (\<lambda>r. \<not> (pt_topic r = topic \<and> pt_partition r \<in> set parts)) (lg_partitions db)
     \<and> lg_producer (fold (drop_partition topic) parts db) = lg_producer db \<and> lg_topics (fold (drop_partition topic) parts db) = lg_topics db"
proof (induction parts arbitrary: db)
  case (Cons p ps)
  have "filter (\<lambda>r. \<not> (pt_topic r = topic \<and> pt_partition r \<in> set ps)) (lg_partitions (drop_partition topic p db)) =
      filter (\<lambda>r. \<not> (pt_topic r = topic \<and> pt_partition r \<in> set (p # ps))) (lg_partitions db)"
    unfolding drop_partition_fields(2) [OF sys_log [OF Cons.prems]] filter_filter by (rule filter_cong) (auto simp: pt_at_def)
  then show ?case using Cons.IH [OF drop_partition_sys [OF Cons.prems, of topic p]] by simp
qed simp

lemma delete_topic_sys:
  assumes inv: "sys_inv seg_size crc env db" and ok: "delete_topic name db = (found, db')"
  shows "sys_inv seg_size crc env db'"
proof (cases "topic_id_by_name name db")
  case None
  then show ?thesis using ok inv by (simp add: delete_topic_def)
next
  case (Some topic)
  define d where "d = fold (drop_partition topic) (map pt_partition (filter (\<lambda>r. pt_topic r = topic) (lg_partitions db))) db"
  note dr = drop_all_sys [OF inv, of topic "map pt_partition (filter (\<lambda>r. pt_topic r = topic) (lg_partitions db))", folded d_def]
  have dinv: "sys_inv seg_size crc env d" using dr by blast
  have parts: "pt_topic p \<noteq> topic" if "p \<in> set (lg_partitions d)" for p
    using that dr by auto
  have same: "lg_partitions d = filter (\<lambda>r. pt_topic r \<noteq> topic) (lg_partitions d)"
    using parts by (simp add: filter_id_conv)
  let ?e = "d\<lparr>lg_txn_partitions := filter (\<lambda>r. tp_topic r \<noteq> topic) (lg_txn_partitions d),
     lg_offsets := filter (\<lambda>r. of_topic r \<noteq> topic) (lg_offsets d), lg_txn_offsets := filter (\<lambda>r. to_topic r \<noteq> topic) (lg_txn_offsets d)\<rparr>"
  have e: "sys_inv seg_size crc env ?e"
  proof (rule sys_frame [OF dinv])
    show "distinct (map tp_key (lg_txn_partitions ?e))" using txn_inv_keys [OF sys_txn [OF dinv]] by (simp add: distinct_map_filter)
    show "q \<in> set (lg_txn_partitions ?e) \<and> has_open_txn (lg_producer ?e) (tp_producer_id q)"
      if "q \<in> set (lg_txn_partitions d)" "has_open_txn (lg_producer d) (tp_producer_id q)" "0 \<le> tp_first_offset q" for q
      using that tp_ok_in [OF txn_inv_tp [OF sys_txn [OF dinv] that(1,3)]] parts by (auto simp: in_partition_def pt_at_def)
  qed (use sys_coord [OF dinv] in simp_all)
  let ?f = "?e\<lparr>lg_producer := (lg_producer ?e)\<lparr>db_batches := filter (\<lambda>b. br_topic_id b \<noteq> topic) (db_batches (lg_producer ?e))\<rparr>\<rparr>"
  have f: "sys_inv seg_size crc env ?f" by (rule batches_sys(1) [OF e]) simp_all
  have "db' = ?f\<lparr>lg_topic_id_seq := lg_topic_id_seq ?f, lg_topics := filter (\<lambda>t. tr_topic_id t \<noteq> topic) (lg_topics ?f)\<rparr>"
    using ok Some same by (auto simp: delete_topic_def Let_def d_def [symmetric])
  moreover have "\<exists>t \<in> set (filter (\<lambda>t. tr_topic_id t \<noteq> topic) (lg_topics ?f)). tr_topic_id t = pt_topic p" if "p \<in> set (lg_partitions ?f)" for p
    using topics_ok_sys [OF f that] parts [of p] that by auto
  ultimately show ?thesis using topics_sys [OF f] by blast
qed

subsection \<open>Retention and promotion\<close>

lemma reclaim_sys:
  assumes inv: "sys_inv seg_size crc env db" and ok: "reclaim topic part off db = Inr (n, db')"
    and off: "\<And>p. find_partition topic part db = Inr p \<Longrightarrow> off \<le> pt_next_offset p"
  shows "sys_inv seg_size crc env db'"
proof (rule sys_invI)
  note linv = sys_log [OF inv]
  show "log_inv seg_size crc db'" by (rule reclaim_inv [OF linv ok off])
  show "epoch_inv db'" using log_inv_partitions [OF linv] ok
    by (cases rule: reclaim_cases) (use sys_epoch [OF inv] reclaim_epoch_inv in simp_all)
  show "txn_inv env db'" using log_inv_partitions [OF linv] ok
  proof (cases rule: reclaim_cases)
    case (2 p)
    show ?thesis unfolding 2(2) by (rule reclaim_txn_inv [OF linv sys_txn [OF inv] 2(1)]) simp
  qed (use sys_txn [OF inv] in simp)
  show "coord_inv (lg_producer db')" using log_inv_partitions [OF linv] ok
    by (cases rule: reclaim_cases) (use sys_coord [OF inv] in simp_all)
qed

lemma retain_each_sys:
  "sys_inv seg_size crc env db \<Longrightarrow> retain_each now topic policy ps db = Inr (n, db') \<Longrightarrow> sys_inv seg_size crc env db'"
proof (induction ps arbitrary: db n)
  case (Cons q ps)
  from Cons.prems(2) obtain m d k where r: "reclaim topic q (retention_cutoff now topic q policy db) db = Inr (m, d)"
    and rest: "retain_each now topic policy ps d = Inr (k, db')"
    by (auto simp: rbind_eq_Inr split: prod.splits)
  have "sys_inv seg_size crc env d"
    by (rule reclaim_sys [OF Cons.prems(1) r]) (rule retention_cutoff_le [OF sys_log [OF Cons.prems(1)]])
  then show ?case using Cons.IH rest by simp
qed simp

lemma enforce_retention_sys:
  "sys_inv seg_size crc env db \<Longrightarrow> enforce_retention now topic policy db = Inr (n, db') \<Longrightarrow> sys_inv seg_size crc env db'"
  by (auto simp: enforce_retention_def dest: retain_each_sys split: if_splits)

lemma set_leader_epoch_sys:
  assumes inv: "sys_inv seg_size crc env db" and ok: "set_leader_epoch topic part epoch db = Inr (raised, db')"
  shows "sys_inv seg_size crc env db'"
proof (rule sys_invI)
  show "log_inv seg_size crc db'" by (rule set_leader_epoch_inv [OF sys_log [OF inv] ok])
  show "epoch_inv db'" by (rule promote_epoch_inv [OF sys_log [OF inv] sys_epoch [OF inv] ok])
  show "txn_inv env db'" by (rule promote_txn_inv [OF sys_txn [OF inv] ok])
  show "coord_inv (lg_producer db')" using ok by (cases rule: set_leader_epoch_cases) (use sys_coord [OF inv] in simp_all)
qed

subsection \<open>The sweep of producers\<close>

lemma drop_victims_coord:
  "coord_inv pdb \<Longrightarrow> drop_victims locked eligible pdb = (n, pdb') \<Longrightarrow> coord_inv pdb' \<and> db_txns pdb' = db_txns pdb"
  by (auto simp: drop_victims_def Let_def intro!: coord_filter [where pdb = pdb and T = "\<lambda>_. True"])

lemma sweep_coord:
  assumes "coord_inv pdb" and "sweep now locked policy pdb = (n, pdb')"
  shows "coord_inv pdb' \<and> db_txns pdb' = db_txns pdb"
proof -
  obtain a p1 b p2 where 1: "sweep_expired now locked (expiration_ms policy) pdb = (a, p1)"
      and 2: "sweep_surplus now locked (max_ids policy) p1 = (b, pdb')"
    using assms(2) by (auto simp: sweep_def Let_def split: prod.splits)
  have "coord_inv p1 \<and> db_txns p1 = db_txns pdb"
    using 1 assms(1) by (auto simp: sweep_expired_def dest: drop_victims_coord split: if_splits)
  then show ?thesis using 2 by (auto simp: sweep_surplus_def Let_def dest: drop_victims_coord split: if_splits)
qed

lemma sweep_sys:
  assumes inv: "sys_inv seg_size crc env db" and "sweep now locked policy (lg_producer db) = (n, pdb)"
  shows "sys_inv seg_size crc env (db\<lparr>lg_producer := pdb\<rparr>)"
  by (rule producer_frame [OF inv]) (use sweep_coord [OF sys_coord [OF inv] assms(2)] in \<open>simp_all add: has_open_txn_def\<close>)

end
