(* ===== verification/FetchPath.thy ===== *)
theory FetchPath
  imports Topics
begin

text \<open>
  The read side of the log: \<open>Fetch\<close> (\<open>src/extension/src/handlers/fetch.rs\<close>), \<open>ListOffsets\<close>
  (\<open>src/extension/src/handlers/list_offsets.rs\<close>) and \<open>OffsetForLeaderEpoch\<close>
  (\<open>src/extension/src/handlers/leader_epoch.rs\<close>) over the table engine. None of them writes.
\<close>

subsection \<open>Fetch\<close>

definition RESPONSE_CEILING :: nat where "RESPONSE_CEILING = 8 * 1024 * 1024"
definition PARTITION_CEILING :: nat where "PARTITION_CEILING = 1024 * 1024"
definition MAX_FETCH_PARTITIONS :: nat where "MAX_FETCH_PARTITIONS = 4096"
definition ABORTED_ENTRY_WIRE_BYTES :: nat where "ABORTED_ENTRY_WIRE_BYTES = 24"
definition PARTITION_ENVELOPE_BYTES :: nat where "PARTITION_ENVELOPE_BYTES = 128"
definition TOPIC_ENVELOPE_BYTES :: nat where "TOPIC_ENVELOPE_BYTES = 320"
definition RESPONSE_ENVELOPE_BYTES :: nat where "RESPONSE_ENVELOPE_BYTES = 1024"

record fetch_partition =
  fp_partition :: i32
  fp_fetch_offset :: i64
  fp_partition_max_bytes :: i32

record fetch_topic =
  ft_topic :: bytes
  ft_topic_id :: bytes
  ft_partitions :: "fetch_partition list"

record fetch_request =
  fr_max_bytes :: i32
  fr_isolation_level :: i8
  fr_topics :: "fetch_topic list"

record partition_data =
  pd_index :: i32
  pd_error_code :: error_code
  pd_high_watermark :: int
  pd_last_stable_offset :: int
  pd_log_start_offset :: int
  pd_aborted :: "aborted_txn list"
  pd_records :: bytes

record topic_data =
  td_topic :: bytes
  td_topic_id :: bytes
  td_partitions :: "partition_data list"

definition clamp_bytes :: "i32 \<Rightarrow> nat \<Rightarrow> nat" where
  "clamp_bytes requested ceiling = (if sint requested \<le> 0 then ceiling else min (nat (sint requested)) ceiling)"

definition partition_error :: "i32 \<Rightarrow> error_code \<Rightarrow> partition_data" where
  "partition_error index err = \<lparr>pd_index = index, pd_error_code = err, pd_high_watermark = - 1,
     pd_last_stable_offset = - 1, pd_log_start_offset = - 1, pd_aborted = [], pd_records = []\<rparr>"

definition empty_partition :: "i32 \<Rightarrow> partition_data" where
  "empty_partition index = \<lparr>pd_index = index, pd_error_code = E_None, pd_high_watermark = - 1,
     pd_last_stable_offset = - 1, pd_log_start_offset = - 1, pd_aborted = [], pd_records = []\<rparr>"

text \<open>What the loop over partitions carries: the bytes left and whether a partition was served.\<close>

record fetch_budget =
  fb_budget :: nat
  fb_served :: bool

definition serve_slice :: "i32 \<Rightarrow> nat \<Rightarrow> fetch_slice \<Rightarrow> fetch_budget \<Rightarrow> partition_data \<times> fetch_budget" where
  "serve_slice index per_partition chunk b =
     (let over = (fb_served b \<and> length (fs_bytes chunk) > per_partition);
          chunk = (if over then chunk\<lparr>fs_bytes := [], fs_aborted := []\<rparr> else chunk);
          budget = (if over then 0 else fb_budget b)
      in (\<lparr>pd_index = index, pd_error_code = E_None, pd_high_watermark = fs_high_watermark chunk,
           pd_last_stable_offset = fs_last_stable_offset chunk, pd_log_start_offset = fs_log_start_offset chunk,
           pd_aborted = fs_aborted chunk, pd_records = fs_bytes chunk\<rparr>,
          \<lparr>fb_budget = budget - (length (fs_bytes chunk) + length (fs_aborted chunk) * ABORTED_ENTRY_WIRE_BYTES),
           fb_served = (fb_served b \<or> fs_bytes chunk \<noteq> [])\<rparr>))"

definition fetch_one :: "isolation_level \<Rightarrow> error_code option \<Rightarrow> u32 option \<Rightarrow> fetch_partition \<Rightarrow> fetch_budget \<Rightarrow> log_db \<Rightarrow>
    partition_data \<times> fetch_budget" where
  "fetch_one isolation denied topic_id p b db =
     (case denied of
        Some err \<Rightarrow> (partition_error (fp_partition p) err, b)
      | None \<Rightarrow>
          let per_partition = min (clamp_bytes (fp_partition_max_bytes p) PARTITION_CEILING) (fb_budget b) in
          if fb_budget b = 0 then (empty_partition (fp_partition p), b)
          else case topic_id of
                 None \<Rightarrow> (partition_error (fp_partition p) E_UnknownTopicOrPartition, b)
               | Some tid \<Rightarrow>
                   (case read tid (fp_partition p) (sint (fp_fetch_offset p)) per_partition isolation db of
                      Inl e \<Rightarrow> (partition_error (fp_partition p) (store_error_code e), b)
                    | Inr chunk \<Rightarrow> serve_slice (fp_partition p) per_partition chunk b))"

fun fetch_partitions :: "isolation_level \<Rightarrow> error_code option \<Rightarrow> u32 option \<Rightarrow> fetch_partition list \<Rightarrow> fetch_budget \<Rightarrow> log_db \<Rightarrow>
    partition_data list \<times> fetch_budget" where
  "fetch_partitions isolation denied topic_id [] b db = ([], b)"
| "fetch_partitions isolation denied topic_id (p # ps) b db =
     (let (d, b) = fetch_one isolation denied topic_id p b db;
          (ds, b) = fetch_partitions isolation denied topic_id ps b db
      in (d # ds, b))"

fun fetch_topics :: "isolation_level \<Rightarrow> authz \<Rightarrow> fetch_topic list \<Rightarrow> fetch_budget \<Rightarrow> log_db \<Rightarrow> topic_data list \<times> fetch_budget" where
  "fetch_topics isolation authz [] b db = ([], b)"
| "fetch_topics isolation authz (t # ts) b db =
     (let resolved = resolve_topic (ft_topic t) (ft_topic_id t) db;
          name = (case resolved of None \<Rightarrow> ft_topic t | Some r \<Rightarrow> rt_name r);
          denied = (case authz_check authz Read Topic name of Inl err \<Rightarrow> Some err | Inr _ \<Rightarrow> None);
          (ds, b) = fetch_partitions isolation denied (map_option rt_topic_id resolved) (ft_partitions t) b db;
          (rest, b) = fetch_topics isolation authz ts b db
      in (\<lparr>td_topic = name, td_topic_id = ft_topic_id t, td_partitions = ds\<rparr> # rest, b))"

definition fetch_total :: "fetch_request \<Rightarrow> nat" where
  "fetch_total req = sum_list (map (\<lambda>t. length (ft_partitions t)) (fr_topics req))"

definition fetch_envelope :: "fetch_request \<Rightarrow> nat" where
  "fetch_envelope req = RESPONSE_ENVELOPE_BYTES + length (fr_topics req) * TOPIC_ENVELOPE_BYTES
     + fetch_total req * PARTITION_ENVELOPE_BYTES"

definition fetch :: "fetch_request \<Rightarrow> authz \<Rightarrow> log_db \<Rightarrow> handler_error + topic_data list" where
  "fetch req authz db =
     (let isolation = (if fr_isolation_level req = 1 then ReadCommitted else ReadUncommitted) in
      if length (fr_topics req) > MAX_FETCH_PARTITIONS
      then Inl (TooLarge ''fetch topic list'' (length (fr_topics req)))
      else if fetch_total req > MAX_FETCH_PARTITIONS
      then Inl (TooLarge ''fetch partition list'' (fetch_total req))
      else let budget = clamp_bytes (fr_max_bytes req) (RESPONSE_CEILING - fetch_envelope req)
           in Inr (fst (fetch_topics isolation authz (fr_topics req) \<lparr>fb_budget = budget, fb_served = False\<rparr> db)))"

definition records_bytes :: "topic_data list \<Rightarrow> nat" where
  "records_bytes resp = sum_list (map (\<lambda>p. length (pd_records p)) (concat (map td_partitions resp)))"

definition has_error :: "topic_data list \<Rightarrow> bool" where
  "has_error resp \<longleftrightarrow> (\<exists>t \<in> set resp. \<exists>p \<in> set (td_partitions t). pd_error_code p \<noteq> E_None)"

definition watched_partitions :: "fetch_request \<Rightarrow> log_db \<Rightarrow> (u32 \<times> i32) list" where
  "watched_partitions req db = concat (map (\<lambda>t.
     case resolve_topic (ft_topic t) (ft_topic_id t) db of
       None \<Rightarrow> []
     | Some r \<Rightarrow> map (\<lambda>p. (rt_topic_id r, fp_partition p)) (ft_partitions t)) (fr_topics req))"

subsection \<open>ListOffsets\<close>

definition MAX_LIST_OFFSETS_PARTITIONS :: nat where "MAX_LIST_OFFSETS_PARTITIONS = 4096"
definition TIMESTAMP_LATEST :: int where "TIMESTAMP_LATEST = - 1"
definition TIMESTAMP_EARLIEST :: int where "TIMESTAMP_EARLIEST = - 2"
definition TIMESTAMP_MAX :: int where "TIMESTAMP_MAX = - 3"
definition TIMESTAMP_EARLIEST_LOCAL :: int where "TIMESTAMP_EARLIEST_LOCAL = - 4"
definition TIMESTAMP_LATEST_TIERED :: int where "TIMESTAMP_LATEST_TIERED = - 5"
definition TIMESTAMP_EARLIEST_PENDING_UPLOAD :: int where "TIMESTAMP_EARLIEST_PENDING_UPLOAD = - 6"
definition OFFSET_NOT_FOUND :: int where "OFFSET_NOT_FOUND = - 1"

definition sentinel_since :: "int \<Rightarrow> int option" where
  "sentinel_since timestamp =
     (if timestamp = TIMESTAMP_MAX then Some 7
      else if timestamp = TIMESTAMP_EARLIEST_LOCAL then Some 8
      else if timestamp = TIMESTAMP_LATEST_TIERED then Some 9
      else if timestamp = TIMESTAMP_EARLIEST_PENDING_UPLOAD then Some 11
      else None)"

record offset_answer =
  oa_partition_index :: i32
  oa_error_code :: error_code
  oa_timestamp :: int
  oa_offset :: int
  oa_leader_epoch :: i32

definition err_partition :: "i32 \<Rightarrow> error_code \<Rightarrow> offset_answer" where
  "err_partition index err = \<lparr>oa_partition_index = index, oa_error_code = err, oa_timestamp = - 1,
     oa_offset = - 1, oa_leader_epoch = - 1\<rparr>"

definition committed_only :: "u32 \<Rightarrow> i32 \<Rightarrow> bool \<Rightarrow> (int \<times> int) option \<Rightarrow> log_db \<Rightarrow> store_error + (int \<times> int) option" where
  "committed_only topic part read_committed found db =
     (case found of
        None \<Rightarrow> Inr None
      | Some (off, ts) \<Rightarrow>
          if read_committed
          then rbind (last_stable_offset topic part db) (\<lambda>lso. Inr (if off \<ge> lso then None else Some (off, ts)))
          else Inr (Some (off, ts)))"

definition lookup_offset :: "codec_env \<Rightarrow> u32 \<Rightarrow> i32 \<Rightarrow> int \<Rightarrow> bool \<Rightarrow> log_db \<Rightarrow> store_error + (int \<times> int) option" where
  "lookup_offset env topic part timestamp read_committed db =
     (let plain = (\<lambda>off. Some (off, - 1)) in
      if timestamp = TIMESTAMP_MAX then committed_only topic part read_committed (max_timestamp_offset env topic part db) db
      else if timestamp = TIMESTAMP_EARLIEST then map_sum id plain (log_start_offset topic part db)
      else if timestamp = TIMESTAMP_LATEST \<and> read_committed then map_sum id plain (last_stable_offset topic part db)
      else if timestamp = TIMESTAMP_LATEST then map_sum id plain (high_watermark topic part db)
      else if timestamp = TIMESTAMP_EARLIEST_LOCAL then map_sum id plain (log_start_offset topic part db)
      else if timestamp = TIMESTAMP_LATEST_TIERED \<or> timestamp = TIMESTAMP_EARLIEST_PENDING_UPLOAD then Inr None
      else committed_only topic part read_committed (offset_for_timestamp env topic part timestamp db) db)"

definition resolve :: "codec_env \<Rightarrow> u32 \<Rightarrow> i32 \<Rightarrow> int \<Rightarrow> bool \<Rightarrow> log_db \<Rightarrow> offset_answer" where
  "resolve env topic part timestamp read_committed db =
     (let epoch = (case leader_epoch topic part db of Inl _ \<Rightarrow> - 1 | Inr e \<Rightarrow> e) in
      if timestamp < TIMESTAMP_EARLIEST_PENDING_UPLOAD then err_partition part E_UnsupportedVersion
      else case lookup_offset env topic part timestamp read_committed db of
             Inl e \<Rightarrow> err_partition part (store_error_code e)
           | Inr found \<Rightarrow>
               \<lparr>oa_partition_index = part, oa_error_code = E_None,
                oa_timestamp = (case found of None \<Rightarrow> - 1 | Some (off, ts) \<Rightarrow> ts),
                oa_offset = (case found of None \<Rightarrow> OFFSET_NOT_FOUND | Some (off, ts) \<Rightarrow> off),
                oa_leader_epoch = epoch\<rparr>)"

record list_offsets_request =
  lo_isolation_level :: i8
  lo_topics :: "(bytes \<times> (i32 \<times> i64) list) list"

definition list_offsets_one :: "codec_env \<Rightarrow> i16 \<Rightarrow> bool \<Rightarrow> authz \<Rightarrow> log_db \<Rightarrow> bytes \<Rightarrow> i32 \<times> i64 \<Rightarrow> offset_answer" where
  "list_offsets_one env version read_committed authz db name p =
     (let (index, ts) = p; timestamp = sint ts in
      case authz_check authz Describe Topic name of
        Inl err \<Rightarrow> err_partition index err
      | Inr _ \<Rightarrow>
          if (case sentinel_since timestamp of None \<Rightarrow> False | Some since \<Rightarrow> sint version < since)
          then err_partition index E_UnsupportedVersion
          else case topic_id_by_name name db of
                 None \<Rightarrow> err_partition index E_UnknownTopicOrPartition
               | Some tid \<Rightarrow> resolve env tid index timestamp read_committed db)"

definition list_offsets :: "codec_env \<Rightarrow> list_offsets_request \<Rightarrow> i16 \<Rightarrow> authz \<Rightarrow> log_db \<Rightarrow>
    handler_error + (bytes \<times> offset_answer list) list" where
  "list_offsets env req version authz db =
     (let total = sum_list (map (\<lambda>(name, ps). length ps) (lo_topics req)) in
      if length (lo_topics req) > MAX_LIST_OFFSETS_PARTITIONS
      then Inl (TooLarge ''list offsets topic list'' (length (lo_topics req)))
      else if total > MAX_LIST_OFFSETS_PARTITIONS then Inl (TooLarge ''list offsets partition list'' total)
      else Inr (map (\<lambda>(name, ps).
             (name, map (list_offsets_one env version (lo_isolation_level req = 1) authz db name) ps)) (lo_topics req)))"

subsection \<open>OffsetForLeaderEpoch\<close>

definition NO_CURRENT_EPOCH :: i32 where "NO_CURRENT_EPOCH = - 1"

record epoch_question =
  eq_partition :: i32
  eq_current_leader_epoch :: i32
  eq_leader_epoch :: i32

record epoch_answer =
  ea_error_code :: error_code
  ea_partition :: i32
  ea_leader_epoch :: i32
  ea_end_offset :: int

definition answer_epoch :: "u32 option \<Rightarrow> epoch_question \<Rightarrow> error_code option \<Rightarrow> log_db \<Rightarrow> epoch_answer" where
  "answer_epoch topic_id p denied db =
     (let fail = (\<lambda>err. \<lparr>ea_error_code = err, ea_partition = eq_partition p, ea_leader_epoch = - 1, ea_end_offset = - 1\<rparr>) in
      case denied of
        Some err \<Rightarrow> fail err
      | None \<Rightarrow>
          (case topic_id of
             None \<Rightarrow> fail E_UnknownTopicOrPartition
           | Some tid \<Rightarrow>
               (case leader_epoch tid (eq_partition p) db of
                  Inl e \<Rightarrow> fail (store_error_code e)
                | Inr current \<Rightarrow>
                    if eq_current_leader_epoch p \<noteq> NO_CURRENT_EPOCH \<and> sint (eq_current_leader_epoch p) < sint current
                    then fail E_FencedLeaderEpoch
                    else if eq_current_leader_epoch p \<noteq> NO_CURRENT_EPOCH \<and> sint (eq_current_leader_epoch p) > sint current
                    then fail E_UnknownLeaderEpoch
                    else case epoch_end_offset tid (eq_partition p) (eq_leader_epoch p) db of
                           Inl e \<Rightarrow> fail (store_error_code e)
                         | Inr ee \<Rightarrow> \<lparr>ea_error_code = E_None, ea_partition = eq_partition p,
                                     ea_leader_epoch = ee_leader_epoch ee, ea_end_offset = ee_end_offset ee\<rparr>)))"

definition offset_for_leader_epoch :: "(bytes \<times> epoch_question list) list \<Rightarrow> authz \<Rightarrow> log_db \<Rightarrow>
    handler_error + (bytes \<times> epoch_answer list) list" where
  "offset_for_leader_epoch topics authz db =
     rbind (check_admin_len ''leader epoch partition list'' (sum_list (map (\<lambda>(name, ps). length ps) topics))) (\<lambda>_.
       Inr (map (\<lambda>(name, ps).
         let denied = (case authz_check authz Describe Topic name of Inl err \<Rightarrow> Some err | Inr _ \<Rightarrow> None) in
         (name, map (\<lambda>p. answer_epoch (topic_id_by_name name db) p denied db) ps)) topics))"

end
