(* ===== verification/Offsets.thy ===== *)
theory Offsets
  imports FetchPath TxnCoordinator GroupCoordinator
begin

text \<open>
  Committed offsets (\<open>src/extension/src/handlers/offsets.rs\<close>) and offsets staged in a transaction
  (\<open>handle_txn_offset_commit\<close> of \<open>src/extension/src/handlers/txn.rs\<close>).

  The state adds to the log tables the classic groups and, of the other two kinds of group, what a commit
  reads: which exist, and the epoch and partitions of a consumer-group member. \<open>GROUP BY\<close> returns
  its groups in an order of the database's choosing, the parameter \<open>group_order\<close>; \<open>collate\<close> is as in
  \<open>GroupCoordinator\<close>.
\<close>

subsection \<open>State\<close>

record consumer_member_row =
  cm_group_id :: bytes
  cm_member_id :: bytes
  cm_member_epoch :: i32
  cm_owned :: "bytes list"
  cm_granted :: "bytes list"

record offsets_db =
  od_log :: log_db
  od_groups :: group_db
  od_share_groups :: "bytes list"
  od_consumer_groups :: "bytes list"
  od_consumer_members :: "consumer_member_row list"

definition offset_key :: "offset_row \<Rightarrow> bytes \<times> u32 \<times> i32" where
  "offset_key r = (of_group_id r, of_topic r, of_partition r)"

text \<open>The group statements see the keys of \<open>kafgres_offsets\<close>.\<close>

definition group_view :: "offsets_db \<Rightarrow> group_db" where
  "group_view od = (od_groups od)\<lparr>gd_offsets := map offset_key (lg_offsets (od_log od))\<rparr>"

subsection \<open>Who may commit\<close>

definition OFFSET_FETCH_BATCHED_FROM :: int where "OFFSET_FETCH_BATCHED_FROM = 8"
definition NO_OFFSET :: i64 where "NO_OFFSET = - 1"
definition MAX_METADATA_BYTES :: nat where "MAX_METADATA_BYTES = 4096"
definition MAX_OFFSET_PARTITIONS :: nat where "MAX_OFFSET_PARTITIONS = 4096"
definition OFFSET_COMMIT_GROUP_AWARE_FROM :: int where "OFFSET_COMMIT_GROUP_AWARE_FROM = 9"

record committer =
  co_group_id :: bytes
  co_generation :: i32
  co_member_id :: bytes
  co_instance_id :: "bytes option"

datatype group_verdict = Accept | Refuse error_code | HeldOnly "(u32 \<times> i32) list"

fun code_for :: "group_verdict \<Rightarrow> u32 \<Rightarrow> i32 \<Rightarrow> error_code" where
  "code_for Accept topic part = E_None"
| "code_for (Refuse err) topic part = err"
| "code_for (HeldOnly held) topic part = (if (topic, part) \<in> set held then E_None else E_StaleMemberEpoch)"

text \<open>\<open>str::parse\<close> for the two integer types: an optional sign, then decimal digits, in range.\<close>

definition parse_digits :: "bytes \<Rightarrow> int option" where
  "parse_digits s =
     (if s = [] \<or> \<not> list_all (\<lambda>b. 0x30 \<le> b \<and> b \<le> 0x39) s then None
      else Some (foldl (\<lambda>n b. 10 * n + (uint b - 48)) 0 s))"

definition parse_u32 :: "bytes \<Rightarrow> u32 option" where
  "parse_u32 s =
     Option.bind (parse_digits (case s of [] \<Rightarrow> [] | b # bs \<Rightarrow> if b = 0x2b then bs else s)) (\<lambda>n.
       if n < 2 ^ 32 then Some (word_of_int n) else None)"

definition parse_i32 :: "bytes \<Rightarrow> i32 option" where
  "parse_i32 s =
     (let negative = (s \<noteq> [] \<and> hd s = 0x2d);
          digits = (if s \<noteq> [] \<and> (hd s = 0x2b \<or> hd s = 0x2d) then tl s else s)
      in Option.bind (parse_digits digits) (\<lambda>n.
           let v = (if negative then - n else n) in
           if - (2 ^ 31) \<le> v \<and> v < 2 ^ 31 then Some (word_of_int v) else None))"

definition parse_tp :: "bytes \<Rightarrow> (u32 \<times> i32) option" where
  "parse_tp s =
     (if 0x3a \<notin> set s then None
      else Option.bind (parse_u32 (takeWhile (\<lambda>b. b \<noteq> 0x3a) s)) (\<lambda>t.
           Option.bind (parse_i32 (tl (dropWhile (\<lambda>b. b \<noteq> 0x3a) s))) (\<lambda>p. Some (t, p))))"

definition validate_classic :: "committer \<Rightarrow> bool \<Rightarrow> group_state \<Rightarrow> int \<Rightarrow> member_row list \<Rightarrow> group_verdict" where
  "validate_classic c transactional state generation ms =
     (let instance_refusal = (case co_instance_id c of
            None \<Rightarrow> None
          | Some i \<Rightarrow>
              (case List.find (\<lambda>m. gm_group_instance_id m = Some i) ms of
                 None \<Rightarrow> Some (Refuse E_UnknownMemberId)
               | Some m \<Rightarrow> if gm_member_id m \<noteq> co_member_id c then Some (Refuse E_FencedInstanceId) else None));
          rebalancing = (if \<not> transactional \<and> state = CompletingRebalance
            then Refuse E_RebalanceInProgress else Accept)
      in if sint (co_generation c) < 0 \<and> state = GEmpty then Accept
         else if sint (co_generation c) \<ge> 0 \<or> co_member_id c \<noteq> [] \<or> co_instance_id c \<noteq> None
         then (case instance_refusal of
                 Some v \<Rightarrow> v
               | None \<Rightarrow>
                   if \<not> (\<exists>m \<in> set ms. gm_member_id m = co_member_id c) then Refuse E_UnknownMemberId
                   else if sint (co_generation c) \<noteq> generation then Refuse E_IllegalGeneration
                   else rebalancing)
         else if \<not> transactional \<and> state \<noteq> GEmpty then Refuse E_UnknownMemberId
         else rebalancing)"

definition validate_consumer_group :: "committer \<Rightarrow> bool \<Rightarrow> i16 \<Rightarrow> offsets_db \<Rightarrow> group_verdict" where
  "validate_consumer_group c transactional version od =
     (let ms = filter (\<lambda>m. cm_group_id m = co_group_id c) (od_consumer_members od) in
      if sint (co_generation c) < 0 \<and> ms = [] then Accept
      else if transactional \<and> co_generation c = - 1 \<and> co_member_id c = [] \<and> co_instance_id c = None then Accept
      else case List.find (\<lambda>m. cm_member_id m = co_member_id c) ms of
             None \<Rightarrow> Refuse E_UnknownMemberId
           | Some m \<Rightarrow>
               if \<not> transactional \<and> sint version < OFFSET_COMMIT_GROUP_AWARE_FROM then Refuse E_UnsupportedVersion
               else if co_generation c = cm_member_epoch m then Accept
               else if sint (co_generation c) > sint (cm_member_epoch m) then Refuse E_StaleMemberEpoch
               else HeldOnly (List.map_filter parse_tp (cm_owned m @ cm_granted m)))"

definition validate_commit :: "(bytes \<Rightarrow> 'k::linorder) \<Rightarrow> int \<Rightarrow> committer \<Rightarrow> bool \<Rightarrow> i16 \<Rightarrow> offsets_db \<Rightarrow> group_verdict \<times> offsets_db" where
  "validate_commit collate now c transactional version od =
     (let gid = co_group_id c in
      if gid \<in> set (od_share_groups od) then (Refuse E_GroupIdNotFound, od)
      else if gid \<in> set (od_consumer_groups od) then (validate_consumer_group c transactional version od, od)
      else case load_group gid (od_groups od) of
             Some g \<Rightarrow>
               let v = validate_classic c transactional (gr_state g) (gr_generation g) (members collate gid (od_groups od)) in
               (v, if \<not> transactional \<and> (gr_state g = GStable \<or> gr_state g = PreparingRebalance) \<and> v = Accept
                   then od\<lparr>od_groups := touch_heartbeat now gid (co_member_id c) (od_groups od)\<rparr> else od)
           | None \<Rightarrow>
               if \<exists>r \<in> set (lg_offsets (od_log od)). of_group_id r = gid
               then (validate_classic c transactional GEmpty 0 [], od)
               else if sint (co_generation c) < 0 then (Accept, od)
               else if \<not> transactional \<and> sint version \<ge> OFFSET_COMMIT_GROUP_AWARE_FROM then (Refuse E_GroupIdNotFound, od)
               else (Refuse E_IllegalGeneration, od))"

subsection \<open>OffsetCommit\<close>

record commit_partition =
  cp_partition_index :: i32
  cp_committed_offset :: i64
  cp_committed_leader_epoch :: i32
  cp_committed_metadata :: "bytes option"

record commit_topic =
  ot_name :: bytes
  ot_topic_id :: bytes
  ot_partitions :: "commit_partition list"

record offset_commit_request =
  oc_group_id :: bytes
  oc_generation :: i32
  oc_member_id :: bytes
  oc_group_instance_id :: "bytes option"
  oc_topics :: "commit_topic list"

definition commit_one :: "int \<Rightarrow> bytes \<Rightarrow> u32 \<Rightarrow> commit_partition \<Rightarrow> log_db \<Rightarrow> log_db" where
  "commit_one now gid topic p db =
     (let own = (\<lambda>r. offset_key r = (gid, topic, cp_partition_index p)) in
      db\<lparr>lg_offsets :=
        (if \<exists>r \<in> set (lg_offsets db). own r
         then map (\<lambda>r. if own r then r\<lparr>of_committed_offset := cp_committed_offset p,
                of_committed_leader_epoch := cp_committed_leader_epoch p, of_metadata := cp_committed_metadata p,
                of_commit_ts := now\<rparr> else r) (lg_offsets db)
         else lg_offsets db @ [\<lparr>of_group_id = gid, of_topic = topic, of_partition = cp_partition_index p,
                of_committed_offset = cp_committed_offset p, of_committed_leader_epoch = cp_committed_leader_epoch p,
                of_metadata = cp_committed_metadata p, of_commit_ts = now\<rparr>])\<rparr>)"

definition commit_oversized :: "commit_partition \<Rightarrow> bool" where
  "commit_oversized p \<longleftrightarrow>
     (case cp_committed_metadata p of None \<Rightarrow> False | Some m \<Rightarrow> length m > MAX_METADATA_BYTES)"

text \<open>The verdict on the group is taken once, by the first partition that passes the topic checks.\<close>

definition commit_partition_code ::
  "(bytes \<Rightarrow> 'k::linorder) \<Rightarrow> int \<Rightarrow> committer \<Rightarrow> i16 \<Rightarrow> resolved_topic option \<Rightarrow> i32 \<Rightarrow> commit_partition \<Rightarrow>
    group_verdict option \<Rightarrow> offsets_db \<Rightarrow> error_code \<times> group_verdict option \<times> offsets_db" where
  "commit_partition_code collate now c version resolved n p held od =
     (case resolved of
        None \<Rightarrow> (E_UnknownTopicOrPartition, held, od)
      | Some r \<Rightarrow>
          if sint (cp_partition_index p) < 0 \<or> sint (cp_partition_index p) \<ge> sint n
          then (E_UnknownTopicOrPartition, held, od)
          else let (v, od) = (case held of Some v \<Rightarrow> (v, od) | None \<Rightarrow> validate_commit collate now c False version od)
               in case v of
                    Refuse err \<Rightarrow> (err, Some v, od)
                  | _ \<Rightarrow>
                      if commit_oversized p then (E_OffsetMetadataTooLarge, Some v, od)
                      else if code_for v (rt_topic_id r) (cp_partition_index p) = E_None
                      then (E_None, Some v, od\<lparr>od_log := commit_one now (co_group_id c) (rt_topic_id r) p (od_log od)\<rparr>)
                      else (code_for v (rt_topic_id r) (cp_partition_index p), Some v, od))"

fun commit_partitions ::
  "(bytes \<Rightarrow> 'k::linorder) \<Rightarrow> int \<Rightarrow> committer \<Rightarrow> i16 \<Rightarrow> error_code option \<Rightarrow> resolved_topic option \<Rightarrow> i32 \<Rightarrow>
    commit_partition list \<Rightarrow> group_verdict option \<Rightarrow> offsets_db \<Rightarrow>
    (i32 \<times> error_code) list \<times> group_verdict option \<times> offsets_db" where
  "commit_partitions collate now c version denied resolved n [] held od = ([], held, od)"
| "commit_partitions collate now c version denied resolved n (p # ps) held od =
     (let (err, held, od) = (case denied of
            Some err \<Rightarrow> (err, held, od)
          | None \<Rightarrow> commit_partition_code collate now c version resolved n p held od);
          (rest, held, od) = commit_partitions collate now c version denied resolved n ps held od
      in ((cp_partition_index p, err) # rest, held, od))"

record commit_reply =
  cr_name :: bytes
  cr_topic_id :: bytes
  cr_partitions :: "(i32 \<times> error_code) list"

definition commit_denied :: "error_code option \<Rightarrow> authz \<Rightarrow> bytes \<Rightarrow> error_code option" where
  "commit_denied group_denied authz name =
     (case group_denied of
        Some err \<Rightarrow> Some err
      | None \<Rightarrow> (case authz_check authz Read Topic name of Inl err \<Rightarrow> Some err | Inr _ \<Rightarrow> None))"

definition commit_count :: "resolved_topic option \<Rightarrow> error_code option \<Rightarrow> log_db \<Rightarrow> i32" where
  "commit_count resolved denied db =
     (case (resolved, denied) of (Some r, None) \<Rightarrow> partition_count (rt_topic_id r) db | _ \<Rightarrow> 0)"

fun commit_topics ::
  "(bytes \<Rightarrow> 'k::linorder) \<Rightarrow> int \<Rightarrow> committer \<Rightarrow> i16 \<Rightarrow> error_code option \<Rightarrow> authz \<Rightarrow> commit_topic list \<Rightarrow>
    group_verdict option \<Rightarrow> offsets_db \<Rightarrow> commit_reply list \<times> offsets_db" where
  "commit_topics collate now c version group_denied authz [] held od = ([], od)"
| "commit_topics collate now c version group_denied authz (t # ts) held od =
     (let denied = commit_denied group_denied authz (ot_name t);
          resolved = resolve_topic (ot_name t) (ot_topic_id t) (od_log od);
          n = commit_count resolved denied (od_log od);
          (answers, held, od) = commit_partitions collate now c version denied resolved n (ot_partitions t) held od;
          (rest, od) = commit_topics collate now c version group_denied authz ts held od
      in (\<lparr>cr_name = (case resolved of None \<Rightarrow> ot_name t | Some r \<Rightarrow> rt_name r),
           cr_topic_id = (case resolved of None \<Rightarrow> ot_topic_id t | Some r \<Rightarrow> rt_uuid r),
           cr_partitions = answers\<rparr> # rest, od))"

definition offset_commit ::
  "(bytes \<Rightarrow> 'k::linorder) \<Rightarrow> int \<Rightarrow> offset_commit_request \<Rightarrow> i16 \<Rightarrow> authz \<Rightarrow> offsets_db \<Rightarrow>
    handler_error + (commit_reply list \<times> offsets_db)" where
  "offset_commit collate now req version authz od =
     (let group_denied = (case authz_check authz Read Group (oc_group_id req) of Inl err \<Rightarrow> Some err | Inr _ \<Rightarrow> None);
          total = sum_list (map (\<lambda>t. length (ot_partitions t)) (oc_topics req));
          c = \<lparr>co_group_id = oc_group_id req, co_generation = oc_generation req, co_member_id = oc_member_id req,
               co_instance_id = oc_group_instance_id req\<rparr>
      in if length (oc_topics req) > MAX_OFFSET_PARTITIONS
         then Inl (TooLarge ''offset commit topic list'' (length (oc_topics req)))
         else if total > MAX_OFFSET_PARTITIONS then Inl (TooLarge ''offset commit partition list'' total)
         else Inr (commit_topics collate now c version group_denied authz (oc_topics req) None od))"

subsection \<open>OffsetFetch\<close>

record fetched_offset =
  fo_partition :: i32
  fo_offset :: i64
  fo_leader_epoch :: i32
  fo_metadata :: "bytes option"
  fo_error_code :: error_code

definition committed_topics :: "((bytes \<times> u32 \<times> i32 list) list \<Rightarrow> (bytes \<times> u32 \<times> i32 list) list) \<Rightarrow> bytes \<Rightarrow> log_db \<Rightarrow>
    (bytes \<times> u32 \<times> i32 list) list" where
  "committed_topics group_order gid db =
     (let rows = filter (\<lambda>r. of_group_id r = gid) (lg_offsets db) in
      group_order (List.map_filter (\<lambda>tid.
        map_option (\<lambda>t. (tr_name t, tid, sort_key sint (map of_partition (filter (\<lambda>r. of_topic r = tid) rows))))
          (List.find (\<lambda>t. tr_topic_id t = tid) (lg_topics db))) (remdups (map of_topic rows))))"

definition committed_for_topic :: "bytes \<Rightarrow> u32 \<Rightarrow> log_db \<Rightarrow> (i32 \<times> i64 \<times> i32 \<times> bytes option) list" where
  "committed_for_topic gid topic db =
     map (\<lambda>r. (of_partition r, of_committed_offset r, of_committed_leader_epoch r,
               Some (case of_metadata r of None \<Rightarrow> [] | Some m \<Rightarrow> m)))
       (filter (\<lambda>r. of_group_id r = gid \<and> of_topic r = topic) (lg_offsets db))"

definition unstable_for_topic :: "bytes \<Rightarrow> u32 \<Rightarrow> log_db \<Rightarrow> i32 list" where
  "unstable_for_topic gid topic db =
     map to_partition (filter (\<lambda>s. to_group_id s = gid \<and> to_topic s = topic
       \<and> has_open_txn (lg_producer db) (to_producer_id s)) (lg_txn_offsets db))"

definition fetch_offset :: "bytes \<Rightarrow> u32 \<Rightarrow> bool \<Rightarrow> log_db \<Rightarrow> i32 \<Rightarrow> fetched_offset" where
  "fetch_offset gid topic require_stable db p =
     (if require_stable \<and> p \<in> set (unstable_for_topic gid topic db)
      then \<lparr>fo_partition = p, fo_offset = NO_OFFSET, fo_leader_epoch = - 1, fo_metadata = Some [],
            fo_error_code = E_UnstableOffsetCommit\<rparr>
      else let (off, epoch, metadata) = (case map_of (committed_for_topic gid topic db) p of
                  None \<Rightarrow> (NO_OFFSET, - 1, Some []) | Some x \<Rightarrow> x)
           in \<lparr>fo_partition = p, fo_offset = off, fo_leader_epoch = epoch, fo_metadata = metadata,
               fo_error_code = E_None\<rparr>)"

definition resolve_requested :: "log_db \<Rightarrow> (bytes \<times> i32 list) list \<Rightarrow> (bytes \<times> u32 \<times> i32 list) list" where
  "resolve_requested db ts =
     map (\<lambda>(name, ps). (name, case topic_id_by_name name db of None \<Rightarrow> 0 | Some t \<Rightarrow> t, ps)) ts"

definition offsets_of_topics :: "((bytes \<times> u32 \<times> i32 list) list \<Rightarrow> (bytes \<times> u32 \<times> i32 list) list) \<Rightarrow> bytes \<Rightarrow>
    (bytes \<times> i32 list) list option \<Rightarrow> bool \<Rightarrow> log_db \<Rightarrow> handler_error + (bytes \<times> fetched_offset list) list" where
  "offsets_of_topics group_order gid requested require_stable db =
     rbind (case requested of
              Some ts \<Rightarrow> if length ts > MAX_OFFSET_PARTITIONS then Inl (TooLarge ''offset fetch topic list'' (length ts))
                         else Inr (resolve_requested db ts)
            | None \<Rightarrow> Inr (committed_topics group_order gid db)) (\<lambda>wanted.
       let total = sum_list (map (\<lambda>(name, tid, ps). length ps) wanted) in
       if total > MAX_OFFSET_PARTITIONS then Inl (TooLarge ''offset fetch partition list'' total)
       else Inr (map (\<lambda>(name, tid, ps). (name, map (fetch_offset gid tid require_stable db) ps)) wanted))"

record fetched_topic =
  fet_topic_id :: bytes
  fet_name :: bytes
  fet_partitions :: "fetched_offset list"

definition echoed_topic_id :: "bytes \<Rightarrow> log_db \<Rightarrow> bytes" where
  "echoed_topic_id name db =
     (case topic_id_by_name name db of
        None \<Rightarrow> replicate 16 0
      | Some _ \<Rightarrow> (case resolve_topic name (replicate 16 0) db of None \<Rightarrow> replicate 16 0 | Some r \<Rightarrow> rt_uuid r))"

definition fetch_topics_v8 :: "((bytes \<times> u32 \<times> i32 list) list \<Rightarrow> (bytes \<times> u32 \<times> i32 list) list) \<Rightarrow> bytes \<Rightarrow>
    (bytes \<times> bytes \<times> i32 list) list option \<Rightarrow> bool \<Rightarrow> log_db \<Rightarrow> handler_error + fetched_topic list" where
  "fetch_topics_v8 group_order gid requested require_stable db =
     rbind (offsets_of_topics group_order gid (map_option (map (\<lambda>(name, uuid, ps). (name, ps))) requested) require_stable db)
       (\<lambda>topics. Inr (map (\<lambda>(name, ps). \<lparr>fet_topic_id = echoed_topic_id name db, fet_name = name, fet_partitions = ps\<rparr>) topics))"

record fetch_group =
  fg_group_id :: bytes
  fg_topics :: "(bytes \<times> bytes \<times> i32 list) list option"

record offset_fetch_request =
  off_group_id :: bytes
  off_topics :: "(bytes \<times> i32 list) list option"
  off_groups :: "fetch_group list"
  off_require_stable :: bool

record offset_fetch_reply =
  ofr_topics :: "(bytes \<times> fetched_offset list) list"
  ofr_error_code :: error_code
  ofr_groups :: "(bytes \<times> fetched_topic list \<times> error_code) list"

fun fetch_groups :: "((bytes \<times> u32 \<times> i32 list) list \<Rightarrow> (bytes \<times> u32 \<times> i32 list) list) \<Rightarrow> authz \<Rightarrow> bool \<Rightarrow> log_db \<Rightarrow>
    fetch_group list \<Rightarrow> handler_error + (bytes \<times> fetched_topic list \<times> error_code) list" where
  "fetch_groups group_order authz require_stable db [] = Inr []"
| "fetch_groups group_order authz require_stable db (g # gs) =
     rbind (case authz_check authz Read Group (fg_group_id g) of
              Inl err \<Rightarrow> Inr ([], err)
            | Inr _ \<Rightarrow> rbind (fetch_topics_v8 group_order (fg_group_id g) (fg_topics g) require_stable db)
                        (\<lambda>ts. Inr (ts, E_None))) (\<lambda>(ts, err).
     rbind (fetch_groups group_order authz require_stable db gs) (\<lambda>rest. Inr ((fg_group_id g, ts, err) # rest)))"

definition offset_fetch :: "((bytes \<times> u32 \<times> i32 list) list \<Rightarrow> (bytes \<times> u32 \<times> i32 list) list) \<Rightarrow> offset_fetch_request \<Rightarrow> i16 \<Rightarrow>
    authz \<Rightarrow> log_db \<Rightarrow> handler_error + offset_fetch_reply" where
  "offset_fetch group_order req version authz db =
     (if sint version \<ge> OFFSET_FETCH_BATCHED_FROM
      then rbind (check_admin_len ''offset fetch group list'' (length (off_groups req))) (\<lambda>_.
           rbind (fetch_groups group_order authz (off_require_stable req) db (off_groups req)) (\<lambda>gs.
             Inr \<lparr>ofr_topics = [], ofr_error_code = E_None, ofr_groups = gs\<rparr>))
      else case authz_check authz Read Group (off_group_id req) of
             Inl err \<Rightarrow> Inr \<lparr>ofr_topics = [], ofr_error_code = err, ofr_groups = []\<rparr>
           | Inr _ \<Rightarrow>
               rbind (offsets_of_topics group_order (off_group_id req) (off_topics req) (off_require_stable req) db) (\<lambda>ts.
                 Inr \<lparr>ofr_topics = ts, ofr_error_code = E_None, ofr_groups = []\<rparr>))"

subsection \<open>OffsetDelete\<close>

definition remove_offset :: "bytes \<Rightarrow> u32 \<Rightarrow> i32 \<Rightarrow> log_db \<Rightarrow> log_db" where
  "remove_offset gid topic part db =
     db\<lparr>lg_offsets := filter (\<lambda>r. offset_key r \<noteq> (gid, topic, part)) (lg_offsets db)\<rparr>"

definition delete_one_offset :: "bytes \<Rightarrow> error_code option \<Rightarrow> bool \<Rightarrow> u32 option \<Rightarrow> i32 \<Rightarrow> log_db \<Rightarrow> error_code \<times> log_db" where
  "delete_one_offset gid denied has_members topic_id p db =
     (case denied of
        Some err \<Rightarrow> (err, db)
      | None \<Rightarrow>
          if has_members then (E_GroupSubscribedToTopic, db)
          else case topic_id of
                 Some tid \<Rightarrow> (E_None, remove_offset gid tid p db)
               | None \<Rightarrow> (E_None, db))"

fun delete_partitions :: "bytes \<Rightarrow> error_code option \<Rightarrow> bool \<Rightarrow> u32 option \<Rightarrow> i32 list \<Rightarrow> log_db \<Rightarrow>
    (i32 \<times> error_code) list \<times> log_db" where
  "delete_partitions gid denied has_members topic_id [] db = ([], db)"
| "delete_partitions gid denied has_members topic_id (p # ps) db =
     (let (err, db) = delete_one_offset gid denied has_members topic_id p db;
          (rest, db) = delete_partitions gid denied has_members topic_id ps db
      in ((p, err) # rest, db))"

fun delete_topics_offsets :: "bytes \<Rightarrow> bool \<Rightarrow> authz \<Rightarrow> (bytes \<times> i32 list) list \<Rightarrow> log_db \<Rightarrow>
    (bytes \<times> (i32 \<times> error_code) list) list \<times> log_db" where
  "delete_topics_offsets gid has_members authz [] db = ([], db)"
| "delete_topics_offsets gid has_members authz ((name, ps) # ts) db =
     (let denied = (case authz_check authz Delete Topic name of Inl err \<Rightarrow> Some err | Inr _ \<Rightarrow> None);
          (answers, db) = delete_partitions gid denied has_members (topic_id_by_name name db) ps db;
          (rest, db) = delete_topics_offsets gid has_members authz ts db
      in ((name, answers) # rest, db))"

definition offset_delete :: "bytes \<Rightarrow> (bytes \<times> i32 list) list \<Rightarrow> authz \<Rightarrow> offsets_db \<Rightarrow>
    handler_error + (error_code \<times> (bytes \<times> (i32 \<times> error_code) list) list \<times> offsets_db)" where
  "offset_delete gid topics authz od =
     (case authz_check authz Delete Group gid of
        Inl err \<Rightarrow> Inr (err, [], od)
      | Inr _ \<Rightarrow>
          rbind (check_admin_len ''offset delete topic list'' (length topics)) (\<lambda>_.
            let total = sum_list (map (\<lambda>(name, ps). length ps) topics) in
            if total > MAX_OFFSET_PARTITIONS then Inl (TooLarge ''offset delete partition list'' total)
            else let (exists, has_members) = existence gid (group_view od) in
                 if \<not> exists then Inr (E_GroupIdNotFound, [], od)
                 else let (answers, db) = delete_topics_offsets gid has_members authz topics (od_log od)
                      in Inr (E_None, answers, od\<lparr>od_log := db\<rparr>)))"

subsection \<open>TxnOffsetCommit\<close>

record txn_commit_request =
  tc_transactional_id :: bytes
  tc_group_id :: bytes
  tc_producer_id :: i64
  tc_producer_epoch :: i16
  tc_generation_id :: i32
  tc_member_id :: bytes
  tc_group_instance_id :: "bytes option"
  tc_topics :: "(bytes \<times> commit_partition list) list"

definition txn_commit_code :: "verdict + admitted \<Rightarrow> i16 \<Rightarrow> error_code" where
  "txn_commit_code v version =
     (case v of
        Inl Stale \<Rightarrow> E_InvalidProducerEpoch
      | Inl other \<Rightarrow> verdict_code other version
      | Inr _ \<Rightarrow> E_None)"

definition txn_unverified :: "verdict + admitted \<Rightarrow> i16 \<Rightarrow> bytes \<Rightarrow> log_db \<Rightarrow> error_code" where
  "txn_unverified v version gid db =
     (case v of
        Inr ad \<Rightarrow>
          if sint version < 5 \<and> gid \<noteq> []
          then if offsets_partition_added ad gid db then E_None
               else if sint version \<ge> 4 then E_TransactionAbortable
               else E_InvalidTxnState
          else E_None
      | Inl _ \<Rightarrow> E_None)"

definition txn_part_code :: "error_code \<Rightarrow> error_code \<Rightarrow> bytes \<Rightarrow> group_verdict option \<Rightarrow> u32 option \<Rightarrow> i32 \<Rightarrow> i32 \<Rightarrow> error_code" where
  "txn_part_code err unverified gid held topic_id n index =
     (if err = E_InvalidRequest \<and> gid \<noteq> [] then err
      else case topic_id of
             None \<Rightarrow> E_UnknownTopicOrPartition
           | Some tid \<Rightarrow>
               if sint index < 0 \<or> sint index \<ge> sint n then E_UnknownTopicOrPartition
               else if gid = [] then E_InvalidGroupId
               else if unverified \<noteq> E_None then unverified
               else case held of Some g \<Rightarrow> code_for g tid index | None \<Rightarrow> err)"

text \<open>The answers of one topic, and the partitions of it to stage.\<close>

definition txn_topic :: "error_code \<Rightarrow> error_code \<Rightarrow> bytes \<Rightarrow> group_verdict option \<Rightarrow> log_db \<Rightarrow> bytes \<times> commit_partition list \<Rightarrow>
    (bytes \<times> (i32 \<times> error_code) list) \<times> (u32 \<times> commit_partition) list \<times> bool" where
  "txn_topic err unverified gid held db t =
     (let (name, ps) = t; topic_id = topic_id_by_name name db;
          n = (case topic_id of None \<Rightarrow> 0 | Some tid \<Rightarrow> partition_count tid db);
          code_of = (\<lambda>p. txn_part_code err unverified gid held topic_id n (cp_partition_index p))
      in ((name, map (\<lambda>p. (cp_partition_index p, code_of p)) ps),
          (case topic_id of None \<Rightarrow> [] | Some tid \<Rightarrow> map (Pair tid) (filter (\<lambda>p. code_of p = E_None) ps)),
          topic_id \<noteq> None \<and> (\<exists>p \<in> set ps. 0 \<le> sint (cp_partition_index p) \<and> sint (cp_partition_index p) < sint n)))"

definition stage_offset :: "i64 \<Rightarrow> bytes \<Rightarrow> u32 \<times> commit_partition \<Rightarrow> log_db \<Rightarrow> log_db" where
  "stage_offset pid gid x db =
     (let (topic, p) = x;
          own = (\<lambda>s. to_producer_id s = pid \<and> to_group_id s = gid \<and> to_topic s = topic
                     \<and> to_partition s = cp_partition_index p)
      in db\<lparr>lg_txn_offsets :=
        (if \<exists>s \<in> set (lg_txn_offsets db). own s
         then map (\<lambda>s. if own s then s\<lparr>to_committed_offset := cp_committed_offset p,
                to_committed_leader_epoch := cp_committed_leader_epoch p, to_metadata := cp_committed_metadata p\<rparr>
                else s) (lg_txn_offsets db)
         else lg_txn_offsets db @ [\<lparr>to_producer_id = pid, to_group_id = gid, to_topic = topic,
                to_partition = cp_partition_index p, to_committed_offset = cp_committed_offset p,
                to_committed_leader_epoch = cp_committed_leader_epoch p, to_metadata = cp_committed_metadata p\<rparr>])\<rparr>)"

definition handle_txn_offset_commit ::
  "(bytes \<Rightarrow> 'k::linorder) \<Rightarrow> int \<Rightarrow> txn_commit_request \<Rightarrow> i16 \<Rightarrow> offsets_db \<Rightarrow>
    (bytes \<times> (i32 \<times> error_code) list) list \<times> offsets_db" where
  "handle_txn_offset_commit collate now req version od =
     (let v = verdict (tc_transactional_id req) (tc_producer_id req) (tc_producer_epoch req) (od_log od);
          err = txn_commit_code v version;
          unverified = txn_unverified v version (tc_group_id req) (od_log od);
          c = \<lparr>co_group_id = tc_group_id req, co_generation = tc_generation_id req, co_member_id = tc_member_id req,
               co_instance_id = tc_group_instance_id req\<rparr>;
          (held, od) = (if err = E_None \<and> unverified = E_None \<and> tc_group_id req \<noteq> []
                        then map_prod Some id (validate_commit collate now c True version od) else (None, od));
          rs = map (txn_topic err unverified (tc_group_id req) held (od_log od)) (tc_topics req);
          any_partition = (\<exists>r \<in> set rs. snd (snd r));
          begins = (sint version \<ge> 5 \<and> any_partition \<and> tc_group_id req \<noteq> []);
          db = (case v of
                  Inr ad \<Rightarrow> if begins then add_offsets_partition ad (tc_group_id req)
                                          (begin_or_continue now ad (tc_transactional_id req) (od_log od)) else od_log od
                | Inl _ \<Rightarrow> od_log od);
          db = fold (stage_offset (tc_producer_id req) (tc_group_id req)) (concat (map (\<lambda>r. fst (snd r)) rs)) db
      in (map fst rs, od\<lparr>od_log := db\<rparr>))"

end
