(* ===== verification/Broker.thy ===== *)
theory Broker
  imports Topic_Steps Offsets Step_System
begin

text \<open>
  The broker as a transition system: one step is one request or one pass of a background sweep, each a
  database transaction (\<open>src/extension/src/server/dispatch.rs\<close>, \<open>src/extension/src/dbtx.rs\<close>). A request that
  fails is rolled back and is no step. \<open>log_step\<close> has the operations on the log tables, \<open>broker_step\<close> adds the
  requests that also read the groups; the groups themselves change as \<open>GroupHandlers\<close> lets them, and here in
  any way. \<open>sys_inv\<close> holds in every reachable state.

  Three operations carry a guard. The producer-id sequence is below its last value, which takes \<open>2^63\<close>
  producers. No client sends a batch with the control attribute: the broker stores such a batch as it
  stands. Records are deleted up to the high watermark at most, as \<open>DeleteRecords\<close> checks.
\<close>

inductive log_step :: "int \<Rightarrow> (bytes \<Rightarrow> u32) \<Rightarrow> codec_env \<Rightarrow> log_db \<Rightarrow> log_db \<Rightarrow> bool"
  for seg_size :: int and crc :: "bytes \<Rightarrow> u32" and env :: codec_env where
  step_produce: "client_batches req \<Longrightarrow> produce seg_size env crc now req version authz db = (outcome, db') \<Longrightarrow>
    log_step seg_size crc env db db'"
| step_add_partitions: "handle_add_partitions now areq version db = (areply, db') \<Longrightarrow> log_step seg_size crc env db db'"
| step_add_offsets: "handle_add_offsets now oreq version db = (oreply, db') \<Longrightarrow> log_step seg_size crc env db db'"
| step_end_txn: "sint (db_producer_id_seq (lg_producer db)) < 2 ^ 63 - 1 \<Longrightarrow>
    handle_end_txn seg_size crc now tv ereq version db = Inr (ereply, db') \<Longrightarrow> log_step seg_size crc env db db'"
| step_init_producer_id: "sint (db_producer_id_seq (lg_producer db)) < 2 ^ 63 - 1 \<Longrightarrow>
    handle_init_producer_id seg_size crc now ireq authz db = Inr (ireply, db') \<Longrightarrow> log_step seg_size crc env db db'"
| step_expire: "expire_stale_transactions seg_size crc now db = Inr (n, db') \<Longrightarrow> log_step seg_size crc env db db'"
| step_write_markers: "write_txn_markers seg_size crc now ms authz db = Inr (results, db') \<Longrightarrow> log_step seg_size crc env db db'"
| step_create_topic: "create_topic seg_size uuid name parts mmb policy db = Inr (created, db') \<Longrightarrow> log_step seg_size crc env db db'"
| step_create_partitions: "create_partitions seg_size name parts db = Inr db' \<Longrightarrow> log_step seg_size crc env db db'"
| step_delete_topic: "delete_topic name db = (found, db') \<Longrightarrow> log_step seg_size crc env db db'"
| step_retention: "enforce_retention now topic rpolicy db = Inr (n, db') \<Longrightarrow> log_step seg_size crc env db db'"
| step_truncate: "high_watermark topic part db = Inr hw \<Longrightarrow> off \<le> hw \<Longrightarrow> truncate_below topic part off db = Inr db' \<Longrightarrow>
    log_step seg_size crc env db db'"
| step_promote: "set_leader_epoch topic part epoch db = Inr (raised, db') \<Longrightarrow> log_step seg_size crc env db db'"
| step_sweep_producers: "sweep now locked spolicy (lg_producer db) = (removed, pdb) \<Longrightarrow>
    log_step seg_size crc env db (db\<lparr>lg_producer := pdb\<rparr>)"

inductive broker_step :: "int \<Rightarrow> (bytes \<Rightarrow> u32) \<Rightarrow> codec_env \<Rightarrow> offsets_db \<Rightarrow> offsets_db \<Rightarrow> bool"
  for seg_size :: int and crc :: "bytes \<Rightarrow> u32" and env :: codec_env where
  step_log: "log_step seg_size crc env (od_log od) db \<Longrightarrow> broker_step seg_size crc env od (od\<lparr>od_log := db\<rparr>)"
| step_offset_commit: "offset_commit (collate :: bytes \<Rightarrow> int) now creq version authz od = Inr (creply, od') \<Longrightarrow>
    broker_step seg_size crc env od od'"
| step_txn_offset_commit: "handle_txn_offset_commit (collate :: bytes \<Rightarrow> int) now treq version od = (treply, od') \<Longrightarrow>
    broker_step seg_size crc env od od'"
| step_offset_delete: "offset_delete gid dtopics authz od = Inr (err, dreply, od') \<Longrightarrow> broker_step seg_size crc env od od'"
| step_groups: "broker_step seg_size crc env od (od\<lparr>od_groups := gdb, od_share_groups := sg, od_consumer_groups := cg,
    od_consumer_members := cm\<rparr>)"

inductive_cases log_stepE: "log_step seg_size crc env db db'"
inductive_cases broker_stepE: "broker_step seg_size crc env od od'"

subsection \<open>Every step of the log keeps the invariant\<close>

lemma truncate_sys:
  assumes "sys_inv seg_size crc env db" and "high_watermark topic part db = Inr hw" and "off \<le> hw"
    and "truncate_below topic part off db = Inr db'"
  shows "sys_inv seg_size crc env db'"
proof -
  obtain n where "reclaim topic part off db = Inr (n, db')"
    using assms(4) by (auto simp: truncate_below_def rbind_eq_Inr)
  then show ?thesis
    by (rule reclaim_sys [OF assms(1)]) (use assms(2,3) in \<open>auto simp: high_watermark_def\<close>)
qed

lemma log_step_inv:
  assumes "log_step seg_size crc env db db'" and sz: "0 < seg_size" and inv: "sys_inv seg_size crc env db"
  shows "sys_inv seg_size crc env db'"
  using assms(1)
proof cases
  case step_produce
  then show ?thesis using produce_sys [OF inv sz] by blast
next
  case step_truncate
  then show ?thesis using truncate_sys [OF inv] by blast
next
  case step_sweep_producers
  then show ?thesis using sweep_sys [OF inv] by blast
next
  case step_end_txn
  then show ?thesis using handle_end_txn_sys [OF inv sz] by blast
next
  case step_init_producer_id
  then show ?thesis using handle_init_producer_id_sys [OF inv sz] by blast
qed (use inv sz in \<open>blast intro: handle_add_partitions_sys handle_add_offsets_sys expire_stale_transactions_sys
      write_txn_markers_sys create_topic_sys create_partitions_sys delete_topic_sys enforce_retention_sys set_leader_epoch_sys\<close>)+

subsection \<open>So does every request on offsets\<close>

text \<open>The committed and the staged offsets are outside the invariant.\<close>

lemma offsets_frame:
  assumes inv: "sys_inv seg_size crc env db"
  shows "sys_inv seg_size crc env (db\<lparr>lg_offsets := xs\<rparr>)" and "sys_inv seg_size crc env (db\<lparr>lg_txn_offsets := ss\<rparr>)"
  by (rule sys_frame [OF inv]; use txn_inv_keys [OF sys_txn [OF inv]] sys_coord [OF inv] in simp)+

lemma commit_one_sys: "sys_inv seg_size crc env db \<Longrightarrow> sys_inv seg_size crc env (commit_one now gid topic p db)"
  unfolding commit_one_def Let_def by (rule offsets_frame)

lemma remove_offset_sys: "sys_inv seg_size crc env db \<Longrightarrow> sys_inv seg_size crc env (remove_offset gid topic part db)"
  unfolding remove_offset_def by (rule offsets_frame)

lemma stage_offset_sys: "sys_inv seg_size crc env db \<Longrightarrow> sys_inv seg_size crc env (stage_offset pid gid x db)"
  unfolding stage_offset_def Let_def split_beta by (rule offsets_frame)

lemma stage_all_sys: "sys_inv seg_size crc env db \<Longrightarrow> sys_inv seg_size crc env (fold (stage_offset pid gid) xs db)"
  by (induction xs arbitrary: db) (simp_all add: stage_offset_sys)

text \<open>A verdict on the group changes a heartbeat at most.\<close>

lemma validate_commit_log: "validate_commit collate now c transactional version od = (v, od') \<Longrightarrow> od_log od' = od_log od"
  by (auto simp: validate_commit_def Let_def split: if_splits option.splits)

lemma validate_commit_snd [simp]: "od_log (snd (validate_commit collate now c transactional version od)) = od_log od"
  by (rule validate_commit_log) (rule prod.collapse [symmetric])

lemma commit_partition_code_sys:
  assumes "commit_partition_code collate now c version resolved n p held od = (err, held', od')"
    and "sys_inv seg_size crc env (od_log od)"
  shows "sys_inv seg_size crc env (od_log od')"
proof (cases resolved)
  case None
  then show ?thesis using assms by (auto simp: commit_partition_code_def)
next
  case (Some r)
  obtain v d where v: "(case held of Some v \<Rightarrow> (v, od) | None \<Rightarrow> validate_commit collate now c False version od) = (v, d)"
    by (meson surj_pair)
  have "od_log d = od_log od" using v validate_commit_log by (cases held) auto
  then have "sys_inv seg_size crc env (od_log d)" using assms(2) by simp
  then show ?thesis using assms commit_one_sys
    by (cases v) (auto simp: commit_partition_code_def Some v split: if_splits)
qed

lemma commit_partitions_sys:
  "commit_partitions collate now c version denied resolved n ps held od = (rs, held', od') \<Longrightarrow>
     sys_inv seg_size crc env (od_log od) \<Longrightarrow> sys_inv seg_size crc env (od_log od')"
  by (induction ps arbitrary: held od rs)
    (auto split: prod.splits option.splits dest: commit_partition_code_sys)

lemma commit_topics_sys:
  "commit_topics collate now c version gd authz ts held od = (rs, od') \<Longrightarrow>
     sys_inv seg_size crc env (od_log od) \<Longrightarrow> sys_inv seg_size crc env (od_log od')"
  by (induction ts arbitrary: held od rs) (auto simp: Let_def split: prod.splits dest: commit_partitions_sys)

lemma offset_commit_sys:
  "offset_commit collate now req version authz od = Inr (reply, od') \<Longrightarrow>
     sys_inv seg_size crc env (od_log od) \<Longrightarrow> sys_inv seg_size crc env (od_log od')"
  by (auto simp: offset_commit_def Let_def dest: commit_topics_sys split: if_splits)

lemma delete_partitions_sys:
  "delete_partitions gid denied has_members topic_id ps db = (rs, db') \<Longrightarrow>
     sys_inv seg_size crc env db \<Longrightarrow> sys_inv seg_size crc env db'"
  by (induction ps arbitrary: db rs)
    (auto simp: delete_one_offset_def remove_offset_sys split: prod.splits option.splits if_splits)

lemma delete_topics_offsets_sys:
  "delete_topics_offsets gid has_members authz ts db = (rs, db') \<Longrightarrow>
     sys_inv seg_size crc env db \<Longrightarrow> sys_inv seg_size crc env db'"
proof (induction ts arbitrary: db rs)
  case (Cons t ts)
  then show ?case by (cases t) (auto simp: Let_def split: prod.splits dest!: delete_partitions_sys)
qed simp

lemma offset_delete_sys:
  "offset_delete gid topics authz od = Inr (err, reply, od') \<Longrightarrow>
     sys_inv seg_size crc env (od_log od) \<Longrightarrow> sys_inv seg_size crc env (od_log od')"
  by (auto simp: offset_delete_def Let_def rbind_eq_Inr dest: delete_topics_offsets_sys split: sum.splits if_splits prod.splits)

lemma verdict_bind_sys:
  assumes inv: "sys_inv seg_size crc env db" and "verdict txn_id pid epoch db = Inr ad"
  shows "sys_inv seg_size crc env (add_offsets_partition ad gid (begin_or_continue now ad txn_id db))"
  using verdict_begin(1) [OF assms] by (rule add_offsets_partition_sys)

lemma handle_txn_offset_commit_sys:
  assumes "handle_txn_offset_commit collate now req version od = (reply, od')"
    and inv: "sys_inv seg_size crc env (od_log od)"
  shows "sys_inv seg_size crc env (od_log od')"
proof -
  define v where "v = verdict (tc_transactional_id req) (tc_producer_id req) (tc_producer_epoch req) (od_log od)"
  obtain held d where d: "(if txn_commit_code v version = E_None \<and> txn_unverified v version (tc_group_id req) (od_log od) = E_None
      \<and> tc_group_id req \<noteq> [] then map_prod Some id (validate_commit collate now
        \<lparr>co_group_id = tc_group_id req, co_generation = tc_generation_id req, co_member_id = tc_member_id req,
         co_instance_id = tc_group_instance_id req\<rparr> True version od) else (None, od)) = (held, d)"
    by (meson surj_pair)
  have d_log: "od_log d = od_log od"
    using d by (auto split: if_splits simp: map_prod_def split_beta)
  have bind: "sys_inv seg_size crc env (case v of
      Inr ad \<Rightarrow> if begins then add_offsets_partition ad (tc_group_id req)
        (begin_or_continue now ad (tc_transactional_id req) (od_log d)) else od_log d
    | Inl _ \<Rightarrow> od_log d)" for begins
    using verdict_bind_sys [OF inv] inv by (auto simp: v_def d_log split: sum.splits)
  have "od' = snd (handle_txn_offset_commit collate now req version od)" using assms(1) by simp
  then show ?thesis unfolding handle_txn_offset_commit_def Let_def v_def [symmetric] d
    by (simp add: stage_all_sys [OF bind])
qed

subsection \<open>Reachable states\<close>

lemma broker_step_inv:
  assumes "broker_step seg_size crc env od od'" and "0 < seg_size" and "sys_inv seg_size crc env (od_log od)"
  shows "sys_inv seg_size crc env (od_log od')"
  using assms(1)
proof cases
  case (step_log db)
  then show ?thesis using log_step_inv [OF _ assms(2,3)] by simp
qed (use assms(3) in \<open>auto dest: offset_commit_sys handle_txn_offset_commit_sys offset_delete_sys\<close>)

definition empty_producer_db :: producer_db where
  "empty_producer_db = \<lparr>db_producers = [], db_batches = [], db_txns = [], db_producer_id_seq = 1,
     db_batch_seq = 0, db_epoch_start = (\<lambda>topic part. None)\<rparr>"

definition empty_log_db :: log_db where
  "empty_log_db = \<lparr>lg_topic_id_seq = 1, lg_topics = [], lg_partitions = [], lg_log = [], lg_segments = [],
     lg_epochs = [], lg_markers = [], lg_txn_partitions = [], lg_aborted = [], lg_txn_offsets = [], lg_offsets = [],
     lg_producer = empty_producer_db\<rparr>"

definition empty_broker :: offsets_db where
  "empty_broker = \<lparr>od_log = empty_log_db, od_groups = \<lparr>gd_groups = [], gd_members = [], gd_offsets = []\<rparr>,
     od_share_groups = [], od_consumer_groups = [], od_consumer_members = []\<rparr>"

lemma empty_sys: "sys_inv seg_size crc env (od_log empty_broker)"
  by (simp add: empty_broker_def empty_log_db_def empty_producer_db_def sys_inv_def broker_inv_def log_inv_def
      partitions_ok_def segments_ok_def part_log_def ascending_def epoch_inv_def txn_inv_def topics_ok_def txns_of_def
      coord_inv_def)

interpretation bk: step_system "broker_step seg_size crc env" "\<lambda>od. 0 < seg_size \<and> sys_inv seg_size crc env (od_log od)"
  for seg_size crc env
  by unfold_locales (blast intro: broker_step_inv)

text \<open>What holds of every state that satisfies the invariant holds of every state the broker reaches.\<close>

definition broker_reachable :: "int \<Rightarrow> (bytes \<Rightarrow> u32) \<Rightarrow> codec_env \<Rightarrow> offsets_db \<Rightarrow> bool" where
  "broker_reachable seg_size crc env od \<longleftrightarrow> 0 < seg_size \<and> (broker_step seg_size crc env)\<^sup>*\<^sup>* empty_broker od"

lemma reachable_sys: "broker_reachable seg_size crc env od \<Longrightarrow> sys_inv seg_size crc env (od_log od)"
  unfolding broker_reachable_def using bk.reachable_inv empty_sys by blast

lemma reachable_facts:
  assumes "broker_reachable seg_size crc env od"
  shows reachable_log: "log_inv seg_size crc (od_log od)" and reachable_epoch: "epoch_inv (od_log od)"
    and reachable_txn: "txn_inv env (od_log od)" and reachable_coord: "coord_inv (lg_producer (od_log od))"
  using sys_invD [OF reachable_sys [OF assms]] by simp_all

end
