(* ===== verification/Sample_Run.thy ===== *)
theory Sample_Run
  imports Broker
begin

text \<open>
  A concrete run of the broker, with the steps written out: a topic is created, a transactional producer is initialised,
  it writes a batch and aborts. The witnesses of the properties on reachable brokers use its states. The CRC of the run
  is the constant function and the batches are not compressed, so the run can be evaluated.
\<close>

definition run_crc :: "bytes \<Rightarrow> u32" where "run_crc d = 0"

definition run_env :: codec_env where
  "run_env = \<lparr>crc32c = run_crc, gz_decode = (\<lambda>p. (p, False)), lz4_decode = (\<lambda>p. ([], True)),
     zstd_decode = (\<lambda>p. None), snap_len = (\<lambda>p. None), snap_decode = (\<lambda>p. None),
     capped_prefix = (\<lambda>p. 0), header_entry_size = 56\<rparr>"

definition run_authz :: authz where
  "run_authz = \<lparr>az_acls = acl_load False [] [], az_principal = principal_anonymous (ascii ''10.0.0.1'')\<rparr>"

definition run_init :: init_producer_request where
  "run_init = \<lparr>ip_transactional_id = Some [120], ip_transaction_timeout_ms = 60000\<rparr>"

definition run_batch :: bytes where
  "run_batch = batch_wire run_crc 0 0 16 1 10 10 1 0 0 2 [1, 2, 3]"

definition run_produce :: produce_request where
  "run_produce = \<lparr>pq_transactional_id = Some [120], pq_acks = 1, pq_topics = [\<lparr>pd_name = ascii ''t'',
     pd_topic_id = replicate 16 0, pd_partitions = [\<lparr>pp_index = 0, pp_records = Some run_batch\<rparr>]\<rparr>]\<rparr>"

definition run_abort :: end_txn_request where
  "run_abort = \<lparr>et_transactional_id = [120], et_producer_id = 1, et_producer_epoch = 0, et_committed = False\<rparr>"

definition run_created :: log_db where
  "run_created = snd (projr (create_topic 1000 (replicate 16 7) (ascii ''t'') 1 None None empty_log_db))"

definition run_ready :: log_db where
  "run_ready = snd (projr (handle_init_producer_id 1000 run_crc 5 run_init run_authz run_created))"

definition run_written :: log_db where
  "run_written = snd (produce 1000 run_env run_crc 6 run_produce 12 run_authz run_ready)"

definition run_aborted :: log_db where
  "run_aborted = snd (projr (handle_end_txn 1000 run_crc 7 2 run_abort 5 run_written))"

definition run_broker :: "log_db \<Rightarrow> offsets_db" where
  "run_broker db = empty_broker\<lparr>od_log := db\<rparr>"

lemma Inr_projr: "\<not> isl x \<Longrightarrow> x = Inr (fst (projr x), snd (projr x))"
  by (cases x) simp_all

lemma run_broker_log [simp]: "od_log (run_broker db) = db"
  by (simp add: run_broker_def)

lemma run_step:
  assumes "broker_reachable seg_size crc env (run_broker db)" and "log_step seg_size crc env db db'"
  shows "broker_reachable seg_size crc env (run_broker db')"
proof -
  have "broker_step seg_size crc env (run_broker db) ((run_broker db)\<lparr>od_log := db'\<rparr>)"
    by (rule step_log) (use assms(2) in simp)
  then show ?thesis using assms(1) by (auto simp: broker_reachable_def run_broker_def)
qed

lemma run_empty: "0 < seg_size \<Longrightarrow> broker_reachable seg_size crc env (run_broker empty_log_db)"
  by (simp add: broker_reachable_def run_broker_def empty_broker_def)

lemma created_ok: "\<not> isl (create_topic 1000 (replicate 16 7) (ascii ''t'') 1 None None empty_log_db)"
  by code_simp

lemma ready_ok: "\<not> isl (handle_init_producer_id 1000 run_crc 5 run_init run_authz run_created)
   \<and> sint (db_producer_id_seq (lg_producer run_created)) < 2 ^ 63 - 1"
  by code_simp

lemma batch_plain: "list_all (\<lambda>v. case v of Inl _ \<Rightarrow> True | Inr view \<Rightarrow> \<not> is_control view) (batch_iter run_batch)"
  by code_simp

lemma aborted_ok: "\<not> isl (handle_end_txn 1000 run_crc 7 2 run_abort 5 run_written)
   \<and> sint (db_producer_id_seq (lg_producer run_written)) < 2 ^ 63 - 1"
  by code_simp

lemma reach_created: "broker_reachable 1000 run_crc run_env (run_broker run_created)"
  by (rule run_step [OF run_empty step_create_topic [OF created_ok [THEN Inr_projr, folded run_created_def]]]) simp

lemma reach_ready: "broker_reachable 1000 run_crc run_env (run_broker run_ready)"
  by (rule run_step [OF reach_created step_init_producer_id
        [OF ready_ok [THEN conjunct2] ready_ok [THEN conjunct1, THEN Inr_projr, folded run_ready_def]]])

lemma run_plain: "client_batches run_produce"
  using batch_plain by (force simp: client_batches_def run_produce_def list_all_iff split: sum.splits)

lemma reach_written: "broker_reachable 1000 run_crc run_env (run_broker run_written)"
  by (rule run_step [OF reach_ready step_produce [OF run_plain]]) (simp add: run_written_def prod_eq_iff)

lemma reach_aborted: "broker_reachable 1000 run_crc run_env (run_broker run_aborted)"
  by (rule run_step [OF reach_written step_end_txn
        [OF aborted_ok [THEN conjunct2] aborted_ok [THEN conjunct1, THEN Inr_projr, folded run_aborted_def]]])

text \<open>What the run left in the one partition: the aborted batch at offsets 0 and 1 and the marker at offset 2.\<close>

definition run_part :: partition_row where "run_part = projr (find_partition 1 0 run_aborted)"

definition run_chunk :: fetch_slice where "run_chunk = projr (read 1 0 0 1000 ReadCommitted run_aborted)"

definition run_raw :: raw_batch where
  "run_raw = raw_batch_of (RecordBatch run_batch)"

definition run_question :: epoch_question where
  "run_question = \<lparr>eq_partition = 0, eq_current_leader_epoch = - 1, eq_leader_epoch = 0\<rparr>"

lemma run_part_found: "find_partition 1 0 run_aborted = Inr run_part"
proof -
  have "\<not> isl (find_partition 1 0 run_aborted)" by code_simp
  then show ?thesis by (simp add: run_part_def)
qed

lemma run_chunk_read: "read 1 0 0 1000 ReadCommitted run_aborted = Inr run_chunk"
proof -
  have "\<not> isl (read 1 0 0 1000 ReadCommitted run_aborted)" by code_simp
  then show ?thesis by (simp add: run_chunk_def)
qed

lemma run_rows: "map (\<lambda>r. (lr_base r, lr_last r, lr_is_control r)) (part_log 1 0 run_aborted) = [(0, 1, False), (2, 2, True)]"
  by code_simp

lemma run_raw_fits: "appendable run_crc run_raw"
  by code_simp

end
