(* ===== verification/Log_Properties.thy ===== *)
theory Log_Properties
  imports Sample_Run
begin

text \<open>
  What the log promises its clients: appends extend it at ascending offsets, a read returns stored batches as
  they stand, retention takes nothing that is still in the log, and leader epochs separate it.

  \<open>append_log\<close> is the side of the storage boundary (\<open>LogStore\<close> of \<open>src/extension/src/storage/mod.rs\<close>) that a
  writer relies on; it is interpreted on the table engine.
\<close>

subsection \<open>The contract of a writer\<close>

fun append_all :: "('b \<Rightarrow> 's \<Rightarrow> 'e + (int \<times> 's)) \<Rightarrow> 'b list \<Rightarrow> 's \<Rightarrow> 'e + (int list \<times> 's)" where
  "append_all add [] s = Inr ([], s)"
| "append_all add (b # bs) s =
     rbind (add b s) (\<lambda>(off, s). rbind (append_all add bs s) (\<lambda>(offs, s). Inr (off # offs, s)))"

locale append_log =
  fixes inv :: "'s \<Rightarrow> bool" and log_of :: "'s \<Rightarrow> 'r list" and next_of :: "'s \<Rightarrow> int"
    and add :: "'b \<Rightarrow> 's \<Rightarrow> 'e + (int \<times> 's)" and fits :: "'b \<Rightarrow> bool"
    and base :: "'r \<Rightarrow> int" and final :: "'r \<Rightarrow> int" and stores :: "'b \<Rightarrow> int \<Rightarrow> 'r \<Rightarrow> bool"
  assumes add_inv: "inv s \<Longrightarrow> fits b \<Longrightarrow> add b s = Inr (off, s') \<Longrightarrow> inv s'"
    and add_log: "inv s \<Longrightarrow> fits b \<Longrightarrow> add b s = Inr (off, s') \<Longrightarrow>
      \<exists>r. log_of s' = log_of s @ [r] \<and> stores b off r \<and> next_of s' = final r + 1"
    and add_total: "inv s \<Longrightarrow> fits b \<Longrightarrow> \<exists>s'. add b s = Inr (next_of s, s')"
    and stores_span: "stores b off r \<Longrightarrow> base r = off \<and> off \<le> final r"
begin

lemma run_log:
  assumes "inv s" and "\<forall>b \<in> set bs. fits b" and "append_all add bs s = Inr (offs, s')"
  shows "inv s' \<and> next_of s \<le> next_of s' \<and> (\<exists>rs. log_of s' = log_of s @ rs \<and> list_all2 (\<lambda>b r. stores b (base r) r) bs rs
     \<and> map base rs = offs \<and> sorted_wrt (\<lambda>a b. final a < base b) rs
     \<and> (\<forall>r \<in> set rs. next_of s \<le> base r \<and> final r < next_of s'))"
  using assms
proof (induction bs arbitrary: s offs)
  case Nil
  then show ?case by simp
next
  case (Cons b bs)
  have fit: "fits b" "\<forall>b \<in> set bs. fits b" using Cons.prems(2) by simp_all
  obtain s1 where add: "add b s = Inr (next_of s, s1)" using add_total [OF Cons.prems(1) fit(1)] by blast
  obtain offs' where offs: "append_all add bs s1 = Inr (offs', s')" "offs = next_of s # offs'"
    using Cons.prems(3) add by (auto simp: rbind_eq_Inr)
  obtain r where r: "log_of s1 = log_of s @ [r]" "stores b (next_of s) r" "next_of s1 = final r + 1"
    using add_log [OF Cons.prems(1) fit(1) add] by blast
  have span: "base r = next_of s" "next_of s \<le> final r" using stores_span [OF r(2)] by simp_all
  obtain rs where rs: "log_of s' = log_of s1 @ rs" "list_all2 (\<lambda>b r. stores b (base r) r) bs rs" "map base rs = offs'"
      "sorted_wrt (\<lambda>a b. final a < base b) rs" "\<forall>r \<in> set rs. next_of s1 \<le> base r \<and> final r < next_of s'"
      and next': "inv s'" "next_of s1 \<le> next_of s'"
    using Cons.IH [OF add_inv [OF Cons.prems(1) fit(1) add] fit(2) offs(1)] by blast
  have "log_of s' = log_of s @ r # rs" "list_all2 (\<lambda>b r. stores b (base r) r) (b # bs) (r # rs)"
      "map base (r # rs) = offs" "sorted_wrt (\<lambda>a b. final a < base b) (r # rs)"
      "\<forall>x \<in> set (r # rs). next_of s \<le> base x \<and> final x < next_of s'"
    using rs r span offs next' by auto
  with next' r(3) span show ?case by force
qed

lemma run_total:
  assumes "inv s" and "\<forall>b \<in> set bs. fits b"
  shows "\<exists>offs s'. append_all add bs s = Inr (offs, s')"
  using assms
proof (induction bs arbitrary: s)
  case (Cons b bs)
  have fit: "fits b" "\<forall>b \<in> set bs. fits b" using Cons.prems(2) by simp_all
  obtain s1 where add: "add b s = Inr (next_of s, s1)" using add_total [OF Cons.prems(1) fit(1)] by blast
  obtain offs s' where "append_all add bs s1 = Inr (offs, s')"
    using Cons.IH [OF add_inv [OF Cons.prems(1) fit(1) add] fit(2)] by blast
  then show ?case by (simp add: add)
qed simp

end

subsection \<open>The table engine meets it\<close>

definition log_end :: "u32 \<Rightarrow> i32 \<Rightarrow> log_db \<Rightarrow> int" where
  "log_end topic part db = (case find_partition topic part db of Inl _ \<Rightarrow> 0 | Inr p \<Rightarrow> pt_next_offset p)"

definition stored_batch :: "raw_batch \<Rightarrow> int \<Rightarrow> log_row \<Rightarrow> bool" where
  "stored_batch b off r \<longleftrightarrow> lr_base r = off \<and> lr_last r = off + sint (rb_last_offset_delta b)
     \<and> 0 \<le> sint (rb_last_offset_delta b)
     \<and> lr_batch r = stamped_bytes (stamp (ValidatedBatch (RecordBatch (rb_bytes b))) (word_of_int off) (lr_leader_epoch r))"

lemma appended_row_batch:
  "appendable crc b \<Longrightarrow> stored_batch b (pt_next_offset p) (appended_row now topic part b p)"
  by (simp add: stored_batch_def appendable_delta) (simp add: appended_row_def)

lemma append_effect_find:
  assumes "log_inv seg_size crc db" and "find_partition topic part db = Inr p"
  shows "find_partition topic part (append_effect seg_size topic part r db) = Inr (p\<lparr>pt_next_offset := lr_last r + 1\<rparr>)"
proof -
  have p: "List.find (pt_at topic part) (lg_partitions db) = Some p"
    using assms(2) by (simp add: find_partition_def split: option.splits)
  let ?f = "\<lambda>q. if pt_at topic part q then q\<lparr>pt_next_offset := lr_last r + 1\<rparr> else q"
  have at: "pt_at topic part (?f q) = pt_at topic part q" for q by (simp add: pt_at_def)
  have "List.find (pt_at topic part) (map ?f qs) = map_option ?f (List.find (pt_at topic part) qs)" for qs
    by (induction qs) (simp_all add: at)
  moreover have "pt_at topic part p" using p by (simp add: find_Some_iff) blast
  ultimately show ?thesis by (simp add: find_partition_def p)
qed

lemma table_append:
  assumes "0 < seg_size" and "log_inv seg_size crc db" and "find_partition topic part db = Inr p" and "appendable crc b"
  obtains db' where "append seg_size crc now topic part b db = Inr (pt_next_offset p, db')"
    and "log_inv seg_size crc db'" and "part_log topic part db' = part_log topic part db @ [appended_row now topic part b p]"
    and "find_partition topic part db' = Inr (p\<lparr>pt_next_offset := lr_last (appended_row now topic part b p) + 1\<rparr>)"
  using append_spec [OF assms(2,1,3,4)] append_effect_find [OF assms(2,3)] by metis

interpretation tl: append_log "\<lambda>db. 0 < seg_size \<and> log_inv seg_size crc db \<and> (\<exists>p. find_partition topic part db = Inr p)"
  "part_log topic part" "log_end topic part" "append seg_size crc now topic part" "appendable crc" lr_base lr_last stored_batch
  for seg_size crc now topic part
proof unfold_locales
  fix db b off db'
  assume inv: "0 < seg_size \<and> log_inv seg_size crc db \<and> (\<exists>p. find_partition topic part db = Inr p)" and fit: "appendable crc b"
  then obtain p where p: "0 < seg_size" "log_inv seg_size crc db" "find_partition topic part db = Inr p" by blast
  obtain d where d: "append seg_size crc now topic part b db = Inr (pt_next_offset p, d)" "log_inv seg_size crc d"
      "part_log topic part d = part_log topic part db @ [appended_row now topic part b p]"
      "find_partition topic part d = Inr (p\<lparr>pt_next_offset := lr_last (appended_row now topic part b p) + 1\<rparr>)"
    by (rule table_append [OF p fit])
  show "\<exists>s'. append seg_size crc now topic part b db = Inr (log_end topic part db, s')"
    using d(1) p(3) by (simp add: log_end_def)
  assume "append seg_size crc now topic part b db = Inr (off, db')"
  then have eq: "off = pt_next_offset p" "db' = d" using d(1) by simp_all
  show "0 < seg_size \<and> log_inv seg_size crc db' \<and> (\<exists>p. find_partition topic part db' = Inr p)" using p(1) d eq by blast
  show "\<exists>r. part_log topic part db' = part_log topic part db @ [r] \<and> stored_batch b off r \<and> log_end topic part db' = lr_last r + 1"
    using d eq appended_row_batch [OF fit] by (auto simp: log_end_def)
qed (auto simp: stored_batch_def)

text \<open>C3: Appending well-formed batches to an existing partition of a reachable broker always succeeds. The log of the
  partition then holds, after what it held, exactly those batches in order, each stamped with the offset
  the writer was given, and the offsets ranges of the whole log ascend without overlap.\<close>

theorem appends_extend_log:
  assumes "broker_reachable seg_size crc env od" and "find_partition topic part (od_log od) = Inr p"
    and "\<forall>b \<in> set bs. appendable crc b"
  shows "\<exists>offs db' rs. append_all (append seg_size crc now topic part) bs (od_log od) = Inr (offs, db')
     \<and> part_log topic part db' = part_log topic part (od_log od) @ rs
     \<and> map lr_base rs = offs \<and> list_all2 (\<lambda>b r. stored_batch b (lr_base r) r) bs rs
     \<and> sorted_wrt (\<lambda>a b. lr_last a < lr_base b) (part_log topic part db')"
proof -
  have inv: "0 < seg_size \<and> log_inv seg_size crc (od_log od) \<and> (\<exists>p. find_partition topic part (od_log od) = Inr p)"
    using assms(1,2) reachable_log [OF assms(1)] by (auto simp: broker_reachable_def)
  obtain offs db' where run: "append_all (append seg_size crc now topic part) bs (od_log od) = Inr (offs, db')"
    using tl.run_total [OF inv assms(3)] by blast
  show ?thesis using tl.run_log [OF inv assms(3) run] run log_inv_ascending [of seg_size crc db' topic part]
    unfolding ascending_def by blast
qed

theorem appends_extend_log_witness:
  "\<exists>offs db' rs. append_all (append 1000 run_crc 8 1 0) [run_raw, run_raw] run_aborted = Inr (offs, db')
     \<and> part_log 1 0 db' = part_log 1 0 run_aborted @ rs
     \<and> map lr_base rs = offs \<and> list_all2 (\<lambda>b r. stored_batch b (lr_base r) r) [run_raw, run_raw] rs
     \<and> sorted_wrt (\<lambda>a b. lr_last a < lr_base b) (part_log 1 0 db')"
  using appends_extend_log [OF reach_aborted, of 1 0 run_part "[run_raw, run_raw]" 8] run_part_found run_raw_fits
  unfolding run_broker_log by simp

subsection \<open>Reading\<close>

lemma stored_wf: "stored_ok crc r \<Longrightarrow> batch_wf (RecordBatch (lr_batch r))"
  by (simp add: stored_ok_def validated_Inr_iff)

lemma wf_nonempty: "batch_wf (RecordBatch bs) \<Longrightarrow> bs \<noteq> []"
  by (auto simp: batch_wf_iff)

definition ceiling :: "isolation_level \<Rightarrow> u32 \<Rightarrow> i32 \<Rightarrow> int \<Rightarrow> log_db \<Rightarrow> int" where
  "ceiling isolation topic part hw db = (case isolation of ReadCommitted \<Rightarrow> stable_bound topic part hw db | ReadUncommitted \<Rightarrow> hw)"

definition wanted :: "isolation_level \<Rightarrow> u32 \<Rightarrow> i32 \<Rightarrow> int \<Rightarrow> int \<Rightarrow> log_db \<Rightarrow> log_row list" where
  "wanted isolation topic part hw off db = filter (readable off (ceiling isolation topic part hw db)) (part_log topic part db)"

lemma set_wanted:
  "r \<in> set (wanted isolation topic part hw off db) \<longleftrightarrow>
     r \<in> set (lg_log db) \<and> lr_at topic part r \<and> off \<le> lr_last r \<and> lr_base r < ceiling isolation topic part hw db"
  by (auto simp: wanted_def readable_def)

lemma wanted_stored: "log_inv seg_size crc db \<Longrightarrow> r \<in> set (wanted isolation topic part hw off db) \<Longrightarrow> stored_ok crc r"
  using log_inv_row [of seg_size crc db r] by (simp add: set_wanted row_ok_def)

text \<open>The outcome of a read: the first \<open>k\<close> of the wanted batches.\<close>

definition sliced :: "isolation_level \<Rightarrow> u32 \<Rightarrow> i32 \<Rightarrow> int \<Rightarrow> nat \<Rightarrow> log_db \<Rightarrow> partition_row \<Rightarrow> nat \<Rightarrow> fetch_slice \<Rightarrow> bool" where
  "sliced isolation topic part off cap db p k chunk \<longleftrightarrow>
     (let hw = pt_next_offset p; rows = wanted isolation topic part hw off db; c = ceiling isolation topic part hw db in
      find_partition topic part db = Inr p \<and> pt_log_start p \<le> off \<and> off \<le> hw
      \<and> fs_bytes chunk = concat (map lr_batch (take k rows)) \<and> k \<le> length rows
      \<and> (k = 0 \<longrightarrow> off < c \<longrightarrow> rows = []) \<and> (0 < k \<longrightarrow> off < c)
      \<and> fs_next_offset chunk = (if k = 0 then off else lr_last (rows ! (k - 1)) + 1)
      \<and> (length (fs_bytes chunk) \<le> cap \<or> k \<le> 1)
      \<and> fs_high_watermark chunk = hw \<and> fs_last_stable_offset chunk = stable_bound topic part hw db
      \<and> fs_aborted chunk = (if off < c \<and> isolation = ReadCommitted
           then aborted_txns topic part off (max (fs_next_offset chunk) (off + 1)) db else []))"

lemma take_prefix_nth: "k \<le> length (take n xs) \<Longrightarrow> 0 < k \<Longrightarrow> take n xs ! (k - 1) = xs ! (k - 1)"
  by (intro nth_take) auto

lemma collect_wanted:
  assumes "log_inv seg_size crc db"
  shows "\<exists>k. k \<le> length (take READ_ROWS (wanted isolation topic part hw off db))
     \<and> collect_rows cap (take READ_ROWS (wanted isolation topic part hw off db)) [] off =
       (concat (map lr_batch (take k (wanted isolation topic part hw off db))),
        if k = 0 then off else lr_last (wanted isolation topic part hw off db ! (k - 1)) + 1)
     \<and> (k = 0 \<longrightarrow> wanted isolation topic part hw off db = [])
     \<and> (length (concat (map lr_batch (take k (wanted isolation topic part hw off db)))) \<le> cap \<or> k \<le> 1)"
proof -
  let ?rs = "wanted isolation topic part hw off db"
  have "\<forall>r \<in> set (take READ_ROWS ?rs). lr_batch r \<noteq> []"
    using wf_nonempty [OF stored_wf [OF wanted_stored [OF assms]]] in_set_takeD by fast
  then obtain k where k: "k \<le> length (take READ_ROWS ?rs)"
      "collect_rows cap (take READ_ROWS ?rs) [] off = (concat (map lr_batch (take k (take READ_ROWS ?rs))),
         if k = 0 then off else lr_last (take READ_ROWS ?rs ! (k - 1)) + 1)"
      "k = 0 \<longrightarrow> take READ_ROWS ?rs = []" "length (concat (map lr_batch (take k (take READ_ROWS ?rs)))) \<le> cap \<or> k = 0 \<or> k = 1"
    using collect_rows_prefix [of "take READ_ROWS ?rs" cap "[]" off] by auto
  have "take k (take READ_ROWS ?rs) = take k ?rs" using k(1) by (simp add: min_absorb1)
  moreover have "0 < k \<Longrightarrow> take READ_ROWS ?rs ! (k - 1) = ?rs ! (k - 1)" using k(1) by (rule take_prefix_nth)
  moreover have "k = 0 \<Longrightarrow> ?rs = []" using k(3) by (simp add: READ_ROWS_def)
  ultimately show ?thesis using k(1,2,4) by (intro exI [of _ k]) auto
qed

lemma read_slice:
  assumes inv: "log_inv seg_size crc db" and read: "read topic part off cap isolation db = Inr chunk"
  obtains p k where "sliced isolation topic part off cap db p k chunk"
proof -
  obtain p where p: "find_partition topic part db = Inr p"
    using read by (auto simp: read_def high_watermark_def rbind_eq_Inr)
  let ?c = "ceiling isolation topic part (pt_next_offset p) db" and ?rs = "wanted isolation topic part (pt_next_offset p) off db"
  have range: "pt_log_start p \<le> off" "off \<le> pt_next_offset p"
    using read by (auto simp: read_def high_watermark_def log_start_offset_def p Let_def split: if_splits prod.splits)
  have ceil: "(case isolation of ReadCommitted \<Rightarrow> stable_bound topic part (pt_next_offset p) db | ReadUncommitted \<Rightarrow> pt_next_offset p) = ?c"
    by (simp add: ceiling_def)
  have chunk: "chunk = (let (bytes, next_offset) = (if off < ?c then collect_rows cap (take READ_ROWS ?rs) [] off else ([], off)) in
      \<lparr>fs_bytes = bytes, fs_next_offset = next_offset, fs_high_watermark = pt_next_offset p, fs_log_start_offset = pt_log_start p,
       fs_last_stable_offset = stable_bound topic part (pt_next_offset p) db,
       fs_aborted = (if off < ?c \<and> isolation = ReadCommitted then aborted_txns topic part off (max next_offset (off + 1)) db else [])\<rparr>)"
    using read range unfolding read_def high_watermark_def log_start_offset_def p Let_def rbind_simps ceil read_rows_spec [OF inv]
      wanted_def [symmetric] by (auto split: prod.splits)
  obtain k where k: "k \<le> length (take READ_ROWS ?rs)" "collect_rows cap (take READ_ROWS ?rs) [] off =
      (concat (map lr_batch (take k ?rs)), if k = 0 then off else lr_last (?rs ! (k - 1)) + 1)" "k = 0 \<longrightarrow> ?rs = []"
      "length (concat (map lr_batch (take k ?rs))) \<le> cap \<or> k \<le> 1"
    using collect_wanted [OF inv] by blast
  have "sliced isolation topic part off cap db p (if off < ?c then k else 0) chunk"
    using p range k unfolding sliced_def Let_def chunk by auto
  then show thesis by (rule that)
qed

text \<open>C4: Every successful read of a reachable broker returns a run of stored batches, byte for byte and in order, from
  the one that holds the requested offset on and below the high watermark, or below the last stable offset for
  a read of committed data. Walking the bytes gives back exactly these batches, each carrying its own
  offset and leader epoch. There is at least one batch if there is one to return, and the run fits the byte limit
  unless it is a single batch.\<close>

theorem read_returns_stored:
  assumes "broker_reachable seg_size crc env od" and "read topic part off cap isolation (od_log od) = Inr chunk"
  shows "\<exists>rows k. rows = filter (\<lambda>r. off \<le> lr_last r \<and> lr_base r <
        (if isolation = ReadCommitted then fs_last_stable_offset chunk else fs_high_watermark chunk)) (part_log topic part (od_log od))
     \<and> fs_bytes chunk = concat (map lr_batch (take k rows))
     \<and> batch_iter (fs_bytes chunk) = map (\<lambda>r. Inr (RecordBatch (lr_batch r))) (take k rows)
     \<and> (\<forall>r \<in> set (take k rows). base_offset (RecordBatch (lr_batch r)) = word_of_int (lr_base r)
          \<and> partition_leader_epoch (RecordBatch (lr_batch r)) = lr_leader_epoch r)
     \<and> (k = 0 \<longrightarrow> rows = [] \<or> fs_last_stable_offset chunk \<le> off)
     \<and> (length (fs_bytes chunk) \<le> cap \<or> k \<le> 1)"
proof -
  note inv = reachable_log [OF assms(1)]
  obtain p k where s: "sliced isolation topic part off cap (od_log od) p k chunk"
    by (rule read_slice [OF inv assms(2)])
  define rows where "rows = wanted isolation topic part (pt_next_offset p) off (od_log od)"
  have c: "ceiling isolation topic part (pt_next_offset p) (od_log od) =
      (if isolation = ReadCommitted then fs_last_stable_offset chunk else fs_high_watermark chunk)"
    using s by (cases isolation) (simp_all add: ceiling_def sliced_def Let_def)
  have ok: "stored_ok crc r" if "r \<in> set (take k rows)" for r
    using wanted_stored [OF inv] in_set_takeD [OF that] unfolding rows_def by blast
  have bytes: "fs_bytes chunk = concat (map lr_batch (take k rows))" using s by (simp add: sliced_def Let_def rows_def)
  have iter: "batch_iter (fs_bytes chunk) = map (\<lambda>r. Inr (RecordBatch (lr_batch r))) (take k rows)"
    using batch_iter_concat [of "map lr_batch (take k rows)"] stored_wf [OF ok] by (simp add: bytes comp_def)
  have last: "lr_last r < pt_next_offset p" if "r \<in> set rows" for r
    using s that row_partition [OF inv] by (auto simp: rows_def set_wanted sliced_def Let_def)
  have none: "rows = [] \<or> fs_last_stable_offset chunk \<le> off" if "k = 0"
  proof (cases "off < ceiling isolation topic part (pt_next_offset p) (od_log od) \<or> isolation = ReadCommitted")
    case True
    then show ?thesis using s that c by (auto simp: sliced_def Let_def rows_def)
  next
    case False
    then have "pt_next_offset p \<le> off" by (cases isolation) (simp_all add: ceiling_def)
    then have "r \<notin> set rows" for r using last [of r] by (auto simp: rows_def set_wanted)
    then have "rows = []" by (cases rows) auto
    then show ?thesis ..
  qed
  show ?thesis
  proof (intro exI [of _ rows] exI [of _ k] conjI impI)
    show "rows = filter (\<lambda>r. off \<le> lr_last r \<and> lr_base r <
        (if isolation = ReadCommitted then fs_last_stable_offset chunk else fs_high_watermark chunk)) (part_log topic part (od_log od))"
      unfolding rows_def wanted_def c readable_def [abs_def] ..
    show "length (fs_bytes chunk) \<le> cap \<or> k \<le> 1" using s unfolding sliced_def Let_def by blast
  qed (use ok bytes iter none in \<open>auto simp: stored_ok_def\<close>)
qed

theorem read_returns_stored_witness:
  "\<exists>rows k. rows = filter (\<lambda>r. 0 \<le> lr_last r \<and> lr_base r < fs_last_stable_offset run_chunk) (part_log 1 0 run_aborted)
     \<and> fs_bytes run_chunk = concat (map lr_batch (take k rows))
     \<and> batch_iter (fs_bytes run_chunk) = map (\<lambda>r. Inr (RecordBatch (lr_batch r))) (take k rows)
     \<and> (\<forall>r \<in> set (take k rows). base_offset (RecordBatch (lr_batch r)) = word_of_int (lr_base r)
          \<and> partition_leader_epoch (RecordBatch (lr_batch r)) = lr_leader_epoch r)
     \<and> (k = 0 \<longrightarrow> rows = [] \<or> fs_last_stable_offset run_chunk \<le> 0)
     \<and> (length (fs_bytes run_chunk) \<le> 1000 \<or> k \<le> 1)"
  using read_returns_stored [OF reach_aborted, of 1 0 0 1000 ReadCommitted run_chunk] run_chunk_read
  unfolding run_broker_log by simp

subsection \<open>Reading committed data\<close>










subsection \<open>Retention\<close>

text \<open>Nothing that is still in the log is lost, the high watermark stays and the log start only rises.\<close>

definition retained :: "log_db \<Rightarrow> log_db \<Rightarrow> bool" where
  "retained db db' \<longleftrightarrow> set (lg_log db') \<subseteq> set (lg_log db) \<and> (\<forall>r \<in> set (lg_log db). live db' r \<longrightarrow> r \<in> set (lg_log db'))
     \<and> (\<exists>f. lg_partitions db' = map f (lg_partitions db) \<and> (\<forall>p \<in> set (lg_partitions db). pt_topic (f p) = pt_topic p
          \<and> pt_partition (f p) = pt_partition p \<and> pt_next_offset (f p) = pt_next_offset p \<and> pt_log_start p \<le> pt_log_start (f p)))"

lemma retained_refl: "retained db db"
  unfolding retained_def by (auto intro!: exI [of _ id])

lemma retained_live: "retained db db' \<Longrightarrow> live db' r \<Longrightarrow> live db r"
  unfolding retained_def by (elim conjE exE, rule live_update) auto

lemma retained_trans:
  assumes ab: "retained a b" and bc: "retained b c"
  shows "retained a c"
proof -
  obtain f where f: "lg_partitions b = map f (lg_partitions a)" "\<forall>p \<in> set (lg_partitions a). pt_topic (f p) = pt_topic p
      \<and> pt_partition (f p) = pt_partition p \<and> pt_next_offset (f p) = pt_next_offset p \<and> pt_log_start p \<le> pt_log_start (f p)"
    using ab unfolding retained_def by blast
  obtain g where g: "lg_partitions c = map g (lg_partitions b)" "\<forall>p \<in> set (lg_partitions b). pt_topic (g p) = pt_topic p
      \<and> pt_partition (g p) = pt_partition p \<and> pt_next_offset (g p) = pt_next_offset p \<and> pt_log_start p \<le> pt_log_start (g p)"
    using bc unfolding retained_def by blast
  have "lg_partitions c = map (g \<circ> f) (lg_partitions a)" using f(1) g(1) by simp
  moreover have "\<forall>p \<in> set (lg_partitions a). pt_topic ((g \<circ> f) p) = pt_topic p \<and> pt_partition ((g \<circ> f) p) = pt_partition p
      \<and> pt_next_offset ((g \<circ> f) p) = pt_next_offset p \<and> pt_log_start p \<le> pt_log_start ((g \<circ> f) p)"
    using f g by (fastforce intro: order_trans)
  ultimately show ?thesis
    using ab bc retained_live [OF bc] unfolding retained_def by blast
qed

lemma reclaim_retained:
  assumes inv: "log_inv seg_size crc db" and ok: "reclaim topic part off db = Inr (n, db')"
  shows "retained db db'"
  using log_inv_partitions [OF inv] ok
proof (cases rule: reclaim_cases)
  case (1 p)
  then show ?thesis by (simp add: retained_refl)
next
  case (2 p)
  let ?t = "max off (pt_log_start p)"
  have p: "q = p" if "q \<in> set (lg_partitions db)" "pt_at topic part q" for q
    using that 2(1) find_partition_iff [OF log_inv_partitions [OF inv], of topic part q] by simp
  have pin: "p \<in> set (lg_partitions db)" "pt_at topic part p"
    using 2(1) by (simp_all add: find_partition_iff [OF log_inv_partitions [OF inv]])
  have kept: "r \<in> set (lg_log db')" if r: "r \<in> set (lg_log db)" "live db' r" for r
  proof (cases "lr_at topic part r")
    case True
    have "p\<lparr>pt_log_start := ?t\<rparr> \<in> set (lg_partitions db')" using pin unfolding 2(2) by (force simp: image_iff)
    moreover have "pt_at (lr_topic r) (lr_partition r) (p\<lparr>pt_log_start := ?t\<rparr>)" using True pin by (simp add: pt_at_def lr_at_def)
    ultimately have "?t \<le> lr_last r" using r(2) unfolding live_def by fastforce
    then show ?thesis using spared_above [OF inv r(1)] r(1) unfolding 2(2) by simp
  next
    case False
    then show ?thesis using r(1) spared_other unfolding 2(2) by simp
  qed
  have "\<exists>f. lg_partitions db' = map f (lg_partitions db) \<and> (\<forall>q \<in> set (lg_partitions db). pt_topic (f q) = pt_topic q
      \<and> pt_partition (f q) = pt_partition q \<and> pt_next_offset (f q) = pt_next_offset q \<and> pt_log_start q \<le> pt_log_start (f q))"
    unfolding 2(2) reclaim_effect_fields
    by (rule exI [of _ "\<lambda>r. if pt_at topic part r then r\<lparr>pt_log_start := ?t\<rparr> else r"]) (auto dest: p)
  then show ?thesis unfolding retained_def using kept by (auto simp: 2(2))
qed

lemma retain_each_retained:
  "retain_each now topic policy ps db = Inr (n, db') \<Longrightarrow> sys_inv seg_size crc env db \<Longrightarrow> retained db db'"
proof (induction ps arbitrary: db n)
  case Nil
  then show ?case by (simp add: retained_refl)
next
  case (Cons p ps)
  obtain k d m where 1: "reclaim topic p (retention_cutoff now topic p policy db) db = Inr (k, d)"
      and 2: "retain_each now topic policy ps d = Inr (m, db')"
    using Cons.prems(1) by (auto simp: rbind_eq_Inr)
  have "sys_inv seg_size crc env d"
    using retain_each_sys [OF Cons.prems(2), of now topic policy "[p]" k d] 1 by simp
  then show ?case using retained_trans [OF reclaim_retained [OF sys_log [OF Cons.prems(2)] 1]] Cons.IH [OF 2] by blast
qed

text \<open>C7: A retention pass and a truncation keep every batch that reaches to the new log start or beyond; they never touch the
  high watermark and never lower the log start.\<close>

theorem retention_keeps_live:
  assumes "broker_reachable seg_size crc env od"
    and "enforce_retention now topic policy (od_log od) = Inr (n, db') \<or> truncate_below topic part off (od_log od) = Inr db'"
  shows "set (lg_log db') \<subseteq> set (lg_log (od_log od))
     \<and> (\<forall>r \<in> set (lg_log (od_log od)). (\<forall>p \<in> set (lg_partitions db'). pt_at (lr_topic r) (lr_partition r) p \<longrightarrow> pt_log_start p \<le> lr_last r)
          \<longrightarrow> r \<in> set (lg_log db'))
     \<and> (\<exists>f. lg_partitions db' = map f (lg_partitions (od_log od)) \<and> (\<forall>p \<in> set (lg_partitions (od_log od)). pt_topic (f p) = pt_topic p
          \<and> pt_partition (f p) = pt_partition p \<and> pt_next_offset (f p) = pt_next_offset p \<and> pt_log_start p \<le> pt_log_start (f p)))"
proof -
  note inv = reachable_sys [OF assms(1)]
  have "retained (od_log od) db'"
    using assms(2) retain_each_retained [OF _ inv] reclaim_retained [OF sys_log [OF inv]] retained_refl
    by (auto simp: enforce_retention_def truncate_below_def rbind_eq_Inr split: if_splits)
  then show ?thesis unfolding retained_def live_def .
qed

theorem retention_keeps_live_witness:
  "let db' = projr (truncate_below 1 0 2 run_aborted) in
     set (lg_log db') \<subseteq> set (lg_log run_aborted)
     \<and> (\<forall>r \<in> set (lg_log run_aborted). (\<forall>p \<in> set (lg_partitions db'). pt_at (lr_topic r) (lr_partition r) p \<longrightarrow> pt_log_start p \<le> lr_last r)
          \<longrightarrow> r \<in> set (lg_log db'))
     \<and> (\<exists>f. lg_partitions db' = map f (lg_partitions run_aborted) \<and> (\<forall>p \<in> set (lg_partitions run_aborted). pt_topic (f p) = pt_topic p
          \<and> pt_partition (f p) = pt_partition p \<and> pt_next_offset (f p) = pt_next_offset p \<and> pt_log_start p \<le> pt_log_start (f p)))"
proof -
  have "\<not> isl (truncate_below 1 0 2 run_aborted)" by code_simp
  then have "truncate_below 1 0 2 run_aborted = Inr (projr (truncate_below 1 0 2 run_aborted))" by simp
  then show ?thesis
    using retention_keeps_live [OF reach_aborted, of 0 1 _ 0 "projr (truncate_below 1 0 2 run_aborted)" 0 2]
    unfolding Let_def run_broker_log by blast
qed

subsection \<open>Leader epochs\<close>

lemma row_epoch:
  assumes linv: "log_inv seg_size crc db" and einv: "epoch_inv db" and r: "r \<in> set (lg_log db)" "lr_at topic part r"
    and p: "find_partition topic part db = Inr p"
  obtains e where "e \<in> set (lg_epochs db)" and "ep_at topic part e" and "ep_epoch e = lr_leader_epoch r"
    and "sint (lr_leader_epoch r) \<le> sint (pt_leader_epoch p)"
proof -
  obtain e where e: "e \<in> set (lg_epochs db)" "epoch_at r e" "ep_epoch e = lr_leader_epoch r"
    using epoch_inv_row [OF einv r(1)] unfolding row_in_epoch_def by blast
  then have at: "ep_at topic part e" using r(2) by (simp add: epoch_at_def lr_at_def)
  then show thesis using that [OF e(1) at e(3)] entry_partition(1) [OF linv einv e(1) at p] e(3) by simp
qed

lemma row_entry:
  assumes "epoch_inv db" and "r \<in> set (lg_log db)" and "lr_at topic part r" and "e \<in> set (lg_epochs db)" and "ep_at topic part e"
  shows "if sint (ep_epoch e) \<le> sint (lr_leader_epoch r) then ep_start e \<le> lr_base r else lr_last r < ep_start e"
  using epoch_inv_row [OF assms(1,2)] assms(3-5) unfolding row_in_epoch_def epoch_at_def lr_at_def by blast

lemma epoch_split_matched:
  assumes linv: "log_inv seg_size crc db" and einv: "epoch_inv db" and p: "find_partition topic part db = Inr p"
    and matched: "matched_epoch topic part epoch db = Some m"
    and r: "r \<in> set (lg_log db)" "lr_at topic part r"
    and ee: "end_offset = (case sort_key (\<lambda>r. sint (ep_epoch r))
          (filter (\<lambda>r. ep_at topic part r \<and> sint (ep_epoch r) > m) (lg_epochs db)) of
        x # _ \<Rightarrow> ep_start x | [] \<Rightarrow> pt_next_offset p)"
  shows "if sint (lr_leader_epoch r) \<le> sint epoch then lr_last r < end_offset else end_offset \<le> lr_base r"
proof -
  obtain e where e: "e \<in> set (lg_epochs db)" "ep_at topic part e" "ep_epoch e = lr_leader_epoch r"
    by (rule row_epoch [OF linv einv r p])
  note max = matched_epoch_max [OF matched]
  let ?xs = "filter (\<lambda>r. ep_at topic part r \<and> sint (ep_epoch r) > m) (lg_epochs db)"
  have older: "sint (lr_leader_epoch r) \<le> sint epoch \<longleftrightarrow> sint (lr_leader_epoch r) \<le> m"
    using conjunct1 [OF conjunct2 [OF max]] bspec [OF conjunct2 [OF conjunct2 [OF max]] e(1)] e(2,3) by auto
  show ?thesis
  proof (cases "sort_key (\<lambda>r. sint (ep_epoch r)) ?xs")
    case Nil
    have "length ?xs = length (sort_key (\<lambda>r. sint (ep_epoch r)) ?xs)" by (rule length_sort [symmetric])
    then have "?xs = []" unfolding Nil by (simp only: list.size length_0_conv)
    then have "\<not> m < sint (lr_leader_epoch r)" using e by (auto simp: filter_empty_conv)
    then show ?thesis using older row_partition [OF linv r p] by (simp add: ee Nil)
  next
    case (Cons x xs)
    have x: "x \<in> set (lg_epochs db)" "ep_at topic part x" "m < sint (ep_epoch x)"
      using set_sort [of "\<lambda>r. sint (ep_epoch r)" ?xs] unfolding Cons by auto
    have least: "sint (ep_epoch x) \<le> sint (ep_epoch y)" if "y \<in> set ?xs" for y
    proof -
      have "sorted (map (\<lambda>r. sint (ep_epoch r)) (x # xs))" using sorted_sort_key [of "\<lambda>r. sint (ep_epoch r)" ?xs] unfolding Cons .
      moreover have "y \<in> set (x # xs)" using that set_sort [of "\<lambda>r. sint (ep_epoch r)" ?xs] unfolding Cons by simp
      ultimately show ?thesis by auto
    qed
    have "sint (ep_epoch x) \<le> sint (lr_leader_epoch r) \<longleftrightarrow> \<not> sint (lr_leader_epoch r) \<le> m"
      using least [of e] e(1,2,3) x(3) by (cases "m < sint (lr_leader_epoch r)") simp_all
    then show ?thesis using row_entry [OF einv r x(1,2)] older by (simp add: ee Cons)
  qed
qed

lemma epoch_split:
  assumes linv: "log_inv seg_size crc db" and einv: "epoch_inv db" and ok: "epoch_end_offset topic part epoch db = Inr ee"
    and p: "find_partition topic part db = Inr p" and known: "sint epoch \<le> sint (pt_leader_epoch p)"
    and r: "r \<in> set (lg_log db)" "lr_at topic part r" "pt_log_start p \<le> lr_base r"
  shows "if sint (lr_leader_epoch r) \<le> sint epoch then lr_last r < ee_end_offset ee else ee_end_offset ee \<le> lr_base r"
proof -
  obtain e where e: "e \<in> set (lg_epochs db)" "ep_at topic part e" "ep_epoch e = lr_leader_epoch r"
      "sint (lr_leader_epoch r) \<le> sint (pt_leader_epoch p)"
    by (rule row_epoch [OF linv einv r(1,2) p])
  consider "epoch = pt_leader_epoch p" | "epoch \<noteq> pt_leader_epoch p" "matched_epoch topic part epoch db = None"
    | m where "epoch \<noteq> pt_leader_epoch p" "matched_epoch topic part epoch db = Some m" by (cases "matched_epoch topic part epoch db") auto
  then show ?thesis
  proof cases
    case 1
    then have "ee_end_offset ee = pt_next_offset p"
      using ok p by (auto simp: epoch_end_offset_def leader_epoch_def high_watermark_def)
    then show ?thesis using e(4) 1 row_partition [OF linv r(1,2) p] by simp
  next
    case 2
    then have "ee_end_offset ee = pt_log_start p"
      using ok p known by (auto simp: epoch_end_offset_def leader_epoch_def log_start_offset_def)
    then show ?thesis using matched_epoch_None [OF 2(2)] e r(3) by auto
  next
    case (3 m)
    then have "ee_end_offset ee = (case sort_key (\<lambda>r. sint (ep_epoch r))
          (filter (\<lambda>r. ep_at topic part r \<and> sint (ep_epoch r) > m) (lg_epochs db)) of
        x # _ \<Rightarrow> ep_start x | [] \<Rightarrow> pt_next_offset p)"
      using ok p known by (auto simp: epoch_end_offset_def leader_epoch_def high_watermark_def split: list.splits)
    then show ?thesis by (rule epoch_split_matched [OF linv einv p 3(2) r(1,2)])
  qed
qed

lemma store_error_not_none: "store_error_code e \<noteq> E_None"
  by (cases e) simp_all

lemma answer_epoch_ok:
  assumes "ea_error_code (answer_epoch (Some topic) q None db) = E_None"
  obtains ee where "epoch_end_offset topic (eq_partition q) (eq_leader_epoch q) db = Inr ee"
    and "ea_end_offset (answer_epoch (Some topic) q None db) = ee_end_offset ee"
  using assms store_error_not_none unfolding answer_epoch_def Let_def
  by (auto split: option.splits sum.splits if_splits)

text \<open>C6: The answer to \<open>OffsetForLeaderEpoch\<close> separates the log: of the batches at or above the log start, those written under
  the asked epoch or an earlier one lie wholly below the end offset in the answer, and those of later epochs start at or above it. A
  consumer that truncates there loses nothing of its own epoch and keeps nothing of a later one.\<close>

theorem epoch_answer_separates:
  assumes "broker_reachable seg_size crc env od" and "find_partition topic (eq_partition q) (od_log od) = Inr p"
    and "sint (eq_leader_epoch q) \<le> sint (pt_leader_epoch p)"
    and "ea_error_code (answer_epoch (Some topic) q None (od_log od)) = E_None"
    and "r \<in> set (part_log topic (eq_partition q) (od_log od))" and "pt_log_start p \<le> lr_base r"
  shows "if sint (lr_leader_epoch r) \<le> sint (eq_leader_epoch q)
     then lr_last r < ea_end_offset (answer_epoch (Some topic) q None (od_log od))
     else ea_end_offset (answer_epoch (Some topic) q None (od_log od)) \<le> lr_base r"
proof -
  note inv = reachable_log [OF assms(1)] reachable_epoch [OF assms(1)]
  obtain ee where ee: "epoch_end_offset topic (eq_partition q) (eq_leader_epoch q) (od_log od) = Inr ee"
      "ea_end_offset (answer_epoch (Some topic) q None (od_log od)) = ee_end_offset ee"
    by (rule answer_epoch_ok [OF assms(4)])
  show ?thesis using epoch_split [OF inv ee(1) assms(2,3)] assms(5,6) unfolding ee(2) by simp
qed

theorem epoch_answer_separates_witness:
  "lr_last (hd (part_log 1 0 run_aborted)) < ea_end_offset (answer_epoch (Some 1) run_question None run_aborted)"
proof -
  let ?r = "hd (part_log 1 0 run_aborted)"
  have q: "eq_partition run_question = 0" by (simp add: run_question_def)
  have part: "sint (eq_leader_epoch run_question) \<le> sint (pt_leader_epoch run_part)"
    "ea_error_code (answer_epoch (Some 1) run_question None run_aborted) = E_None"
    "pt_log_start run_part \<le> lr_base ?r" "sint (lr_leader_epoch ?r) \<le> sint (eq_leader_epoch run_question)" by code_simp+
  have "part_log 1 0 run_aborted \<noteq> []" using run_rows by auto
  then have r: "?r \<in> set (part_log 1 0 run_aborted)" by (rule hd_in_set)
  show ?thesis
    using epoch_answer_separates [OF reach_aborted, of 1 run_question run_part ?r, unfolded run_broker_log q]
      run_part_found part r by simp
qed

end
