(* ===== verification/Txn_Properties.thy ===== *)
theory Txn_Properties
  imports Log_Properties Producer_Properties
begin

text \<open>
  What the transaction coordinator promises: a retried \<open>EndTxn\<close> repeats its answer, \<open>InitProducerId\<close> fences every
  earlier instance of a producer, and the offsets of a transaction become visible with its commit and only then.
\<close>

lemma find_unique:
  assumes "x \<in> set xs" and "P x" and "\<And>y. y \<in> set xs \<Longrightarrow> P y \<Longrightarrow> y = x"
  shows "List.find P xs = Some x"
proof (cases "List.find P xs")
  case None
  then show ?thesis using assms(1,2) by (simp add: find_None_iff)
next
  case (Some y)
  then have "y \<in> set xs" "P y" by (auto simp: find_Some_iff)
  then show ?thesis using assms(3) Some by simp
qed



subsection \<open>Retried EndTxn\<close>

lemma verdict_Inr:
  "verdict txn_id pid epoch db = Inr ad \<longleftrightarrow> txn_id \<noteq> [] \<and> ad = \<lparr>ad_producer_id = pid, ad_epoch = epoch\<rparr>
     \<and> (\<exists>p. producer_of pid db = Some p \<and> pr_transactional_id p = Some txn_id \<and> pr_producer_epoch p = epoch)"
  by (auto simp: verdict_def judge_def admission_def Let_def split: option.splits if_splits)

lemma finish_keeps_producers:
  assumes inv: "sys_inv seg_size crc env db" and sz: "0 < seg_size"
    and ok: "finish_transaction seg_size crc now pid epoch requested db = Inr (outcome, db')" and "outcome \<noteq> Overridden"
  shows "db_producers (lg_producer db') = db_producers (lg_producer db)"
  using ok
proof (cases rule: finish_cases)
  case (ended t d committed)
  have "lg_producer d = lg_producer db"
    by (rule ended_inv(2) [OF sys_broker [OF inv] sz ended(4)])
  then show ?thesis using ended by simp
qed (use assms(4) in simp_all)

lemma bump_closed:
  assumes inv: "coord_inv pdb" and closed: "\<not> has_open_txn pdb pid"
    and b: "bump_epoch_for_next_txn now pid committed pdb = ((pid', e'), pdb')"
  shows "\<not> has_open_txn pdb' pid'"
proof (cases "List.find (\<lambda>r. pr_producer_id r = pid) (db_producers pdb)")
  case None
  then show ?thesis using b closed by (simp add: bump_epoch_for_next_txn_def)
next
  case (Some r)
  then have r: "pr_producer_id r = pid" by (auto simp: find_Some_iff)
  show ?thesis
  proof (cases "sint (pr_producer_epoch r) < EPOCH_CEILING")
    case True
    then have "pid' = pid" "db_txns pdb' = db_txns pdb" using b Some by (auto simp: bump_epoch_for_next_txn_def)
    then show ?thesis using closed by (simp add: has_open_txn_def)
  next
    case False
    then have 1: "pid' = db_producer_id_seq pdb" "pdb' = move_to_fresh_id now committed r pdb"
      using b Some by (simp_all add: bump_epoch_for_next_txn_def)
    have below: "tx_producer_id t \<noteq> pid'" if "t \<in> set (db_txns pdb)" for t using coord_seq_txn [OF inv that] 1(1) by auto
    show ?thesis
    proof
      assume "has_open_txn pdb' pid'"
      then obtain t' where t': "t' \<in> set (db_txns pdb')" "tx_producer_id t' = pid'" "tx_state t' = TxnOngoing"
        by (auto simp: has_open_txn_def)
      obtain t where t: "t \<in> set (db_txns pdb)"
          "t' = (if tx_producer_id t = pid then t\<lparr>tx_producer_id := pid', tx_producer_epoch := 0\<rparr> else t)"
        using t'(1) unfolding 1(2) by (auto simp: move_to_fresh_id_def Let_def r 1(1))
      have "tx_producer_id t = pid" using below [OF t(1)] t(2) t'(2) by (cases "tx_producer_id t = pid") simp_all
      then show False using closed t t'(3) by (auto simp: has_open_txn_def)
    qed
  qed
qed

lemma bump_row:
  assumes "List.find (\<lambda>r. pr_producer_id r = pid) (db_producers pdb) = Some p"
    and "bump_epoch_for_next_txn now pid committed pdb = ((pid', e'), pdb')"
  obtains r where "r \<in> set (db_producers pdb')" and "pr_producer_id r = pid'" and "pr_producer_epoch r = e'"
    and "pr_transactional_id r = pr_transactional_id p" and "pr_retired_producer_id r = Some pid"
    and "pr_retired_epoch r = Some (pr_producer_epoch p)" and "pr_retired_committed r = Some committed"
proof -
  note adv = bump_epoch_advances [OF assms(1), of now committed, unfolded assms(2) Let_def prod.case]
  show thesis using that adv [THEN conjunct2, THEN conjunct2] by fast
qed

lemma rotate_retry:
  assumes inv: "sys_inv seg_size crc env d" and closed: "\<not> has_open_txn (lg_producer d) (et_producer_id req)"
    and seq: "sint (db_producer_id_seq (lg_producer d)) < 2 ^ 63 - 1"
    and p: "producer_of (et_producer_id req) d = Some p" "pr_transactional_id p = Some (et_transactional_id req)"
      "pr_producer_epoch p = et_producer_epoch req"
    and rot: "rotate_pair now req d = (reply, d')"
  shows "completed_retry (et_transactional_id req) (et_producer_id req) (et_producer_epoch req) (et_committed req) d'
     = RetryOf (er_producer_id reply) (er_producer_epoch reply)" and "er_error_code reply = E_None"
proof -
  let ?pdb = "lg_producer d" and ?pid = "et_producer_id req"
  obtain pid' e' pdb where b: "bump_epoch_for_next_txn now ?pid (et_committed req) ?pdb = ((pid', e'), pdb)"
    by (cases "bump_epoch_for_next_txn now ?pid (et_committed req) ?pdb") auto
  have d': "d' = d\<lparr>lg_producer := pdb\<rparr>" and reply: "reply = \<lparr>er_error_code = E_None, er_producer_id = pid', er_producer_epoch = e'\<rparr>"
    using rot b by (simp_all add: rotate_pair_def)
  obtain r where r: "r \<in> set (db_producers pdb)" "pr_producer_id r = pid'" "pr_producer_epoch r = e'"
      "pr_transactional_id r = Some (et_transactional_id req)" "pr_retired_producer_id r = Some ?pid"
      "pr_retired_epoch r = Some (et_producer_epoch req)" "pr_retired_committed r = Some (et_committed req)"
    by (rule bump_row [OF p(1) [unfolded producer_of_def] b, unfolded p(2,3)])
  have sys: "sys_inv seg_size crc env d'" using rotate_sys [OF inv closed seq, of now] unfolding rot by simp
  have shut: "\<not> has_open_txn pdb pid'" by (rule bump_closed [OF sys_coord [OF inv] closed b])
  have coord: "coord_inv pdb" using sys_coord [OF sys] by (simp add: d')
  have alone: "q = r" if "q \<in> set (db_producers pdb)" and "pr_transactional_id q = Some (et_transactional_id req)" for q
    by (rule coord_ids [OF coord r(1) that(1)]) (simp_all add: that(2) r(4))
  have "List.find (\<lambda>p. pr_retired_producer_id p = Some ?pid \<and> pr_retired_epoch p = Some (et_producer_epoch req)
      \<and> pr_transactional_id p = Some (et_transactional_id req) \<and> \<not> has_open_txn pdb (pr_producer_id p))
      (db_producers pdb) = Some r"
    by (rule find_unique [OF r(1)]) (use r shut in simp, use alone in blast)
  then show "completed_retry (et_transactional_id req) ?pid (et_producer_epoch req) (et_committed req) d'
      = RetryOf (er_producer_id reply) (er_producer_epoch reply)"
    using r by (simp add: completed_retry_def reply d')
  show "er_error_code reply = E_None" by (simp add: reply)
qed

lemma verdict_code_error: "verdict_code v version \<noteq> E_None"
  by (cases v) simp_all

lemma end_verified_retry:
  assumes inv: "sys_inv seg_size crc env db" and sz: "0 < seg_size"
    and seq: "sint (db_producer_id_seq (lg_producer db)) < 2 ^ 63 - 1"
    and v: "verdict (et_transactional_id req) (et_producer_id req) (et_producer_epoch req) db = Inr ad"
    and ok: "end_verified seg_size crc now True req db = Inr (reply, db')" and none: "er_error_code reply = E_None"
  shows "completed_retry (et_transactional_id req) (et_producer_id req) (et_producer_epoch req) (et_committed req) db'
     = RetryOf (er_producer_id reply) (er_producer_epoch reply)"
proof -
  let ?pid = "et_producer_id req"
  obtain p where p: "producer_of ?pid db = Some p" "pr_transactional_id p = Some (et_transactional_id req)"
      "pr_producer_epoch p = et_producer_epoch req"
    using v by (auto simp: verdict_Inr)
  obtain outcome d where f: "finish_transaction seg_size crc now ?pid (et_producer_epoch req) (et_committed req) db = Inr (outcome, d)"
    using ok by (auto simp: end_verified_def rbind_eq_Inr)
  let ?u = "update_txn ?pid (\<lambda>t. t\<lparr>tx_state := TxnAborted, tx_offsets_partitions := []\<rparr>) d"
  have d: "sys_inv seg_size crc env d" by (rule finish_sys [OF inv sz f])
  have seq_d: "sint (db_producer_id_seq (lg_producer d)) < 2 ^ 63 - 1" using seq finish_seq [OF inv sz f] by simp
  have rot: "rotate_pair now req d = (reply, db') \<and> outcome = Ended \<or> rotate_pair now req ?u = (reply, db') \<and> (\<exists>prev. outcome = NotOpen prev)"
    using ok none f by (cases outcome) (auto simp: end_verified_def unchanged_pair_def split: if_splits)
  then have shut: "\<not> has_open_txn (lg_producer d) ?pid" and "outcome \<noteq> Overridden"
    using finish_closes [OF inv sz f] by auto
  then have "producer_of ?pid d = Some p"
    using p(1) finish_keeps_producers [OF inv sz f] by (simp add: producer_of_def)
  note row = this p(2,3)
  from rot show ?thesis
  proof (elim disjE conjE)
    assume "rotate_pair now req d = (reply, db')"
    then show ?thesis by (rule rotate_retry(1) [OF d shut seq_d row])
  next
    assume r: "rotate_pair now req ?u = (reply, db')"
    show ?thesis
    proof (rule rotate_retry(1) [OF close_update_sys [OF d shut] _ _ row(2,3) r])
      show "sint (db_producer_id_seq (lg_producer ?u)) < 2 ^ 63 - 1" using seq_d by (simp add: update_txn_def)
      show "producer_of ?pid ?u = Some p" using row(1) by (simp add: producer_of_def update_txn_def)
    qed
  qed
qed

text \<open>C5: An \<open>EndTxn\<close> under the second transaction version can be retried. Once it has succeeded, the same request sent again,
  at any later time, gets the same answer, the same producer id and the same next epoch, and changes nothing: the
  epoch is not bumped twice and no second marker is written.\<close>

theorem end_txn_retry:
  assumes "broker_reachable seg_size crc env od" and "sint (db_producer_id_seq (lg_producer (od_log od))) < 2 ^ 63 - 1"
    and "5 \<le> sint version" and "2 \<le> tv"
    and "handle_end_txn seg_size crc now tv req version (od_log od) = Inr (reply, db')" and "er_error_code reply = E_None"
  shows "handle_end_txn seg_size crc later tv req version db' = Inr (reply, db')"
proof -
  note inv = reachable_sys [OF assms(1)]
  have sz: "0 < seg_size" using assms(1) by (simp add: broker_reachable_def)
  let ?c = "completed_retry (et_transactional_id req) (et_producer_id req) (et_producer_epoch req) (et_committed req)"
  let ?ok = "RetryOf (er_producer_id reply) (er_producer_epoch reply)"
  have id: "et_transactional_id req \<noteq> []"
    using assms(5,6) by (auto simp: handle_end_txn_def unchanged_pair_def split: if_splits)
  have "?c db' = ?ok"
  proof (cases "?c (od_log od)")
    case NotRetry
    then obtain ad where v: "verdict (et_transactional_id req) (et_producer_id req) (et_producer_epoch req) (od_log od) = Inr ad"
      using assms(3-6) id by (auto simp: handle_end_txn_def Let_def unchanged_pair_def verdict_code_error split: sum.splits)
    have "end_verified seg_size crc now True req (od_log od) = Inr (reply, db')"
      using assms(3-5) id NotRetry v by (simp add: handle_end_txn_def Let_def)
    then show ?thesis by (rule end_verified_retry [OF inv sz assms(2) v _ assms(6)])
  qed (use assms(3-6) id in \<open>auto simp: handle_end_txn_def Let_def unchanged_pair_def\<close>)
  then show ?thesis using assms(3,4,6) id by (simp add: handle_end_txn_def Let_def)
qed

theorem end_txn_retry_witness:
  "handle_end_txn 1000 run_crc 9 2 run_abort 5 run_aborted = handle_end_txn 1000 run_crc 7 2 run_abort 5 run_written"
proof -
  let ?x = "handle_end_txn 1000 run_crc 7 2 run_abort 5 run_written"
  have x: "?x = Inr (fst (projr ?x), run_aborted)"
    using aborted_ok [THEN conjunct1, THEN Inr_projr] by (simp only: run_aborted_def)
  have "er_error_code (fst (projr ?x)) = E_None" by code_simp
  then have "handle_end_txn 1000 run_crc 9 2 run_abort 5 run_aborted = Inr (fst (projr ?x), run_aborted)"
    using end_txn_retry [OF reach_written, of 5 2 7 run_abort "fst (projr ?x)" run_aborted 9] x aborted_ok
    by (simp add: run_broker_log)
  then show ?thesis using x by simp
qed

end
