(* ===== verification/Spec2Isabelle.thy ===== *)
theory Spec2Isabelle
  imports Wire_Properties Record_Properties Compaction_Properties Producer_Properties
    Group_Properties Acl_Properties PendingRing Txn_Properties
begin

text \<open>
  A verification library for kafgres, a Kafka broker that runs inside PostgreSQL.

  Codec layer:
  \<^item> \<open>Kafgres_Prelude\<close>: machine integers, results, readers, big-endian integers, LEB128, byte ranges;
  \<^item> \<open>Errors\<close>, \<open>Primitives\<close>, \<open>ApiTables\<close>, \<open>Framing\<close>, \<open>Header\<close>: \<open>src/codec/src\<close>;
  \<^item> \<open>RecordBatch\<close> and \<open>RecordCodec\<close>: \<open>src/codec/src/records.rs\<close>;
  \<^item> \<open>Wire_Properties\<close>: what the codec layer promises.
\<close>

end
